(* ===== verification/Float32.thy ===== *)
theory Float32
  imports Complex_Main "HOL-Library.Log_Nat"
begin

text \<open>
  Finite IEEE-754 single precision numbers as exact rationals. \<open>fl32\<close> rounds a rational to
  the nearest number with a 24-bit significand, ties to even, as every \<^verbatim>\<open>float\<close> operation
  of the program does with its exact result. The exponent range is not bounded: infinities,
  NaN and subnormal numbers are outside the model, and the values the program quantises
  (angles in degrees and positions) are far from both ends of the range.
\<close>

section \<open>Truncation (float to integer conversion)\<close>

definition trunc :: "rat \<Rightarrow> int" where
  "trunc q = (if 0 \<le> q then \<lfloor>q\<rfloor> else \<lceil>q\<rceil>)"

lemma trunc_nonneg: "0 \<le> q \<Longrightarrow> trunc q = \<lfloor>q\<rfloor>"
  by (simp add: trunc_def)

lemma trunc_bounds: "0 \<le> q \<Longrightarrow> of_int (trunc q) \<le> q \<and> q < of_int (trunc q) + 1"
  by (simp add: trunc_nonneg) linarith

lemma trunc_of_int [simp]: "trunc (of_int n) = n"
  by (simp add: trunc_def)

section \<open>Binary exponent\<close>

definition ilog2 :: "rat \<Rightarrow> int" where
  "ilog2 q = (let (n, d) = quotient_of q; k = bitlen n - bitlen d
              in if 2 powi k \<le> q then k else k - 1)"

lemma bitlen_powi:
  assumes "0 < n"
  shows "2 powi (bitlen n - 1) \<le> (of_int n :: rat)" and "(of_int n :: rat) < 2 powi bitlen n"
proof -
  have b: "1 \<le> bitlen n" using assms bitlen_eq_zero_iff [of n] bitlen_nonneg [of n] by linarith
  have "2 ^ nat (bitlen n - 1) \<le> n" and "n < 2 ^ nat (bitlen n)"
    using bitlen_bounds [OF assms] by auto
  then have "(2 :: rat) ^ nat (bitlen n - 1) \<le> of_int n" and "(of_int n :: rat) < 2 ^ nat (bitlen n)"
    by (metis of_int_le_iff of_int_numeral of_int_power, metis of_int_less_iff of_int_numeral of_int_power)
  then show "2 powi (bitlen n - 1) \<le> (of_int n :: rat)" and "(of_int n :: rat) < 2 powi bitlen n"
    using b by (simp_all add: power_int_def)
qed

lemma ilog2_bounds:
  assumes "0 < q"
  shows "2 powi (ilog2 q) \<le> q" and "q < 2 powi (ilog2 q + 1)"
proof -
  obtain n d where nd: "quotient_of q = (n, d)" by (cases "quotient_of q") auto
  have d: "0 < d" using quotient_of_denom_pos [OF nd] .
  have q: "q = of_int n / of_int d" using quotient_of_div [OF nd] .
  have n: "0 < n" using assms d by (simp add: q zero_less_divide_iff)
  define k where "k = bitlen n - bitlen d"
  have two: "(2 :: rat) powi i > 0" for i by simp
  have "q < 2 powi (k + 1)"
  proof -
    have "of_int n < (2 powi bitlen n :: rat)" using bitlen_powi(2) [OF n] .
    also have "2 powi bitlen n = 2 powi (k + 1) * (2 powi (bitlen d - 1) :: rat)"
      by (simp add: k_def flip: power_int_add)
    also have "\<dots> \<le> 2 powi (k + 1) * of_int d"
      using bitlen_powi(1) [OF d] by (intro mult_left_mono) auto
    finally show ?thesis using d by (simp add: q pos_divide_less_eq)
  qed
  moreover have "2 powi (k - 1) \<le> q"
  proof -
    have "2 powi (k - 1) * of_int d \<le> 2 powi (k - 1) * (2 powi bitlen d :: rat)"
      using bitlen_powi(2) [OF d] by (intro mult_left_mono) auto
    also have "\<dots> = 2 powi (bitlen n - 1)"
      by (simp add: k_def flip: power_int_add)
    also have "\<dots> \<le> of_int n" using bitlen_powi(1) [OF n] .
    finally show ?thesis using d by (simp add: q pos_le_divide_eq)
  qed
  ultimately show "2 powi (ilog2 q) \<le> q" and "q < 2 powi (ilog2 q + 1)"
    by (auto simp: ilog2_def nd k_def Let_def)
qed

section \<open>Rounding to single precision\<close>

definition round_half_even :: "rat \<Rightarrow> int" where
  "round_half_even q =
     (let f = \<lfloor>q\<rfloor>; r = q - of_int f
      in if r < 1 / 2 then f else if r > 1 / 2 then f + 1 else if even f then f else f + 1)"

definition fl32 :: "rat \<Rightarrow> rat" where
  "fl32 q =
     (if q = 0 then 0
      else let u = 2 powi (ilog2 \<bar>q\<bar> - 23) in of_int (round_half_even (q / u)) * u)"

lemma round_half_even_error: "\<bar>of_int (round_half_even q) - q\<bar> \<le> 1 / 2"
proof -
  have "of_int \<lfloor>q\<rfloor> \<le> q" "q < of_int \<lfloor>q\<rfloor> + 1" by linarith+
  then show ?thesis by (auto simp: round_half_even_def Let_def abs_le_iff)
qed

lemma round_half_even_of_int [simp]: "round_half_even (of_int n) = n"
  by (simp add: round_half_even_def)

lemma round_half_even_bound:
  assumes "- N \<le> \<lfloor>q\<rfloor>" and "\<lfloor>q\<rfloor> < N"
  shows "\<bar>round_half_even q\<bar> \<le> N"
proof -
  have "round_half_even q = \<lfloor>q\<rfloor> \<or> round_half_even q = \<lfloor>q\<rfloor> + 1"
    by (auto simp: round_half_even_def Let_def)
  then show ?thesis using assms by linarith
qed

text \<open>The relative error of one rounding is at most one unit in \<open>2 ^ 24\<close>.\<close>

lemma fl32_error: "\<bar>fl32 q - q\<bar> \<le> \<bar>q\<bar> / 2 ^ 24"
proof (cases "q = 0")
  case True
  then show ?thesis by (simp add: fl32_def)
next
  case False
  define u :: rat where "u = 2 powi (ilog2 \<bar>q\<bar> - 23)"
  have u: "0 < u" by (simp add: u_def)
  have "u * 2 ^ 23 = 2 powi (ilog2 \<bar>q\<bar>)"
    by (simp add: u_def power_int_diff)
  then have le: "u * 2 ^ 23 \<le> \<bar>q\<bar>" using ilog2_bounds(1) [of "\<bar>q\<bar>"] False by simp
  have "fl32 q - q = (of_int (round_half_even (q / u)) - q / u) * u"
    using False u by (simp add: fl32_def u_def Let_def left_diff_distrib)
  then have "\<bar>fl32 q - q\<bar> = \<bar>of_int (round_half_even (q / u)) - q / u\<bar> * u"
    using u by (simp add: abs_mult)
  also have "\<dots> \<le> 1 / 2 * u"
    using u round_half_even_error by (intro mult_right_mono) auto
  also have "\<dots> \<le> \<bar>q\<bar> / 2 ^ 24" using le by simp
  finally show ?thesis .
qed

text \<open>A number with a 24-bit significand is its own rounding: scaling by powers of two is exact.\<close>

lemma fl32_exact:
  assumes "q = of_int m * 2 powi e" and "\<bar>m\<bar> < 2 ^ 24"
  shows "fl32 q = q"
proof (cases "q = 0")
  case True
  then show ?thesis by (simp add: fl32_def)
next
  case False
  define l where "l = ilog2 \<bar>q\<bar>"
  have "2 powi l \<le> \<bar>q\<bar>" using ilog2_bounds(1) [of "\<bar>q\<bar>"] False by (simp add: l_def)
  also have "\<bar>q\<bar> = of_int \<bar>m\<bar> * 2 powi e" by (simp add: assms(1) abs_mult)
  also have "\<dots> < 2 ^ 24 * 2 powi e"
    using assms(2) by (intro mult_strict_right_mono) (simp_all add: flip: of_int_power)
  also have "\<dots> = 2 powi (e + 24)" by (simp add: power_int_add)
  finally have lt: "2 powi l < (2 powi (e + 24) :: rat)" .
  have "\<not> e + 24 \<le> l" using power_int_increasing [of "e + 24" l "2 :: rat"] lt by auto
  then have k: "0 \<le> e - (l - 23)" by simp
  have "q / 2 powi (l - 23) = of_int m * 2 powi (e - (l - 23))"
    by (simp add: assms(1) power_int_diff)
  also have "\<dots> = of_int (m * 2 ^ nat (e - (l - 23)))"
    using k by (simp add: power_int_def)
  finally have "of_int (round_half_even (q / 2 powi (l - 23))) = q / 2 powi (l - 23)"
    by (simp only: round_half_even_of_int)
  then show ?thesis using False by (simp add: fl32_def l_def Let_def)
qed

lemma fl32_int: "\<bar>m\<bar> < 2 ^ 24 \<Longrightarrow> fl32 (of_int m) = of_int m"
  by (rule fl32_exact [of _ _ 0]) simp_all

lemma fl32_dyadic:
  assumes "\<bar>m\<bar> < 2 ^ 24"
  shows "fl32 (of_int m / 2 ^ k) = of_int m / 2 ^ k"
  by (rule fl32_exact [of _ m "- int k"])
    (use assms in \<open>simp_all add: power_int_minus divide_inverse\<close>)

lemma fl32_nonneg: "0 \<le> q \<Longrightarrow> 0 \<le> fl32 q"
proof -
  assume "0 \<le> q"
  moreover have "\<bar>q\<bar> / 2 ^ 24 \<le> \<bar>q\<bar>" by (simp add: field_simps)
  ultimately show ?thesis using fl32_error [of q] by linarith
qed

text \<open>Every rounded value has a 24-bit significand, so rounding is idempotent.\<close>

lemma fl32_form: "\<exists>m e. fl32 q = of_int m * 2 powi e \<and> \<bar>m\<bar> < 2 ^ 24"
proof (cases "q = 0")
  case True
  then have "fl32 q = of_int 0 * 2 powi 0 \<and> \<bar>0 :: int\<bar> < 2 ^ 24" by (simp add: fl32_def)
  then show ?thesis by blast
next
  case False
  define e where "e = ilog2 \<bar>q\<bar> - 23"
  define r where "r = round_half_even (q / 2 powi e)"
  have eq: "fl32 q = of_int r * 2 powi e" using False by (simp add: fl32_def Let_def e_def r_def)
  have "\<bar>q\<bar> < 2 powi (e + 24)" using ilog2_bounds(2) [of "\<bar>q\<bar>"] False by (simp add: e_def add.commute)
  then have "\<bar>q\<bar> < 2 ^ 24 * 2 powi e" by (simp add: power_int_add)
  then have "\<bar>q / 2 powi e\<bar> < 2 ^ 24" by (simp add: divide_less_eq)
  then have "- (2 ^ 24) \<le> q / 2 powi e" and "q / 2 powi e < 2 ^ 24" by linarith+
  then have "- (2 ^ 24) \<le> \<lfloor>q / 2 powi e\<rfloor>" and "\<lfloor>q / 2 powi e\<rfloor> < 2 ^ 24"
    by (simp_all add: le_floor_iff floor_less_iff)
  then have "\<bar>r\<bar> \<le> 2 ^ 24" unfolding r_def by (rule round_half_even_bound)
  show ?thesis
  proof (cases "\<bar>r\<bar> = 2 ^ 24")
    case True
    then have "fl32 q = of_int (sgn r * 2 ^ 23) * 2 powi (e + 1)"
      using eq by (auto simp: power_int_add sgn_if abs_if split: if_splits)
    moreover have "\<bar>sgn r * 2 ^ 23\<bar> < 2 ^ 24" by (simp add: abs_mult sgn_if)
    ultimately show ?thesis by blast
  next
    case False
    then show ?thesis using eq \<open>\<bar>r\<bar> \<le> 2 ^ 24\<close> by (intro exI [of _ r] exI [of _ e]) auto
  qed
qed

lemma fl32_idem [simp]: "fl32 (fl32 q) = fl32 q"
  using fl32_form [of q] fl32_exact by blast

text \<open>Scaling a float by a power of two is exact.\<close>

lemma fl32_scale:
  assumes "fl32 q = q"
  shows "fl32 (q * 2 ^ k) = q * 2 ^ k"
proof -
  obtain m e where "q = of_int m * 2 powi e" and m: "\<bar>m\<bar> < 2 ^ 24"
    using fl32_form [of q] assms by metis
  then have "q * 2 ^ k = of_int m * 2 powi (e + int k)" by (simp add: power_int_add)
  then show ?thesis using m by (rule fl32_exact)
qed

lemma fl32_minus: "fl32 q = q \<Longrightarrow> fl32 (- q) = - q"
proof -
  assume "fl32 q = q"
  then obtain m e where "q = of_int m * 2 powi e" and m: "\<bar>m\<bar> < 2 ^ 24"
    using fl32_form [of q] by metis
  then show ?thesis using m fl32_exact [of "- q" "- m" e] by simp
qed

lemma fl32_abs: "fl32 q = q \<Longrightarrow> fl32 \<bar>q\<bar> = \<bar>q\<bar>"
  by (auto simp: abs_if fl32_minus)

end
