(* ===== verification/Prelude.thy ===== *)
theory Prelude
  imports Main "HOL-Library.Word" "HOL-Library.Monad_Syntax"
begin

unbundle bit_operations_syntax

text \<open>
  What the components share: the integer types of \<^verbatim>\<open>UDP01/OldCode/DataTypes.h\<close>, byte
  buffers with checked reads and writes, the faults a C++ run can end in, and generic
  facts on lists and options.

  A buffer of the program (\<^verbatim>\<open>U8* data\<close> with an \<^verbatim>\<open>int& bufferOffset\<close>) is a list of bytes
  and a natural number. The list has the length of the C++ array, so an access outside it
  is a visible outcome, \<^term>\<open>None\<close>, and not an unspecified value.
\<close>

section \<open>Hint collections\<close>

named_theorems buffer_simps \<open>checked reads and writes, and what a buffer holds\<close>
named_theorems byte_simps \<open>words as byte sequences\<close>
named_theorems wire_simps \<open>wire encodings, as plain byte sequences\<close>
named_theorems codec_intros \<open>composition of serializers field by field\<close>
named_theorems step_simps \<open>component operations, unfolded\<close>

section \<open>Integer types (DataTypes.h)\<close>

type_synonym U8 = "8 word"
type_synonym U16 = "16 word"
type_synonym U32 = "32 word"
type_synonym U64 = "64 word"

text \<open>A C++ \<^verbatim>\<open>int\<close> is a 32-bit word that is read by \<^const>\<open>sint\<close>.\<close>

type_synonym S32 = "32 word"

type_synonym bytes = "8 word list"

section \<open>Faults\<close>

text \<open>
  The ways in which a modelled operation can go wrong: an access outside an array, a null
  pointer that is dereferenced, an end iterator that is dereferenced, a conversion whose
  value does not fit (undefined behaviour in C++), a failed \<^verbatim>\<open>_ASSERT\<close>, and a violated
  runtime constraint of a secure CRT function such as \<^verbatim>\<open>strcpy_s\<close>.
\<close>

datatype fault =
    OutOfBounds
  | NullDeref
  | EndIteratorDeref
  | BadConversion
  | AssertFailed
  | ConstraintViolation

type_synonym 'a res = "fault + 'a"

fun from_option :: "fault \<Rightarrow> 'a option \<Rightarrow> 'a res" where
  "from_option e None = Inl e"
| "from_option e (Some x) = Inr x"

fun and_then :: "'a res \<Rightarrow> ('a \<Rightarrow> 'b res) \<Rightarrow> 'b res" where
  "and_then (Inl e) f = Inl e"
| "and_then (Inr x) f = f x"

lemma and_then_Inr_iff [simp]:
  "and_then r f = Inr y \<longleftrightarrow> (\<exists>x. r = Inr x \<and> f x = Inr y)"
  by (cases r) auto

lemma from_option_Inr_iff [simp]: "from_option e r = Inr x \<longleftrightarrow> r = Some x"
  by (cases r) auto

lemma from_option_Inl_iff [simp]: "from_option e r = Inl e' \<longleftrightarrow> r = None \<and> e' = e"
  by (cases r) auto

lemma from_option_case: "from_option e r = (case r of None \<Rightarrow> Inl e | Some x \<Rightarrow> Inr x)"
  by (cases r) auto

lemma and_then_cong [fundef_cong]:
  "r = r' \<Longrightarrow> (\<And>x. r' = Inr x \<Longrightarrow> f x = g x) \<Longrightarrow> and_then r f = and_then r' g"
  by (cases r') auto

section \<open>Checked access to a byte buffer\<close>

definition rd :: "bytes \<Rightarrow> nat \<Rightarrow> nat \<Rightarrow> bytes option" where
  "rd buf off n = (if off + n \<le> length buf then Some (take n (drop off buf)) else None)"

definition wr :: "bytes \<Rightarrow> nat \<Rightarrow> bytes \<Rightarrow> bytes option" where
  "wr buf off bs =
     (if off + length bs \<le> length buf
      then Some (take off buf @ bs @ drop (off + length bs) buf) else None)"

text \<open>\<open>holds_at buf off bs\<close>: the bytes \<open>bs\<close> stand in the buffer from \<open>off\<close> on.\<close>

definition holds_at :: "bytes \<Rightarrow> nat \<Rightarrow> bytes \<Rightarrow> bool" where
  "holds_at buf off bs \<longleftrightarrow> rd buf off (length bs) = Some bs"

lemma rd_None_iff [buffer_simps]: "rd buf off n = None \<longleftrightarrow> length buf < off + n"
  by (auto simp: rd_def)

lemma rd_defined_iff: "(\<exists>bs. rd buf off n = Some bs) \<longleftrightarrow> off + n \<le> length buf"
  by (auto simp: rd_def)

lemma length_rd: "rd buf off n = Some bs \<Longrightarrow> length bs = n"
  by (auto simp: rd_def split: if_splits)

lemma rd_holds_at: "rd buf off n = Some bs \<Longrightarrow> holds_at buf off bs"
  by (auto simp: rd_def holds_at_def split: if_splits)

lemma holds_at_rd: "holds_at buf off bs \<Longrightarrow> length bs = n \<Longrightarrow> rd buf off n = Some bs"
  by (simp add: holds_at_def)

lemma wr_None_iff [buffer_simps]: "wr buf off bs = None \<longleftrightarrow> length buf < off + length bs"
  by (auto simp: wr_def)

lemma wr_defined_iff: "(\<exists>b. wr buf off bs = Some b) \<longleftrightarrow> off + length bs \<le> length buf"
  by (auto simp: wr_def)

lemma wr_Nil [buffer_simps]: "off \<le> length buf \<Longrightarrow> wr buf off [] = Some buf"
  by (simp add: wr_def)

lemma length_wr: "wr buf off bs = Some b \<Longrightarrow> length b = length buf"
  by (auto simp: wr_def split: if_splits)

lemma wr_holds_at: "wr buf off bs = Some b \<Longrightarrow> holds_at b off bs"
  by (auto simp: wr_def rd_def holds_at_def split: if_splits)

lemma wr_nth:
  assumes "wr buf off bs = Some b" and "i < length buf"
  shows "b ! i = (if off \<le> i \<and> i < off + length bs then bs ! (i - off) else buf ! i)"
  using assms by (auto simp: wr_def nth_append min_def split: if_splits)

lemma wr_frame:
  assumes "wr buf off bs = Some b" and "i < length buf" and "i < off \<or> off + length bs \<le> i"
  shows "b ! i = buf ! i"
  using assms(3) by (auto simp: wr_nth [OF assms(1,2)])

text \<open>Two adjacent writes are one write: a serializer writes the concatenation of its fields.\<close>

lemma wr_append:
  "wr buf off (as @ bs) = wr buf off as \<bind> (\<lambda>b. wr b (off + length as) bs)"
  by (auto simp: wr_def ac_simps)

lemma holds_at_append [buffer_simps]:
  "holds_at buf off (as @ bs) \<longleftrightarrow> holds_at buf off as \<and> holds_at buf (off + length as) bs"
proof
  assume "holds_at buf off (as @ bs)"
  then have len: "off + (length as + length bs) \<le> length buf"
    and eq: "take (length as + length bs) (drop off buf) = as @ bs"
    by (auto simp: holds_at_def rd_def split: if_splits)
  from eq have parts: "take (length as) (drop off buf) @
      take (length bs) (drop (length as) (drop off buf)) = as @ bs"
    by (simp only: take_add)
  have l: "length (take (length as) (drop off buf)) = length as"
    using len by simp
  have "take (length as) (drop off buf) = as \<and>
      take (length bs) (drop (length as) (drop off buf)) = bs"
    by (rule append_eq_append_conv [THEN iffD1, OF disjI1, OF l parts])
  then show "holds_at buf off as \<and> holds_at buf (off + length as) bs"
    using len by (simp add: holds_at_def rd_def add.commute)
next
  assume *: "holds_at buf off as \<and> holds_at buf (off + length as) bs"
  then show "holds_at buf off (as @ bs)"
    by (auto simp: holds_at_def rd_def take_add add.assoc add.commute split: if_splits)
qed

lemma holds_at_Nil [buffer_simps]: "holds_at buf off [] \<longleftrightarrow> off \<le> length buf"
  by (simp add: holds_at_def rd_def)

lemma holds_at_length: "holds_at buf off bs \<Longrightarrow> off + length bs \<le> length buf"
  by (auto simp: holds_at_def rd_def split: if_splits)

lemma holds_at_nth: "holds_at buf off bs \<Longrightarrow> i < length bs \<Longrightarrow> buf ! (off + i) = bs ! i"
  by (auto simp: holds_at_def rd_def split: if_splits dest!: arg_cong [where f = "\<lambda>l. l ! i"])

lemma holds_at_prefix: "off = length pre \<Longrightarrow> holds_at (pre @ bs @ post) off bs"
  by (simp add: holds_at_def rd_def)

text \<open>A write elsewhere does not touch what the buffer holds here.\<close>

lemma holds_at_wr_disjoint:
  assumes w: "wr buf off bs = Some b" and h: "holds_at buf o2 cs"
    and dis: "o2 + length cs \<le> off \<or> off + length bs \<le> o2"
  shows "holds_at b o2 cs"
proof -
  have "take (length cs) (drop o2 b) = take (length cs) (drop o2 buf)"
  proof (rule nth_equalityI)
    show "length (take (length cs) (drop o2 b)) = length (take (length cs) (drop o2 buf))"
      using length_wr [OF w] by simp
  next
    fix i assume "i < length (take (length cs) (drop o2 b))"
    then show "take (length cs) (drop o2 b) ! i = take (length cs) (drop o2 buf) ! i"
      using dis length_wr [OF w] by (auto simp: wr_nth [OF w])
  qed
  then show ?thesis
    using h length_wr [OF w] by (auto simp: holds_at_def rd_def split: if_splits)
qed

section \<open>Composing serializers field by field\<close>

text \<open>
  \<open>writes f bs\<close>: \<open>f\<close> writes exactly the block \<open>bs\<close>. \<open>reads f bs v\<close>: \<open>f\<close> turns the block
  \<open>bs\<close> into \<open>v\<close>. \<open>takes f n\<close>: \<open>f\<close> consumes \<open>n\<close> bytes and fails exactly when they are not
  there. A chain of field serializers composes these facts with the rules of
  \<open>codec_intros\<close>.
\<close>

definition writes :: "(bytes \<Rightarrow> nat \<Rightarrow> (bytes \<times> nat) option) \<Rightarrow> bytes \<Rightarrow> bool" where
  "writes f bs \<longleftrightarrow> (\<forall>buf off. f buf off = map_option (\<lambda>b. (b, off + length bs)) (wr buf off bs))"

definition reads :: "(bytes \<Rightarrow> nat \<Rightarrow> ('a \<times> nat) option) \<Rightarrow> bytes \<Rightarrow> 'a \<Rightarrow> bool" where
  "reads f bs v \<longleftrightarrow> (\<forall>buf off. holds_at buf off bs \<longrightarrow> f buf off = Some (v, off + length bs))"

definition takes :: "(bytes \<Rightarrow> nat \<Rightarrow> ('a \<times> nat) option) \<Rightarrow> nat \<Rightarrow> bool" where
  "takes f n \<longleftrightarrow> (\<forall>buf off. (f buf off = None \<longleftrightarrow> length buf < off + n) \<and>
     (\<forall>v off'. f buf off = Some (v, off') \<longrightarrow> off' = off + n))"

lemma writes_bind [codec_intros]:
  assumes "writes f as" and "writes g bs"
  shows "writes (\<lambda>buf off. f buf off \<bind> (\<lambda>(d, o'). g d o')) (as @ bs)"
  using assms unfolding writes_def wr_append
  by (auto simp: bind_def map_option_case add.assoc split: option.splits)

lemma writes_last [codec_intros]:
  "writes f as \<Longrightarrow> writes (\<lambda>buf off. f buf off \<bind> (\<lambda>(d, o'). Some (d, o'))) as"
  by (simp add: writes_def)

lemma reads_bind [codec_intros]:
  assumes "reads f as x" and "reads (g x) bs y"
  shows "reads (\<lambda>buf off. f buf off \<bind> (\<lambda>(v, o'). g v buf o')) (as @ bs) y"
  using assms unfolding reads_def by (simp add: holds_at_append add.assoc)

lemma reads_last [codec_intros]:
  "reads f as x \<Longrightarrow> y = h x \<Longrightarrow> reads (\<lambda>buf off. f buf off \<bind> (\<lambda>(v, o'). Some (h v, o'))) as y"
  by (simp add: reads_def)

lemma reads_map [codec_intros]:
  "reads f as x \<Longrightarrow> y = h x \<Longrightarrow> reads (\<lambda>buf off. map_option (map_prod h id) (f buf off)) as y"
  by (simp add: reads_def)

lemma takesI:
  assumes "\<And>buf off. length buf < off + n \<Longrightarrow> f buf off = None"
    and "\<And>buf off. off + n \<le> length buf \<Longrightarrow> \<exists>v. f buf off = Some (v, off + n)"
  shows "takes f n"
  unfolding takes_def using assms by (metis leI not_Some_eq option.inject prod.inject not_le)

lemma takes_Some: "takes f n \<Longrightarrow> off + n \<le> length buf \<Longrightarrow> \<exists>v. f buf off = Some (v, off + n)"
  unfolding takes_def by (metis not_Some_eq not_le surj_pair)

lemma takes_None: "takes f n \<Longrightarrow> length buf < off + n \<Longrightarrow> f buf off = None"
  by (simp add: takes_def)

lemma takes_bind [codec_intros]:
  assumes f: "takes f m" and g: "\<And>x. takes (g x) n"
  shows "takes (\<lambda>buf off. f buf off \<bind> (\<lambda>(v, o'). g v buf o')) (m + n)"
proof (rule takesI)
  fix buf :: bytes and off :: nat assume short: "length buf < off + (m + n)"
  show "f buf off \<bind> (\<lambda>(v, o'). g v buf o') = None"
  proof (cases "length buf < off + m")
    case True
    then show ?thesis using takes_None [OF f] by simp
  next
    case False
    then obtain v where "f buf off = Some (v, off + m)" using takes_Some [OF f, of off buf] by auto
    then show ?thesis using takes_None [OF g, of buf "off + m" v] short by (simp add: add.assoc)
  qed
next
  fix buf :: bytes and off :: nat assume long: "off + (m + n) \<le> length buf"
  then obtain v where "f buf off = Some (v, off + m)" using takes_Some [OF f, of off buf] by auto
  then show "\<exists>y. f buf off \<bind> (\<lambda>(v, o'). g v buf o') = Some (y, off + (m + n))"
    using takes_Some [OF g, of "off + m" buf v] long by (simp add: add.assoc)
qed

lemma takes_last [codec_intros]:
  assumes "takes f n" shows "takes (\<lambda>buf off. f buf off \<bind> (\<lambda>(v, o'). Some (h v, o'))) n"
  using takes_None [OF assms] takes_Some [OF assms] by (intro takesI) fastforce+

lemma takes_map [codec_intros]:
  "takes f n \<Longrightarrow> takes (\<lambda>buf off. map_option (map_prod h id) (f buf off)) n"
  unfolding takes_def by auto

lemma writesD: "writes f bs \<Longrightarrow> f buf off = map_option (\<lambda>b. (b, off + length bs)) (wr buf off bs)"
  by (simp add: writes_def)

lemma readsD: "reads f bs v \<Longrightarrow> holds_at buf off bs \<Longrightarrow> f buf off = Some (v, off + length bs)"
  by (simp add: reads_def)

lemma takes_None_iff: "takes f n \<Longrightarrow> f buf off = None \<longleftrightarrow> length buf < off + n"
  by (simp add: takes_def)

lemma takes_advance: "takes f n \<Longrightarrow> f buf off = Some (v, off') \<Longrightarrow> off' = off + n"
  by (simp add: takes_def)

section \<open>Lists and options\<close>

lemma bind_map_option: "map_option f r \<bind> g = r \<bind> (g \<circ> f)"
  by (cases r) auto

lemma map_option_bind: "map_option f (r \<bind> g) = r \<bind> (map_option f \<circ> g)"
  by (cases r) auto

lemma list_update_conv: "i < length xs \<Longrightarrow> xs[i := x] = take i xs @ x # drop (Suc i) xs"
  by (rule upd_conv_take_nth_drop)

lemma nth_update_if: "xs[c := y] ! i = (if i = c \<and> c < length xs then y else xs ! i)"
  by (metis list_update_beyond not_le nth_list_update_eq nth_list_update_neq)

lemma map_update_same: "g y = g (xs ! c) \<Longrightarrow> map g (xs[c := y]) = map g xs"
  by (metis list_update_beyond list_update_id map_update not_le)

lemma in_set_tlD: "x \<in> set (tl xs) \<Longrightarrow> x \<in> set xs"
  by (cases xs) auto

lemma takeWhile_append_stop: "\<forall>x\<in>set xs. P x \<Longrightarrow> \<not> P y \<Longrightarrow> takeWhile P (xs @ y # ys) = xs"
  by (induction xs) auto

lemma takeWhile_id: "\<forall>x\<in>set xs. P x \<Longrightarrow> takeWhile P xs = xs"
  by (induction xs) auto

end
