(* ===== verification/Machine_Words.thy ===== *)
theory Machine_Words
  imports Prelude
begin

text \<open>
  Words as byte sequences on a little-endian host: native loads and stores, byte
  swapping, the byte-order functions of the socket library that \<^verbatim>\<open>Serialize.h\<close> calls, and
  the 64-bit pair \<^verbatim>\<open>htonll\<close>/\<^verbatim>\<open>ntohll\<close> that \<^verbatim>\<open>Serialize.cpp\<close> defines itself. The program's
  unit tests fix the host's byte order ("byte order in windows").
\<close>

section \<open>Bytes of a word\<close>

definition le_bytes :: "'a::len word \<Rightarrow> bytes" where
  "le_bytes v = map (\<lambda>k. ucast (drop_bit (8 * k) v)) [0..<LENGTH('a) div 8]"

fun of_le_bytes :: "bytes \<Rightarrow> 'a::len word" where
  "of_le_bytes [] = 0"
| "of_le_bytes (b # bs) = ucast b OR push_bit 8 (of_le_bytes bs)"

definition be_bytes :: "'a::len word \<Rightarrow> bytes" where
  "be_bytes v = rev (le_bytes v)"

lemma length_le_bytes [simp]: "length (le_bytes (v :: 'a::len word)) = LENGTH('a) div 8"
  by (simp add: le_bytes_def)

lemma length_be_bytes [simp]: "length (be_bytes (v :: 'a::len word)) = LENGTH('a) div 8"
  by (simp add: be_bytes_def)

lemma bit_of_le_bytes:
  "bit (of_le_bytes bs :: 'a::len word) n \<longleftrightarrow>
     n < LENGTH('a) \<and> n div 8 < length bs \<and> bit (bs ! (n div 8)) (n mod 8)"
proof (induction bs arbitrary: n)
  case Nil
  then show ?case by simp
next
  case (Cons b bs)
  show ?case
  proof (cases "n < 8")
    case True
    then show ?thesis by (auto simp: bit_simps)
  next
    case False
    then obtain m where m: "n = m + 8" using le_Suc_ex [of 8 n] by (auto simp: add.commute)
    have d: "(m + 8) div 8 = Suc (m div 8)" by simp
    have "\<not> bit b n" using False bit_imp_le_length [of b n] by auto
    then show ?thesis
      using Cons.IH [of m] by (auto simp: m d bit_simps)
  qed
qed

lemma of_le_bytes_le_bytes:
  fixes v :: "'a::len word"
  assumes "8 dvd LENGTH('a)"
  shows "of_le_bytes (le_bytes v) = v"
proof (rule bit_word_eqI)
  fix n assume n: "n < LENGTH('a)"
  then have "n div 8 < LENGTH('a) div 8" using assms by (auto elim!: dvdE simp: div_less_iff_less_mult)
  then show "bit (of_le_bytes (le_bytes v) :: 'a word) n = bit v n"
    using n by (simp add: bit_of_le_bytes le_bytes_def bit_simps)
qed

lemma le_bytes_of_le_bytes:
  assumes "length bs = LENGTH('a) div 8"
  shows "le_bytes (of_le_bytes bs :: 'a::len word) = bs"
proof (rule nth_equalityI)
  show "length (le_bytes (of_le_bytes bs :: 'a word)) = length bs" using assms by simp
next
  fix k assume "k < length (le_bytes (of_le_bytes bs :: 'a word))"
  then have k: "k < LENGTH('a) div 8" by simp
  then have "(k + 1) * 8 \<le> LENGTH('a)" using div_le_dividend
    by (metis Suc_eq_plus1 Suc_leI less_mult_imp_div_less not_less)
  then show "le_bytes (of_le_bytes bs :: 'a word) ! k = bs ! k"
    using k assms by (intro bit_word_eqI) (auto simp: le_bytes_def bit_simps bit_of_le_bytes)
qed

section \<open>Native loads and stores\<close>

definition load_native :: "bytes \<Rightarrow> nat \<Rightarrow> 'a::len word option" where
  "load_native buf off = map_option of_le_bytes (rd buf off (LENGTH('a) div 8))"

definition store_native :: "bytes \<Rightarrow> nat \<Rightarrow> 'a::len word \<Rightarrow> bytes option" where
  "store_native buf off v = wr buf off (le_bytes v)"

section \<open>Byte order\<close>

text \<open>
  \<^verbatim>\<open>htons\<close>, \<^verbatim>\<open>htonl\<close> and their inverses swap the bytes of their argument on a
  little-endian host.
\<close>

definition byte_swap :: "'a::len word \<Rightarrow> 'a word" where
  "byte_swap v = of_le_bytes (be_bytes v)"

definition htons :: "U16 \<Rightarrow> U16" where "htons v = byte_swap v"
definition ntohs :: "U16 \<Rightarrow> U16" where "ntohs v = byte_swap v"
definition htonl :: "U32 \<Rightarrow> U32" where "htonl v = byte_swap v"
definition ntohl :: "U32 \<Rightarrow> U32" where "ntohl v = byte_swap v"

text \<open>\<^verbatim>\<open>htonll\<close> of Serialize.cpp: the two halves are swapped by \<^verbatim>\<open>htonl\<close> and exchanged.\<close>

definition htonll :: "U64 \<Rightarrow> U64" where
  "htonll value =
     (let high_part = htonl (ucast (drop_bit 32 value));
          low_part = htonl (ucast (value AND 0xFFFFFFFF))
      in push_bit 32 (ucast low_part) OR ucast high_part)"

definition ntohll :: "U64 \<Rightarrow> U64" where
  "ntohll value = htonll value"

lemma le_bytes_byte_swap:
  "le_bytes (byte_swap (v :: 'a::len word)) = be_bytes v"
  by (simp add: byte_swap_def le_bytes_of_le_bytes)

lemma byte_swap_of_le_bytes:
  assumes "length bs = LENGTH('a) div 8"
  shows "byte_swap (of_le_bytes bs :: 'a::len word) = of_le_bytes (rev bs)"
  by (simp add: byte_swap_def be_bytes_def le_bytes_of_le_bytes assms)

lemma byte_swap_byte_swap:
  "8 dvd LENGTH('a) \<Longrightarrow> byte_swap (byte_swap (v :: 'a::len word)) = v"
  by (simp add: byte_swap_def [of "byte_swap v"] be_bytes_def le_bytes_byte_swap of_le_bytes_le_bytes)

lemma of_le_bytes_rev_be_bytes:
  "8 dvd LENGTH('a) \<Longrightarrow> byte_swap (of_le_bytes (be_bytes v)) = (v :: 'a::len word)"
  by (simp add: byte_swap_of_le_bytes be_bytes_def of_le_bytes_le_bytes)

lemma bit_byte_swap:
  fixes v :: "'a::len word"
  assumes "8 dvd LENGTH('a)" and "n < LENGTH('a)"
  shows "bit (byte_swap v) n = bit v (8 * (LENGTH('a) div 8 - 1 - n div 8) + n mod 8)"
proof -
  have k: "n div 8 < LENGTH('a) div 8"
    using assms by (auto elim!: dvdE simp: div_less_iff_less_mult)
  then show ?thesis
    using assms
    by (simp add: byte_swap_def bit_of_le_bytes be_bytes_def rev_nth le_bytes_def bit_simps)
qed

lemma htonll_byte_swap: "htonll v = byte_swap v"
proof (rule bit_word_eqI)
  fix n assume n: "n < LENGTH(64)"
  have m: "bit (0xFFFFFFFF :: 64 word) k \<longleftrightarrow> k < 32" for k
  proof -
    have "(0xFFFFFFFF :: 64 word) = mask 32" by (simp add: mask_eq_exp_minus_1)
    then show ?thesis by (simp only: bit_mask_iff) auto
  qed
  show "bit (htonll v) n = bit (byte_swap v) n"
  proof (cases "n < 32")
    case True
    define q where "q = 3 - n div 8"
    then have d: "3 - n div 8 = q" "7 - n div 8 = q + 4" using True by presburger+
    have e: "32 + (8 * q + n mod 8) = 8 * (q + 4) + n mod 8" by simp
    have q: "8 * q + n mod 8 < 32" using True by (simp add: q_def)
    from True show ?thesis
      by (auto simp: htonll_def Let_def htonl_def bit_simps bit_byte_swap m d e q)
  next
    case False
    then obtain k where k: "n = k + 32" "k < 32" using n le_Suc_ex [of 32 n] by (auto simp: add.commute)
    define j where "j = 8 * (3 - k div 8) + k mod 8"
    have j: "j < 32" using k(2) by (simp add: j_def)
    have d: "(k + 32) div 8 = k div 8 + 4" "(k + 32) mod 8 = k mod 8" by presburger+
    have hi: "\<not> bit w (k + 32)" for w :: U32
      using bit_imp_le_length [of w "k + 32"] by auto
    have "bit (htonll v) n = bit (htonl (ucast (v AND 0xFFFFFFFF))) k"
      using k hi by (simp add: htonll_def Let_def bit_simps)
    also have "\<dots> = bit v j"
      using k(2) j by (simp add: htonl_def bit_byte_swap j_def [symmetric] bit_simps m
          del: bit_numeral_word_iff)
    also have "\<dots> = bit (byte_swap v) n"
      using k by (simp add: bit_byte_swap j_def d)
    finally show ?thesis .
  qed
qed

end
