(* ===== verification/Serialize.thy ===== *)
theory Serialize
  imports Machine_Words
begin

text \<open>
  The primitive serializers of \<^verbatim>\<open>UDP01/OldCode/Packets/Serialize.h\<close>. An \<open>In\<close> function
  returns the value and the advanced offset, an \<open>Out\<close> function the buffer and the
  advanced offset; \<^term>\<open>None\<close> is an access outside the buffer. The parameter
  \<^verbatim>\<open>minorVersion\<close>, which every serializer passes on and none reads, is left out.

  The locale \<open>serializer\<close> is the contract between a serializer and its users: one wire
  encoding, written as a whole and read back as a whole. The class serializers of the
  packet theories rest on it.
\<close>

section \<open>The contract\<close>

locale serializer =
  fixes enc :: "'a \<Rightarrow> bytes"
    and inp :: "bytes \<Rightarrow> nat \<Rightarrow> ('a \<times> nat) option"
    and outp :: "bytes \<Rightarrow> nat \<Rightarrow> 'a \<Rightarrow> (bytes \<times> nat) option"
    and ok :: "'a \<Rightarrow> bool"
  assumes outp_enc:
      "outp buf off v = map_option (\<lambda>b. (b, off + length (enc v))) (wr buf off (enc v))"
    and inp_enc:
      "ok v \<Longrightarrow> holds_at buf off (enc v) \<Longrightarrow> inp buf off = Some (v, off + length (enc v))"
begin

lemma outp_SomeD:
  "outp buf off v = Some (b, off') \<Longrightarrow> wr buf off (enc v) = Some b \<and> off' = off + length (enc v)"
  by (auto simp: outp_enc)

lemma outp_None_iff: "outp buf off v = None \<longleftrightarrow> length buf < off + length (enc v)"
  by (simp add: outp_enc wr_None_iff)

lemma roundtrip:
  assumes "ok v" and "outp buf off v = Some (b, off')"
  shows "inp b off = Some (v, off')"
proof -
  from assms(2) have "wr buf off (enc v) = Some b" and "off' = off + length (enc v)"
    by (auto dest: outp_SomeD)
  then show ?thesis using inp_enc [OF assms(1)] wr_holds_at by blast
qed

lemma outp_length: "outp buf off v = Some (b, off') \<Longrightarrow> length b = length buf"
  by (auto dest: outp_SomeD intro: length_wr)

lemma outp_frame:
  "outp buf off v = Some (b, off') \<Longrightarrow> i < length buf \<Longrightarrow> i < off \<or> off' \<le> i \<Longrightarrow> b ! i = buf ! i"
  by (auto dest!: outp_SomeD dest: wr_frame)

lemma writes_outp: "writes (\<lambda>buf off. outp buf off v) (enc v)"
  by (simp add: writes_def outp_enc)

lemma reads_inp: "ok v \<Longrightarrow> reads inp (enc v) v"
  by (simp add: reads_def inp_enc)

lemma outp_then:
  "outp buf off v \<bind> (\<lambda>(b, o'). map_option (\<lambda>b. (b, o' + length cs)) (wr b o' cs)) =
     map_option (\<lambda>b. (b, off + length (enc v @ cs))) (wr buf off (enc v @ cs))"
  by (auto simp: outp_enc wr_append bind_map_option map_option_bind comp_def ac_simps
      split: bind_split)

end

text \<open>A serializer of fixed width, whose reads fail exactly when the width does not fit.\<close>

locale fixed_serializer = serializer enc inp outp ok
  for enc :: "'a \<Rightarrow> bytes" and inp outp ok +
  fixes width :: nat
  assumes enc_width: "length (enc v) = width"
    and inp_None_iff: "inp buf off = None \<longleftrightarrow> length buf < off + width"
    and inp_advance: "inp buf off = Some (v, off') \<Longrightarrow> off' = off + width"
begin

lemma takes_inp: "takes inp width"
  by (auto simp: takes_def inp_None_iff dest: inp_advance)

lemma outp_bounds: "outp buf off v = None \<longleftrightarrow> length buf < off + width"
  by (simp add: outp_None_iff enc_width)

lemma outp_advance: "outp buf off v = Some (b, off') \<Longrightarrow> off' = off + width"
  by (auto dest: outp_SomeD simp: enc_width)

end

section \<open>Primitive serializers\<close>

definition In_native :: "bytes \<Rightarrow> nat \<Rightarrow> ('a::len word \<times> nat) option" where
  "In_native source off = do {
     value \<leftarrow> load_native source off;
     Some (value, off + LENGTH('a) div 8) }"

definition Out_native :: "bytes \<Rightarrow> nat \<Rightarrow> 'a::len word \<Rightarrow> (bytes \<times> nat) option" where
  "Out_native destination off value = do {
     d \<leftarrow> store_native destination off value;
     Some (d, off + LENGTH('a) div 8) }"

definition In_U8 :: "bytes \<Rightarrow> nat \<Rightarrow> (U8 \<times> nat) option" where
  "In_U8 source off = do {
     b \<leftarrow> rd source off 1;
     Some (hd b, off + 1) }"

definition Out_U8 :: "bytes \<Rightarrow> nat \<Rightarrow> U8 \<Rightarrow> (bytes \<times> nat) option" where
  "Out_U8 destination off value = do {
     d \<leftarrow> wr destination off [value];
     Some (d, off + 1) }"

definition In_U16 :: "bytes \<Rightarrow> nat \<Rightarrow> (U16 \<times> nat) option" where
  "In_U16 source off = do {
     v \<leftarrow> load_native source off;
     Some (ntohs v, off + 2) }"

definition Out_U16 :: "bytes \<Rightarrow> nat \<Rightarrow> U16 \<Rightarrow> (bytes \<times> nat) option" where
  "Out_U16 destination off value = do {
     d \<leftarrow> store_native destination off (htons value);
     Some (d, off + 2) }"

definition In_U32 :: "bytes \<Rightarrow> nat \<Rightarrow> (U32 \<times> nat) option" where
  "In_U32 source off = do {
     v \<leftarrow> load_native source off;
     Some (ntohl v, off + 4) }"

definition Out_U32 :: "bytes \<Rightarrow> nat \<Rightarrow> U32 \<Rightarrow> (bytes \<times> nat) option" where
  "Out_U32 destination off value = do {
     d \<leftarrow> store_native destination off (htonl value);
     Some (d, off + 4) }"

text \<open>The \<^verbatim>\<open>int\<close> serializers convert through \<^verbatim>\<open>U32\<close>; the 32 bits are the same.\<close>

definition In_int :: "bytes \<Rightarrow> nat \<Rightarrow> (S32 \<times> nat) option" where
  "In_int source off = do {
     v \<leftarrow> load_native source off;
     Some (ntohl v, off + 4) }"

definition Out_int :: "bytes \<Rightarrow> nat \<Rightarrow> S32 \<Rightarrow> (bytes \<times> nat) option" where
  "Out_int destination off value = do {
     d \<leftarrow> store_native destination off (htonl value);
     Some (d, off + 4) }"

definition In_U64 :: "bytes \<Rightarrow> nat \<Rightarrow> (U64 \<times> nat) option" where
  "In_U64 source off = do {
     v \<leftarrow> load_native source off;
     Some (ntohll v, off + 8) }"

definition Out_U64 :: "bytes \<Rightarrow> nat \<Rightarrow> U64 \<Rightarrow> (bytes \<times> nat) option" where
  "Out_U64 destination off value = do {
     d \<leftarrow> store_native destination off (htonll value);
     Some (d, off + 8) }"

definition In_bool :: "bytes \<Rightarrow> nat \<Rightarrow> (bool \<times> nat) option" where
  "In_bool source off = do {
     b \<leftarrow> rd source off 1;
     Some (hd b \<noteq> 0, off + 1) }"

definition Out_bool :: "bytes \<Rightarrow> nat \<Rightarrow> bool \<Rightarrow> (bytes \<times> nat) option" where
  "Out_bool destination off value = do {
     d \<leftarrow> wr destination off [if value then 1 else 0];
     Some (d, off + 1) }"

section \<open>Strings\<close>

definition MaxString :: nat where "MaxString = 3 * 1024"

text \<open>
  \<^verbatim>\<open>value = buffer\<close> assigns a C string, so the value ends at the first zero byte that was
  read; the offset still advances by the clamped length.
\<close>

definition In_string :: "bytes \<Rightarrow> nat \<Rightarrow> (bytes \<times> nat) option" where
  "In_string source off = do {
     (len, off) \<leftarrow> In_U16 source off;
     if len = 0 then Some ([], off)
     else do {
       let n = (if unat len > MaxString - 1 then MaxString - 1 else unat len);
       buffer \<leftarrow> rd source off n;
       Some (takeWhile (\<lambda>c. c \<noteq> 0) buffer, off + n) } }"

definition Out_string :: "bytes \<Rightarrow> nat \<Rightarrow> bytes \<Rightarrow> (bytes \<times> nat) option" where
  "Out_string destination off value = do {
     let len = (of_nat (length value) :: U16);
     (d, off) \<leftarrow> Out_U16 destination off len;
     if len = 0 then Some (d, off)
     else do {
       d \<leftarrow> wr d off (take (unat len) value);
       Some (d, off + unat len) } }"

section \<open>Arrays\<close>

fun In_array :: "(bytes \<Rightarrow> nat \<Rightarrow> ('a \<times> nat) option) \<Rightarrow> nat \<Rightarrow> bytes \<Rightarrow> nat \<Rightarrow> ('a list \<times> nat) option"
where
  "In_array In_elem 0 source off = Some ([], off)"
| "In_array In_elem (Suc n) source off = do {
     (i, off) \<leftarrow> In_elem source off;
     (rest, off) \<leftarrow> In_array In_elem n source off;
     Some (i # rest, off) }"

fun Out_array :: "(bytes \<Rightarrow> nat \<Rightarrow> 'a \<Rightarrow> (bytes \<times> nat) option) \<Rightarrow> bytes \<Rightarrow> nat \<Rightarrow> 'a list \<Rightarrow> (bytes \<times> nat) option"
where
  "Out_array Out_elem dest off [] = Some (dest, off)"
| "Out_array Out_elem dest off (i # value) = do {
     (dest, off) \<leftarrow> Out_elem dest off i;
     Out_array Out_elem dest off value }"

section \<open>Wire encodings\<close>

definition enc_U8 :: "U8 \<Rightarrow> bytes" where "enc_U8 v = [v]"
definition enc_bool :: "bool \<Rightarrow> bytes" where "enc_bool v = [if v then 1 else 0]"

text \<open>A string travels as its 16-bit length and then that many characters.\<close>

definition enc_string :: "bytes \<Rightarrow> bytes" where
  "enc_string s = be_bytes (of_nat (length s) :: U16) @ take (length s mod 65536) s"

definition string_ok :: "bytes \<Rightarrow> bool" where
  "string_ok s \<longleftrightarrow> length s < MaxString \<and> 0 \<notin> set s"

definition enc_list :: "('a \<Rightarrow> bytes) \<Rightarrow> 'a list \<Rightarrow> bytes" where
  "enc_list enc vs = concat (map enc vs)"

lemma enc_list_simps [wire_simps]:
  "enc_list enc [] = []" "enc_list enc (v # vs) = enc v @ enc_list enc vs"
  by (simp_all add: enc_list_def)

lemma of_le_bytes_swap_iff:
  assumes "8 dvd LENGTH('a::len)" and "length bs = LENGTH('a) div 8"
  shows "byte_swap (of_le_bytes bs :: 'a word) = v \<longleftrightarrow> bs = be_bytes v"
proof
  assume "byte_swap (of_le_bytes bs :: 'a word) = v"
  then have "le_bytes v = le_bytes (byte_swap (of_le_bytes bs :: 'a word))" by simp
  then have "le_bytes v = rev bs"
    by (simp add: le_bytes_byte_swap be_bytes_def le_bytes_of_le_bytes assms(2))
  then show "bs = be_bytes v" by (simp add: be_bytes_def)
next
  assume "bs = be_bytes v"
  then show "byte_swap (of_le_bytes bs :: 'a word) = v"
    by (simp add: of_le_bytes_rev_be_bytes assms(1))
qed

lemma load_native_be:
  assumes "8 dvd LENGTH('a::len)" and "holds_at buf off (be_bytes (v :: 'a word))"
  shows "map_option byte_swap (load_native buf off) = Some v"
proof -
  have "rd buf off (LENGTH('a) div 8) = Some (be_bytes v)"
    using assms(2) by (simp add: holds_at_def)
  then show ?thesis
    using assms(1) by (simp add: load_native_def of_le_bytes_rev_be_bytes)
qed

lemma store_native_swap: "store_native buf off (byte_swap v) = wr buf off (be_bytes v)"
  by (simp add: store_native_def le_bytes_byte_swap)

lemma load_native_None_iff:
  "(load_native buf off :: 'a::len word option) = None \<longleftrightarrow> length buf < off + LENGTH('a) div 8"
  by (simp add: load_native_def rd_None_iff)

lemmas in_out_defs =
  In_native_def Out_native_def In_U8_def Out_U8_def In_U16_def Out_U16_def In_U32_def Out_U32_def
  In_int_def Out_int_def In_U64_def Out_U64_def In_bool_def Out_bool_def

lemmas swap_defs = htons_def ntohs_def htonl_def ntohl_def ntohll_def htonll_byte_swap

lemma load_native_swapped:
  assumes "holds_at buf off (be_bytes (v :: 'a::len word))" and "8 dvd LENGTH('a)"
  shows "\<exists>z. load_native buf off = Some z \<and> byte_swap z = v"
  using load_native_be [OF assms(2,1)] by simp

section \<open>The primitive serializers meet the contract\<close>

lemma bind_Some_None_iff: "r \<bind> (\<lambda>x. Some (f x)) = None \<longleftrightarrow> r = None"
  by (cases r) auto

lemma bind_Some_map: "r \<bind> (\<lambda>x. Some (f x)) = map_option f r"
  by (cases r) auto

lemma rd_1_hd: "holds_at buf off [v] \<Longrightarrow> rd buf off 1 = Some [v]"
  by (simp add: holds_at_def)

interpretation s_U8: fixed_serializer enc_U8 In_U8 Out_U8 "\<lambda>_. True" 1
  by unfold_locales
    (auto simp: enc_U8_def In_U8_def Out_U8_def rd_1_hd [simplified] bind_Some_map rd_None_iff)

interpretation s_U16: fixed_serializer be_bytes In_U16 Out_U16 "\<lambda>_. True" 2
  by unfold_locales
    (auto simp: In_U16_def Out_U16_def swap_defs store_native_swap bind_Some_map load_native_None_iff
      intro!: load_native_swapped)

interpretation s_U32: fixed_serializer be_bytes In_U32 Out_U32 "\<lambda>_. True" 4
  by unfold_locales
    (auto simp: In_U32_def Out_U32_def swap_defs store_native_swap bind_Some_map load_native_None_iff
      intro!: load_native_swapped)

interpretation s_int: fixed_serializer be_bytes In_int Out_int "\<lambda>_. True" 4
  by unfold_locales
    (auto simp: In_int_def Out_int_def swap_defs store_native_swap bind_Some_map load_native_None_iff
      intro!: load_native_swapped)

interpretation s_U64: fixed_serializer be_bytes In_U64 Out_U64 "\<lambda>_. True" 8
  by unfold_locales
    (auto simp: In_U64_def Out_U64_def swap_defs store_native_swap bind_Some_map load_native_None_iff
      intro!: load_native_swapped)

interpretation s_bool: fixed_serializer enc_bool In_bool Out_bool "\<lambda>_. True" 1
  by unfold_locales
    (auto simp: enc_bool_def In_bool_def Out_bool_def rd_1_hd [simplified] bind_Some_map rd_None_iff)

lemma holds_at_take: "holds_at buf off (as @ bs) \<Longrightarrow> rd buf (off + length as) (length bs) = Some bs"
  by (simp add: holds_at_append) (simp add: holds_at_def)

lemma Out_string_enc:
  "Out_string buf off v = map_option (\<lambda>b. (b, off + length (enc_string v))) (wr buf off (enc_string v))"
proof (cases "(of_nat (length v) :: U16) = 0")
  case True
  then have "length v mod 65536 = 0" by (simp add: word_of_nat_eq_0_iff)
  then show ?thesis
    using True by (simp add: Out_string_def enc_string_def s_U16.outp_enc bind_map_option comp_def
        bind_Some_map)
next
  case False
  have "Out_string buf off v = Out_U16 buf off (of_nat (length v)) \<bind>
     (\<lambda>(d, off). map_option (\<lambda>b. (b, off + length (take (length v mod 65536) v)))
         (wr d off (take (length v mod 65536) v)))"
    using False by (simp add: Out_string_def unat_of_nat bind_Some_map)
  then show ?thesis by (simp only: s_U16.outp_then enc_string_def)
qed

lemma In_string_enc:
  assumes ok: "string_ok s" and h: "holds_at buf off (enc_string s)"
  shows "In_string buf off = Some (s, off + length (enc_string s))"
proof -
  have len: "length s < 3072" and nz: "\<forall>c\<in>set s. c \<noteq> 0"
    using ok by (auto simp: string_ok_def MaxString_def)
  then have enc: "enc_string s = be_bytes (of_nat (length s) :: U16) @ s"
    by (simp add: enc_string_def)
  have u: "unat (of_nat (length s) :: U16) = length s" using len by (simp add: unat_of_nat)
  have "In_U16 buf off = Some (of_nat (length s), off + 2)"
    using h s_U16.inp_enc [of buf off "of_nat (length s)"] by (simp add: enc holds_at_append)
  moreover have "rd buf (off + 2) (length s) = Some s"
    using holds_at_take h by (fastforce simp: enc)
  moreover have "(of_nat (length s) :: U16) = 0 \<longleftrightarrow> s = []"
    using len u by (metis length_0_conv unat_0 unat_eq_zero)
  ultimately show ?thesis
    using len nz by (auto simp: In_string_def u enc MaxString_def takeWhile_id)
qed

interpretation s_string: serializer enc_string In_string Out_string string_ok
  by unfold_locales (simp_all add: Out_string_enc In_string_enc)

lemmas primitive_writes [codec_intros] =
  s_U8.writes_outp s_U16.writes_outp s_U32.writes_outp s_int.writes_outp s_U64.writes_outp
  s_bool.writes_outp s_string.writes_outp

lemmas primitive_reads [codec_intros] =
  s_U8.reads_inp [OF TrueI] s_U16.reads_inp [OF TrueI] s_U32.reads_inp [OF TrueI]
  s_int.reads_inp [OF TrueI] s_U64.reads_inp [OF TrueI] s_bool.reads_inp [OF TrueI]
  s_string.reads_inp

lemmas primitive_takes [codec_intros] =
  s_U8.takes_inp s_U16.takes_inp s_U32.takes_inp s_int.takes_inp s_U64.takes_inp s_bool.takes_inp

section \<open>Arrays\<close>

text \<open>The array serializers inherit the contract from their element's.\<close>

context serializer
begin

lemma Out_array_enc:
  "Out_array outp buf off vs =
     (if vs = [] then Some (buf, off)
      else map_option (\<lambda>b. (b, off + length (enc_list enc vs))) (wr buf off (enc_list enc vs)))"
proof (induction vs arbitrary: buf off)
  case Nil
  then show ?case by simp
next
  case (Cons v vs)
  show ?case
  proof (cases "vs = []")
    case True
    then show ?thesis
      by (auto simp: wire_simps outp_enc bind_map_option comp_def split: bind_split)
  next
    case False
    then have "Out_array outp buf off (v # vs) = outp buf off v \<bind>
       (\<lambda>(b, o'). map_option (\<lambda>b. (b, o' + length (enc_list enc vs))) (wr b o' (enc_list enc vs)))"
      by (simp add: Cons.IH)
    then show ?thesis by (simp add: outp_then wire_simps)
  qed
qed

lemma In_array_enc:
  "list_all ok vs \<Longrightarrow> holds_at buf off (enc_list enc vs) \<Longrightarrow>
     In_array inp (length vs) buf off = Some (vs, off + length (enc_list enc vs))"
proof (induction vs arbitrary: off)
  case Nil
  then show ?case by (simp add: wire_simps)
next
  case (Cons v vs)
  then have "holds_at buf off (enc v)" and "holds_at buf (off + length (enc v)) (enc_list enc vs)"
    by (auto simp: wire_simps holds_at_append)
  then show ?case
    using Cons.IH [of "off + length (enc v)"] Cons.prems(1) inp_enc [of v buf off]
    by (simp add: wire_simps add.assoc)
qed

lemma array_roundtrip:
  assumes "list_all ok vs" and "off \<le> length buf" and "Out_array outp buf off vs = Some (b, off')"
  shows "In_array inp (length vs) b off = Some (vs, off')"
proof (cases "vs = []")
  case True
  then show ?thesis using assms by simp
next
  case False
  then have "wr buf off (enc_list enc vs) = Some b" and "off' = off + length (enc_list enc vs)"
    using assms(3) by (auto simp: Out_array_enc)
  then show ?thesis using In_array_enc [OF assms(1)] wr_holds_at by blast
qed

end

end
