(* ===== verification/Compression.thy ===== *)
theory Compression
  imports Float32 Serialize "HOL-Library.Signed_Division"
begin

text \<open>
  Angles, positions and magnitudes as packed integers: \<^verbatim>\<open>Network::Utils\<close> and
  \<^verbatim>\<open>Network::Settings\<close> of \<^verbatim>\<open>NetworkUtils.h\<close>, and \<^verbatim>\<open>RotationCompressed\<close>,
  \<^verbatim>\<open>PositionCompressed\<close> and \<^verbatim>\<open>FloatCompressed\<close> of \<^verbatim>\<open>MovementPacket.h/.cpp\<close>. Every
  \<^verbatim>\<open>float\<close> operation rounds with \<^const>\<open>fl32\<close>. A float whose integer part does not fit the
  target type of a conversion makes the C++ undefined: \<^term>\<open>None\<close> here.
\<close>

section \<open>Network::Utils\<close>

text \<open>\<^verbatim>\<open>Wrap<int>\<close>; \<^verbatim>\<open>%\<close> truncates towards zero. The code never wraps with range 0.\<close>

definition Wrap :: "int \<Rightarrow> int \<Rightarrow> int" where
  "Wrap value rng =
     (let value = value smod rng in if value < 0 then value + rng else value)"

definition IsPowerOfTwo :: "S32 \<Rightarrow> bool" where
  "IsPowerOfTwo x \<longleftrightarrow> x AND (x - 1) = 0"

definition ConvertToDeg :: "int \<Rightarrow> int \<Rightarrow> rat" where
  "ConvertToDeg value rng =
     (let angle = fl32 (fl32 (of_int value) / fl32 (of_int rng)) in fl32 (angle * 360))"

definition int_of_float :: "rat \<Rightarrow> int option" where
  "int_of_float q = (let t = trunc q in if - (2 ^ 31) \<le> t \<and> t < 2 ^ 31 then Some t else None)"

definition ConvertRange :: "rat \<Rightarrow> int \<Rightarrow> int option" where
  "ConvertRange value rng = do {
     repAngle \<leftarrow> int_of_float (fl32 (value * fl32 (of_int rng)));
     Some (Wrap repAngle rng) }"

definition ConvertDegToQuantitized :: "rat \<Rightarrow> int \<Rightarrow> int option" where
  "ConvertDegToQuantitized value quantitization =
     (let deg = fl32 (value / 360) in ConvertRange deg quantitization)"

definition GetBitPosition :: "S32 \<Rightarrow> int" where
  "GetBitPosition input =
     (case find (\<lambda>i. input AND push_bit i 1 \<noteq> 0) [0..<32] of Some i \<Rightarrow> int i | None \<Rightarrow> -1)"

section \<open>Network::Settings\<close>

definition quantizationX :: S32 where "quantizationX = 1024"
definition quantizationY :: S32 where "quantizationY = 1024"
definition quantizationZ :: S32 where "quantizationZ = 1024"
definition shiftX :: nat where "shiftX = nat (GetBitPosition quantizationY)"
definition shiftY :: nat where "shiftY = nat (GetBitPosition quantizationZ)"
definition maskX :: S32 where "maskX = quantizationX - 1"
definition maskY :: S32 where "maskY = quantizationY - 1"
definition maskZ :: S32 where "maskZ = quantizationZ - 1"

definition floatShift :: rat where "floatShift = 512"

definition precision :: rat where "precision = 256"
definition xShift :: nat where "xShift = 43"
definition yShift :: nat where "yShift = 23"
definition zShift :: nat where "zShift = 3"
definition TwentyBits :: U64 where "TwentyBits = 0xfffff"
definition xMask :: U64 where "xMask = push_bit xShift TwentyBits"
definition yMask :: U64 where "yMask = push_bit yShift TwentyBits"
definition zMask :: U64 where "zMask = push_bit zShift TwentyBits"

section \<open>Vector3\<close>

record Vector3 =
  vec_x :: rat
  vec_y :: rat
  vec_z :: rat

definition vec3 :: "rat \<Rightarrow> rat \<Rightarrow> rat \<Rightarrow> Vector3" where
  "vec3 x y z = \<lparr>vec_x = x, vec_y = y, vec_z = z\<rparr>"

definition Vector3_scale :: "Vector3 \<Rightarrow> rat \<Rightarrow> Vector3" where
  "Vector3_scale v mag =
     vec3 (fl32 (vec_x v * mag)) (fl32 (vec_y v * mag)) (fl32 (vec_z v * mag))"

section \<open>RotationCompressed\<close>

record RotationCompressed =
  rotation :: S32

definition Rotation_Pack :: "S32 \<Rightarrow> S32 \<Rightarrow> S32 \<Rightarrow> S32" where
  "Rotation_Pack x y z = push_bit (shiftX + shiftY) x + push_bit shiftY y + z"

definition Rotation_Unpack :: "S32 \<Rightarrow> S32 \<times> S32 \<times> S32" where
  "Rotation_Unpack value =
     (let x = value AND push_bit (shiftY + shiftX) maskX;
          value = value - x;
          x = signed_drop_bit (shiftX + shiftY) x;
          y = value AND push_bit shiftY maskY;
          value = value - y;
          y = signed_drop_bit shiftY y;
          z = value
      in (x, y, z))"

definition Rotation_Set :: "RotationCompressed \<Rightarrow> Vector3 \<Rightarrow> RotationCompressed option" where
  "Rotation_Set this eulerAngles = do {
     repAngleX \<leftarrow> ConvertDegToQuantitized (vec_x eulerAngles) (sint quantizationX);
     repAngleY \<leftarrow> ConvertDegToQuantitized (vec_y eulerAngles) (sint quantizationY);
     repAngleZ \<leftarrow> ConvertDegToQuantitized (vec_z eulerAngles) (sint quantizationZ);
     Some (this\<lparr>rotation :=
       Rotation_Pack (of_int repAngleX) (of_int repAngleY) (of_int repAngleZ)\<rparr>) }"

definition Rotation_Get :: "RotationCompressed \<Rightarrow> Vector3" where
  "Rotation_Get this =
     (let (x, y, z) = Rotation_Unpack (rotation this)
      in vec3 (ConvertToDeg (sint x) (sint quantizationX))
              (ConvertToDeg (sint y) (sint quantizationY))
              (ConvertToDeg (sint z) (sint quantizationZ)))"

definition Rotation_SerializeIn ::
  "bytes \<Rightarrow> nat \<Rightarrow> RotationCompressed \<Rightarrow> (RotationCompressed \<times> nat) option" where
  "Rotation_SerializeIn data off this = do {
     (v, off) \<leftarrow> In_int data off;
     Some (this\<lparr>rotation := v\<rparr>, off) }"

definition Rotation_SerializeOut ::
  "bytes \<Rightarrow> nat \<Rightarrow> RotationCompressed \<Rightarrow> (bytes \<times> nat) option" where
  "Rotation_SerializeOut data off this = Out_int data off (rotation this)"

section \<open>PositionCompressed\<close>

record PositionCompressed =
  position :: U64

text \<open>\<^verbatim>\<open>long\<close> has 32 bits on the Windows platform the code is built for.\<close>

definition long_of_float :: "rat \<Rightarrow> int option" where
  "long_of_float q = int_of_float q"

definition Position_Pack :: "rat \<Rightarrow> rat \<Rightarrow> rat \<Rightarrow> U64 option" where
  "Position_Pack x y z = do {
     let xNeg = (x < 0);
     let yNeg = (y < 0);
     let zNeg = (z < 0);
     let x = (if xNeg then - x else x);
     let y = (if yNeg then - y else y);
     let z = (if zNeg then - z else z);
     x0 \<leftarrow> long_of_float (fl32 (x * precision));
     y0 \<leftarrow> long_of_float (fl32 (y * precision));
     z0 \<leftarrow> long_of_float (fl32 (z * precision));
     let xPacked = push_bit xShift (of_int x0) AND xMask;
     let yPacked = push_bit yShift (of_int y0) AND yMask;
     let zPacked = push_bit zShift (of_int z0) AND zMask;
     let signs = (if xNeg then push_bit 2 1 else 0) OR (if yNeg then push_bit 1 1 else 0)
                   OR (if zNeg then push_bit 0 1 else 0);
     Some (xPacked OR yPacked OR zPacked OR signs) }"

text \<open>The three components are decoded alike; \<open>mask\<close>, \<open>shift\<close> and \<open>sign\<close> select one.\<close>

definition Position_field :: "U64 \<Rightarrow> U64 \<Rightarrow> nat \<Rightarrow> nat \<Rightarrow> rat" where
  "Position_field pos field_mask shift sign =
     (let u = fl32 (of_nat (unat (drop_bit shift (pos AND field_mask))));
          u = fl32 (u / precision)
      in if pos AND push_bit sign 1 \<noteq> 0 then - u else u)"

definition Position_Unpack :: "U64 \<Rightarrow> rat \<times> rat \<times> rat" where
  "Position_Unpack pos =
     (Position_field pos xMask xShift 2,
      Position_field pos yMask yShift 1,
      Position_field pos zMask zShift 0)"

definition Position_Set :: "PositionCompressed \<Rightarrow> Vector3 \<Rightarrow> PositionCompressed option" where
  "Position_Set this pos = do {
     p \<leftarrow> Position_Pack (vec_x pos) (vec_y pos) (vec_z pos);
     Some (this\<lparr>position := p\<rparr>) }"

definition Position_Get :: "PositionCompressed \<Rightarrow> Vector3" where
  "Position_Get this = (let (x, y, z) = Position_Unpack (position this) in vec3 x y z)"

definition Position_SerializeIn ::
  "bytes \<Rightarrow> nat \<Rightarrow> PositionCompressed \<Rightarrow> (PositionCompressed \<times> nat) option" where
  "Position_SerializeIn data off this = do {
     (v, off) \<leftarrow> In_U64 data off;
     Some (this\<lparr>position := v\<rparr>, off) }"

definition Position_SerializeOut ::
  "bytes \<Rightarrow> nat \<Rightarrow> PositionCompressed \<Rightarrow> (bytes \<times> nat) option" where
  "Position_SerializeOut data off this = Out_U64 data off (position this)"

section \<open>FloatCompressed\<close>

record FloatCompressed =
  fc_value :: U16

text \<open>\<^verbatim>\<open>_ASSERT\<close> is in debug builds only.\<close>

definition Float_Set :: "bool \<Rightarrow> FloatCompressed \<Rightarrow> rat \<Rightarrow> FloatCompressed res" where
  "Float_Set debug this pos =
     (let scaled = fl32 (pos * floatShift)
      in if debug \<and> \<not> \<bar>scaled\<bar> < 16537 then Inl AssertFailed
         else if trunc scaled < 0 \<or> 65535 < trunc scaled then Inl BadConversion
         else Inr (this\<lparr>fc_value := of_int (trunc scaled)\<rparr>))"

definition Float_Get :: "FloatCompressed \<Rightarrow> rat" where
  "Float_Get this = fl32 (fl32 (of_nat (unat (fc_value this))) / floatShift)"

section \<open>Facts on the settings\<close>

lemma shift_values [simp]: "shiftX = 10" "shiftY = 10"
  by (simp_all add: shiftX_def shiftY_def quantizationY_def quantizationZ_def GetBitPosition_def
      upt_rec)

lemma mask_values: "maskX = mask 10" "maskY = mask 10" "maskZ = mask 10"
  by (simp_all add: maskX_def maskY_def maskZ_def quantizationX_def quantizationY_def
      quantizationZ_def mask_eq_exp_minus_1)

lemma TwentyBits_mask: "TwentyBits = mask 20"
  by (simp add: TwentyBits_def mask_eq_exp_minus_1)

lemma bit_masks:
  "bit xMask n \<longleftrightarrow> 43 \<le> n \<and> n < 63"
  "bit yMask n \<longleftrightarrow> 23 \<le> n \<and> n < 43"
  "bit zMask n \<longleftrightarrow> 3 \<le> n \<and> n < 23"
  by (auto simp: xMask_def yMask_def zMask_def TwentyBits_mask xShift_def yShift_def zShift_def
      bit_push_bit_iff bit_mask_iff)

lemma Wrap_mod: "0 < r \<Longrightarrow> Wrap v r = v mod r"
proof -
  assume r: "0 < r"
  have "v smod r = (if v mod r \<noteq> 0 \<and> v < 0 then v mod r - r else v mod r)"
    using r by (auto simp: smod_int_alt_def sgn_if zmod_zminus1_eq_if)
  then show ?thesis using r pos_mod_bound [OF r, of v] pos_mod_sign [OF r, of v]
    by (auto simp: Wrap_def Let_def)
qed

lemma minus_and_self: "v - (v AND m) = v AND NOT m" for v m :: "'a::len word"
proof -
  have "(v AND m) + (v AND NOT m) = (v AND m) OR (v AND NOT m)"
    by (rule disjunctive_add_eq_or) (simp add: bit_eq_iff bit_simps)
  also have "\<dots> = v" by (auto simp: bit_eq_iff bit_simps)
  finally show ?thesis by (simp add: algebra_simps)
qed

section \<open>Angles: packing\<close>

lemma small_word_bits: "w < 2 ^ k \<Longrightarrow> bit w n \<Longrightarrow> n < k" for w :: "'a::len word"
proof (rule ccontr)
  assume w: "w < 2 ^ k" and b: "bit w n" and "\<not> n < k"
  then have kn: "k \<le> n" "n < LENGTH('a)" using bit_imp_le_length by auto
  have "bit (unat w) n" using b by (simp add: bit_unsigned_iff)
  then have big: "\<not> unat w < 2 ^ n" by (auto simp: bit_iff_odd)
  have "unat w < unat (2 ^ k :: 'a word)" using w by (simp add: word_less_nat_alt)
  moreover have "unat (of_nat (2 ^ k) :: 'a word) \<le> 2 ^ k" by (simp only: unat_of_nat) simp
  ultimately have "unat w < 2 ^ k" by simp
  then show False using big kn(1) power_increasing [of k n "2 :: nat"] by linarith
qed

lemma Rotation_Pack_or:
  assumes "x < 1024" "y < 1024" "z < 1024"
  shows "Rotation_Pack x y z = push_bit 20 x OR push_bit 10 y OR z"
proof -
  have b: "bit x n \<Longrightarrow> n < 10" "bit y n \<Longrightarrow> n < 10" "bit z n \<Longrightarrow> n < 10" for n
    using assms small_word_bits [of _ 10 n] by auto
  have "push_bit 20 x + push_bit 10 y = push_bit 20 x OR push_bit 10 y"
    by (rule disjunctive_add_eq_or) (auto simp: bit_eq_iff bit_simps dest: b)
  moreover have "(push_bit 20 x OR push_bit 10 y) + z = (push_bit 20 x OR push_bit 10 y) OR z"
    by (rule disjunctive_add_eq_or) (auto simp: bit_eq_iff bit_simps dest: b)
  ultimately show ?thesis by (simp add: Rotation_Pack_def or.assoc)
qed

lemma Rotation_Unpack_bits:
  assumes "Rotation_Unpack v = (x, y, z)" and "n < 32"
  shows "bit x n \<longleftrightarrow> n < 10 \<and> bit v (20 + n)"
    and "bit y n \<longleftrightarrow> n < 10 \<and> bit v (10 + n)"
    and "bit z n \<longleftrightarrow> (n < 10 \<or> 30 \<le> n) \<and> bit v n"
  using assms
  by (auto simp: Rotation_Unpack_def Let_def minus_and_self mask_values bit_simps split: if_splits)

lemma Rotation_Unpack_Pack:
  assumes "x < 1024" "y < 1024" "z < 1024"
  shows "Rotation_Unpack (Rotation_Pack x y z) = (x, y, z)"
proof -
  have b: "bit x n \<Longrightarrow> n < 10" "bit y n \<Longrightarrow> n < 10" "bit z n \<Longrightarrow> n < 10" for n
    using assms small_word_bits [of _ 10 n] by auto
  obtain x' y' z' where u: "Rotation_Unpack (Rotation_Pack x y z) = (x', y', z')"
    by (cases "Rotation_Unpack (Rotation_Pack x y z)") auto
  have "x' = x" "y' = y" "z' = z"
    by (rule bit_word_eqI, auto simp: Rotation_Unpack_bits [OF u] Rotation_Pack_or [OF assms]
        bit_simps dest: b)+
  with u show ?thesis by simp
qed

lemma Rotation_Pack_Unpack:
  assumes "Rotation_Unpack v = (x, y, z)"
  shows "Rotation_Pack x y z = v"
proof -
  have xyz: "x = drop_bit 20 (take_bit 30 v)" "y = drop_bit 10 (take_bit 20 v)"
    by (rule bit_word_eqI, auto simp: Rotation_Unpack_bits [OF assms] bit_simps)+
  have "push_bit 20 x + push_bit 10 y = push_bit 20 x OR push_bit 10 y"
    by (rule disjunctive_add_eq_or) (auto simp: bit_eq_iff bit_simps xyz)
  moreover have "(push_bit 20 x OR push_bit 10 y) + z = (push_bit 20 x OR push_bit 10 y) OR z"
    by (rule disjunctive_add_eq_or)
      (auto simp: bit_eq_iff Rotation_Unpack_bits [OF assms] bit_simps)
  ultimately have "Rotation_Pack x y z = (push_bit 20 x OR push_bit 10 y) OR z"
    by (simp add: Rotation_Pack_def)
  also have "\<dots> = v"
  proof (rule bit_word_eqI)
    fix n assume "n < LENGTH(32)"
    then show "bit ((push_bit 20 x OR push_bit 10 y) OR z) n = bit v n"
      by (cases "n < 10"; cases "n < 20"; cases "n < 30")
        (auto simp: Rotation_Unpack_bits [OF assms] bit_simps)
  qed
  finally show ?thesis .
qed

section \<open>Positions\<close>

text \<open>
  What a coordinate becomes on the wire: its magnitude in units of 1/256, truncated, modulo
  \<open>2 ^ 20\<close>, with its sign kept apart.
\<close>

definition pos_quantum :: "rat \<Rightarrow> rat" where
  "pos_quantum x =
     (let m = of_int (\<lfloor>\<bar>x\<bar> * 256\<rfloor> mod 2 ^ 20) / 256 in if x < 0 then - m else m)"

definition sign_bit :: "bool \<Rightarrow> nat \<Rightarrow> U64" where
  "sign_bit s k = (if s then push_bit k 1 else 0)"

lemma bit_sign_bit: "bit (sign_bit s k) n \<longleftrightarrow> s \<and> n = k \<and> k < 64"
  by (auto simp: sign_bit_def bit_exp_iff)

definition pos_word :: "U64 \<Rightarrow> U64 \<Rightarrow> U64 \<Rightarrow> bool \<Rightarrow> bool \<Rightarrow> bool \<Rightarrow> U64" where
  "pos_word a b c sx sy sz =
     (push_bit 43 a AND xMask) OR (push_bit 23 b AND yMask) OR (push_bit 3 c AND zMask) OR
     (sign_bit sx 2 OR sign_bit sy 1 OR sign_bit sz 0)"

lemma pos_word_fields:
  "drop_bit 43 (pos_word a b c sx sy sz AND xMask) = take_bit 20 a"
  "drop_bit 23 (pos_word a b c sx sy sz AND yMask) = take_bit 20 b"
  "drop_bit 3 (pos_word a b c sx sy sz AND zMask) = take_bit 20 c"
proof -
  show "drop_bit 43 (pos_word a b c sx sy sz AND xMask) = take_bit 20 a"
    by (rule bit_word_eqI) (auto simp: pos_word_def bit_simps bit_masks bit_sign_bit)
  show "drop_bit 23 (pos_word a b c sx sy sz AND yMask) = take_bit 20 b"
    by (rule bit_word_eqI) (auto simp: pos_word_def bit_simps bit_masks bit_sign_bit)
  show "drop_bit 3 (pos_word a b c sx sy sz AND zMask) = take_bit 20 c"
    by (rule bit_word_eqI) (auto simp: pos_word_def bit_simps bit_masks bit_sign_bit)
qed

lemma pos_word_signs:
  "pos_word a b c sx sy sz AND push_bit 2 1 \<noteq> 0 \<longleftrightarrow> sx"
  "pos_word a b c sx sy sz AND push_bit 1 1 \<noteq> 0 \<longleftrightarrow> sy"
  "pos_word a b c sx sy sz AND push_bit 0 1 \<noteq> 0 \<longleftrightarrow> sz"
  unfolding bit_iff_and_push_bit_not_eq_0 [symmetric]
  by (auto simp: pos_word_def bit_simps bit_masks bit_sign_bit)

lemma unat_take_bit_20: "unat (take_bit 20 (of_int t :: U64)) = nat (t mod 2 ^ 20)"
proof -
  have "uint (take_bit 20 (of_int t :: U64)) = take_bit 20 (take_bit 64 t)"
    by (simp add: unsigned_take_bit_eq unsigned_of_int)
  then have "uint (take_bit 20 (of_int t :: U64)) = t mod 2 ^ 20"
    by (simp add: take_bit_eq_mod [of 20 t])
  then show ?thesis by (simp add: unat_eq_nat_uint)
qed

lemma coordinate_decoded:
  "fl32 (fl32 (of_nat (unat (take_bit 20 (of_int t :: U64)))) / precision) =
     of_int (t mod 2 ^ 20) / 256"
proof -
  have t: "0 \<le> t mod 2 ^ 20" "t mod 2 ^ 20 < 2 ^ 20" by simp_all
  have "(of_nat (unat (take_bit 20 (of_int t :: U64))) :: rat) = of_int (t mod 2 ^ 20)"
    by (simp add: unat_take_bit_20)
  then show ?thesis
    using fl32_int [of "t mod 2 ^ 20"] fl32_dyadic [of "t mod 2 ^ 20" 8] t
    by (simp add: precision_def abs_less_iff)
qed

lemma coordinate_encoded:
  assumes "fl32 x = x" and "\<bar>x\<bar> < 2 ^ 23"
  shows "long_of_float (fl32 ((if x < 0 then - x else x) * precision)) = Some \<lfloor>\<bar>x\<bar> * 256\<rfloor>"
proof -
  have "(if x < 0 then - x else x) = \<bar>x\<bar>" by auto
  moreover have "fl32 (\<bar>x\<bar> * 256) = \<bar>x\<bar> * 256"
    using fl32_scale [OF fl32_abs [OF assms(1)], of 8] by simp
  moreover have "0 \<le> \<lfloor>\<bar>x\<bar> * 256\<rfloor>" "\<lfloor>\<bar>x\<bar> * 256\<rfloor> < 2 ^ 31"
    using assms(2) by (simp_all add: floor_less_iff)
  ultimately show ?thesis
    by (simp add: long_of_float_def int_of_float_def precision_def trunc_nonneg Let_def)
qed

lemma Position_Pack_word:
  assumes "fl32 x = x" "fl32 y = y" "fl32 z = z" and "\<bar>x\<bar> < 2 ^ 23" "\<bar>y\<bar> < 2 ^ 23" "\<bar>z\<bar> < 2 ^ 23"
  shows "Position_Pack x y z =
     Some (pos_word (of_int \<lfloor>\<bar>x\<bar> * 256\<rfloor>) (of_int \<lfloor>\<bar>y\<bar> * 256\<rfloor>) (of_int \<lfloor>\<bar>z\<bar> * 256\<rfloor>)
             (x < 0) (y < 0) (z < 0))"
  unfolding Position_Pack_def Let_def
  by (simp only: coordinate_encoded assms bind.bind_lunit Option.bind.bind_lunit)
    (simp add: pos_word_def sign_bit_def xShift_def yShift_def zShift_def)

lemma Position_Unpack_word:
  "Position_Unpack (pos_word (of_int \<lfloor>\<bar>x\<bar> * 256\<rfloor>) (of_int \<lfloor>\<bar>y\<bar> * 256\<rfloor>) (of_int \<lfloor>\<bar>z\<bar> * 256\<rfloor>)
      (x < 0) (y < 0) (z < 0)) = (pos_quantum x, pos_quantum y, pos_quantum z)"
  unfolding Position_Unpack_def Position_field_def xShift_def yShift_def zShift_def
  by (simp only: pos_word_fields pos_word_signs coordinate_decoded pos_quantum_def Let_def)

lemma pos_quantum_close:
  assumes "\<bar>x\<bar> < 4096"
  shows "\<bar>pos_quantum x - x\<bar> < 1 / 256"
proof -
  have m: "\<lfloor>\<bar>x\<bar> * 256\<rfloor> mod 2 ^ 20 = \<lfloor>\<bar>x\<bar> * 256\<rfloor>"
    using assms by (intro mod_pos_pos_trivial) (simp_all add: floor_less_iff)
  define k :: rat where "k = of_int \<lfloor>\<bar>x\<bar> * 256\<rfloor>"
  have "k \<le> \<bar>x\<bar> * 256" "\<bar>x\<bar> * 256 < k + 1" unfolding k_def by linarith+
  moreover have "pos_quantum x = (if x < 0 then - (k / 256) else k / 256)"
    unfolding pos_quantum_def m Let_def k_def ..
  ultimately show ?thesis by (auto simp: abs_if field_simps)
qed

section \<open>Angles: quantisation\<close>

definition angle_step :: "rat \<Rightarrow> int" where
  "angle_step v = \<lfloor>fl32 (v / 360) * 1024\<rfloor> mod 1024"

definition angle_quantum :: "rat \<Rightarrow> rat" where
  "angle_quantum v = of_int (angle_step v) * 360 / 1024"

text \<open>
  How far a decoded angle may be from the encoded one: less than one step below it, and
  above it by no more than the rounding of one float division; an angle that rounds up to
  the full circle becomes 0.
\<close>

definition angle_close :: "rat \<Rightarrow> rat \<Rightarrow> bool" where
  "angle_close v r \<longleftrightarrow>
     r \<le> v + v / 2 ^ 24 \<and> v - v / 2 ^ 24 < r + 360 / 1024 \<or> r = 0 \<and> 360 \<le> v + v / 2 ^ 24"

lemma angle_step_range: "0 \<le> angle_step v" "angle_step v < 1024"
  by (simp_all add: angle_step_def)

lemma fl32_angle:
  assumes "0 \<le> v"
  shows "0 \<le> fl32 (v / 360)" and "fl32 (v / 360) * 360 \<le> v + v / 2 ^ 24"
    and "v - v / 2 ^ 24 \<le> fl32 (v / 360) * 360"
proof -
  show "0 \<le> fl32 (v / 360)" using assms by (simp add: fl32_nonneg)
  have "\<bar>fl32 (v / 360) - v / 360\<bar> \<le> v / 360 / 2 ^ 24" using fl32_error [of "v / 360"] assms by simp
  then show "fl32 (v / 360) * 360 \<le> v + v / 2 ^ 24" and "v - v / 2 ^ 24 \<le> fl32 (v / 360) * 360"
    by linarith+
qed

lemma ConvertDegToQuantitized_step:
  assumes "0 \<le> v" and "v < 720"
  shows "ConvertDegToQuantitized v 1024 = Some (angle_step v)"
proof -
  define d where "d = fl32 (v / 360)"
  have d: "0 \<le> d" "d * 360 \<le> v + v / 2 ^ 24" using fl32_angle [OF assms(1)] by (simp_all add: d_def)
  have "v / 2 ^ 24 \<le> 360" using assms by simp
  then have "d \<le> 3" using d(2) assms(2) by linarith
  then have t: "0 \<le> \<lfloor>d * 1024\<rfloor>" "\<lfloor>d * 1024\<rfloor> < 2 ^ 31" using d(1) by (simp_all add: floor_less_iff)
  have "fl32 (of_int 1024 :: rat) = of_int 1024" by (rule fl32_int) simp
  moreover have "fl32 (d * 2 ^ 10) = d * 2 ^ 10" by (rule fl32_scale) (simp add: d_def)
  ultimately have "fl32 (d * fl32 (of_int 1024)) = d * 1024" by simp
  then show ?thesis
    using d(1) t
    by (simp add: ConvertDegToQuantitized_def ConvertRange_def int_of_float_def trunc_nonneg Let_def
        Wrap_mod angle_step_def d_def [symmetric])
qed

lemma ConvertToDeg_exact:
  assumes "0 \<le> q" and "q < 1024"
  shows "ConvertToDeg q 1024 = of_int q * 360 / 1024"
proof -
  have "fl32 (of_int q) = (of_int q :: rat)" and "fl32 (of_int 1024 :: rat) = of_int 1024"
    using assms by (intro fl32_int; simp)+
  then have "ConvertToDeg q 1024 = fl32 (fl32 (of_int q / of_int 1024) * 360)"
    by (simp only: ConvertToDeg_def Let_def)
  also have "fl32 (of_int q / of_int 1024) = (of_int q / 2 ^ 10 :: rat)"
    using fl32_dyadic [of q 10] assms by simp
  also have "fl32 (of_int q / 2 ^ 10 * 360) = (of_int (q * 360) / 2 ^ 10 :: rat)"
    using fl32_dyadic [of "q * 360" 10] assms by simp
  finally show ?thesis by simp
qed

lemma angle_quantum_close:
  assumes "0 \<le> v" and "v < 360"
  shows "angle_close v (angle_quantum v)"
proof -
  define d where "d = fl32 (v / 360)"
  have d: "0 \<le> d" "d * 360 \<le> v + v / 2 ^ 24" "v - v / 2 ^ 24 \<le> d * 360"
    using fl32_angle [OF assms(1)] by (simp_all add: d_def)
  have "v / 2 ^ 24 < 360 / 2 ^ 24" using assms by simp
  then have "d * 1024 < 1025" using d(2) assms(2) by simp
  then have t: "0 \<le> \<lfloor>d * 1024\<rfloor>" "\<lfloor>d * 1024\<rfloor> \<le> 1024" using d(1) by (simp_all add: floor_le_iff)
  have fl: "of_int \<lfloor>d * 1024\<rfloor> \<le> d * 1024" "d * 1024 < of_int \<lfloor>d * 1024\<rfloor> + 1" by linarith+
  show ?thesis
  proof (cases "\<lfloor>d * 1024\<rfloor> = 1024")
    case True
    then have "angle_quantum v = 0" by (simp add: angle_quantum_def angle_step_def d_def)
    moreover have "360 \<le> d * 360" using fl(1) True by simp
    ultimately show ?thesis using d(2) by (simp add: angle_close_def)
  next
    case False
    then have "angle_step v = \<lfloor>d * 1024\<rfloor>" using t
      unfolding angle_step_def d_def [symmetric] by (intro mod_pos_pos_trivial) linarith+
    then have q: "angle_quantum v = of_int \<lfloor>d * 1024\<rfloor> * 360 / 1024" by (simp add: angle_quantum_def)
    have "angle_quantum v \<le> v + v / 2 ^ 24" using fl(1) d(2) unfolding q by linarith
    moreover have "v - v / 2 ^ 24 < angle_quantum v + 360 / 1024" using fl(2) d(3) unfolding q by linarith
    ultimately show ?thesis by (simp add: angle_close_def)
  qed
qed

text \<open>
  A \<^verbatim>\<open>float\<close> below 360 is at least \<open>2 ^ -15\<close> below it, far enough for its quotient by 360 not to
  round up to 1. So the exception of \<open>angle_close\<close> does not arise for floats.
\<close>

definition angle_near :: "rat \<Rightarrow> rat \<Rightarrow> bool" where
  "angle_near v r \<longleftrightarrow> 0 \<le> r \<and> r < 360 \<and> r \<le> v + v / 2 ^ 24 \<and> v - v / 2 ^ 24 < r + 360 / 1024"

lemma float_below_circle:
  assumes "fl32 v = v" and "v < 360"
  shows "v \<le> 360 - 1 / 2 ^ 15"
proof -
  obtain m e where v: "v = of_int m * 2 powi e" and m: "\<bar>m\<bar> < 2 ^ 24"
    using fl32_form [of v] assms(1) by metis
  show ?thesis
  proof (cases "- 15 \<le> e")
    case True
    define k where "k = m * 2 ^ nat (e + 15)"
    have "v * 2 ^ 15 = of_int m * 2 powi (e + 15)" by (simp add: v power_int_add)
    then have k: "v * 2 ^ 15 = of_int k" using True by (simp add: k_def power_int_def)
    then have "of_int k < (of_int (360 * 2 ^ 15) :: rat)" using assms(2) by simp
    then have "k \<le> 360 * 2 ^ 15 - 1" by linarith
    then have "(of_int k :: rat) \<le> of_int (360 * 2 ^ 15 - 1)" by (simp only: of_int_le_iff)
    then show ?thesis using k by simp
  next
    case False
    have "v \<le> of_int \<bar>m\<bar> * 2 powi e" unfolding v by (intro mult_right_mono) simp_all
    also have "\<dots> \<le> 2 ^ 24 * 2 powi (- 16)"
      using m False by (intro mult_mono power_int_increasing) (simp_all flip: of_int_power)
    also have "\<dots> = (256 :: rat)" by (simp add: power_int_minus)
    finally show ?thesis by simp
  qed
qed

lemma angle_quantum_near:
  assumes "fl32 v = v" and "0 \<le> v" and "v < 360"
  shows "angle_near v (angle_quantum v)"
proof -
  define d where "d = fl32 (v / 360)"
  have d: "0 \<le> d" "d * 360 \<le> v + v / 2 ^ 24" "v - v / 2 ^ 24 \<le> d * 360"
    using fl32_angle [OF assms(2)] by (simp_all add: d_def)
  have "v / 2 ^ 24 \<le> 360 / 2 ^ 24" using assms(3) by simp
  then have "d * 360 \<le> 360 - 1 / 2 ^ 15 + 360 / 2 ^ 24"
    using d(2) float_below_circle [OF assms(1,3)] by linarith
  then have "d < 1" by simp
  then have t: "0 \<le> \<lfloor>d * 1024\<rfloor>" "\<lfloor>d * 1024\<rfloor> < 1024" using d(1) by (simp_all add: floor_less_iff)
  have fl: "of_int \<lfloor>d * 1024\<rfloor> \<le> d * 1024" "d * 1024 < of_int \<lfloor>d * 1024\<rfloor> + 1" by linarith+
  have q: "angle_quantum v = of_int \<lfloor>d * 1024\<rfloor> * 360 / 1024"
    using t by (simp add: angle_quantum_def angle_step_def d_def)
  have "0 \<le> angle_quantum v" "angle_quantum v < 360"
    using angle_step_range [of v] by (simp_all add: angle_quantum_def)
  moreover have "angle_quantum v \<le> v + v / 2 ^ 24" using fl(1) d(2) unfolding q by linarith
  moreover have "v - v / 2 ^ 24 < angle_quantum v + 360 / 1024" using fl(2) d(3) unfolding q by linarith
  ultimately show ?thesis by (simp add: angle_near_def)
qed

text \<open>From 360 on an angle is decoded as the angle one circle less.\<close>

lemma fl32_ge_1: "1 \<le> q \<Longrightarrow> 1 \<le> fl32 q"
proof -
  assume q: "1 \<le> q"
  define l where "l = ilog2 q"
  have lo: "2 powi l \<le> q" "q < 2 powi (l + 1)" using ilog2_bounds [of q] q by (simp_all add: l_def)
  have "0 \<le> l"
  proof (rule ccontr)
    assume "\<not> 0 \<le> l"
    then have "2 powi (l + 1) \<le> (2 powi 0 :: rat)" by (intro power_int_increasing) simp_all
    then show False using lo(2) q by simp
  qed
  then have one: "(1 :: rat) \<le> 2 powi l" using power_int_increasing [of 0 l "2 :: rat"] by simp
  define u :: rat where "u = 2 powi (l - 23)"
  have u: "0 < u" "2 powi l = 2 ^ 23 * u" by (simp_all add: u_def power_int_diff)
  have "of_int (2 ^ 23) \<le> q / u" using lo(1) u by (simp add: pos_le_divide_eq)
  then have "2 ^ 23 \<le> \<lfloor>q / u\<rfloor>" by (simp only: le_floor_iff)
  moreover have "\<lfloor>q / u\<rfloor> \<le> round_half_even (q / u)" by (simp add: round_half_even_def Let_def)
  ultimately have "(of_int (2 ^ 23) :: rat) \<le> of_int (round_half_even (q / u))" by (simp only: of_int_le_iff)
  then have "2 ^ 23 * u \<le> of_int (round_half_even (q / u)) * u" using u(1) by (intro mult_right_mono) simp_all
  with one have "1 \<le> of_int (round_half_even (q / u)) * u" unfolding u(2) by (rule order_trans)
  then show ?thesis using q by (simp add: fl32_def Let_def u_def l_def)
qed

lemma angle_quantum_second_circle:
  assumes "360 \<le> v" and "v < 719"
  shows "0 \<le> angle_quantum v \<and> angle_quantum v \<le> v - 360 + v / 2 ^ 24 \<and>
    v - 360 - v / 2 ^ 24 < angle_quantum v + 360 / 1024"
proof -
  define d where "d = fl32 (v / 360)"
  have d: "d * 360 \<le> v + v / 2 ^ 24" "v - v / 2 ^ 24 \<le> d * 360"
    using fl32_angle [of v] assms by (simp_all add: d_def)
  have "1 \<le> d" unfolding d_def by (rule fl32_ge_1) (use assms in simp)
  moreover have "v / 2 ^ 24 \<le> 1" using assms(2) by simp
  then have "d < 2" using d(1) assms(2) by linarith
  ultimately have "1024 \<le> \<lfloor>d * 1024\<rfloor>" "\<lfloor>d * 1024\<rfloor> < 2048"
    by (simp_all add: le_floor_iff floor_less_iff)
  then have "(\<lfloor>d * 1024\<rfloor> - 1024) mod 1024 = \<lfloor>d * 1024\<rfloor> - 1024" by (intro mod_pos_pos_trivial) linarith+
  then have "angle_step v = \<lfloor>d * 1024\<rfloor> - 1024" by (simp add: angle_step_def d_def)
  then have q: "angle_quantum v = of_int \<lfloor>d * 1024\<rfloor> * 360 / 1024 - 360"
    by (simp add: angle_quantum_def diff_divide_distrib left_diff_distrib)
  have fl: "of_int \<lfloor>d * 1024\<rfloor> \<le> d * 1024" "d * 1024 < of_int \<lfloor>d * 1024\<rfloor> + 1" by linarith+
  have "0 \<le> angle_quantum v" using angle_step_range [of v] by (simp add: angle_quantum_def)
  moreover have "angle_quantum v \<le> v - 360 + v / 2 ^ 24" using fl(1) d(1) unfolding q by linarith
  moreover have "v - 360 - v / 2 ^ 24 < angle_quantum v + 360 / 1024"
    using fl(2) d(2) unfolding q by linarith
  ultimately show ?thesis by simp
qed

lemma small_int_word:
  assumes "0 \<le> q" and "q < 1024"
  shows "(of_int q :: S32) < 1024" and "sint (of_int q :: S32) = q"
proof -
  have u: "uint (of_int q :: S32) = q" using assms by (simp add: unsigned_of_int take_bit_int_eq_self)
  then show "(of_int q :: S32) < 1024" using assms by (simp add: word_less_def)
  show "sint (of_int q :: S32) = q"
    using assms by (simp add: signed_of_int signed_take_bit_int_eq_self)
qed

lemma sint_quantization [simp]:
  "sint quantizationX = 1024" "sint quantizationY = 1024" "sint quantizationZ = 1024"
  by (simp_all add: quantizationX_def quantizationY_def quantizationZ_def)

lemma Rotation_Set_Get:
  assumes "0 \<le> x" "x < 720" "0 \<le> y" "y < 720" "0 \<le> z" "z < 720"
  shows "\<exists>this'. Rotation_Set this (vec3 x y z) = Some this' \<and>
    Rotation_Get this' = vec3 (angle_quantum x) (angle_quantum y) (angle_quantum z)"
proof -
  let ?p = "Rotation_Pack (of_int (angle_step x)) (of_int (angle_step y)) (of_int (angle_step z))"
  have "Rotation_Set this (vec3 x y z) = Some (this\<lparr>rotation := ?p\<rparr>)"
    using assms by (simp add: Rotation_Set_def vec3_def ConvertDegToQuantitized_step)
  moreover have "Rotation_Unpack ?p =
      (of_int (angle_step x), of_int (angle_step y), of_int (angle_step z))"
    by (intro Rotation_Unpack_Pack small_int_word angle_step_range)
  then have "Rotation_Get (this\<lparr>rotation := ?p\<rparr>) =
      vec3 (angle_quantum x) (angle_quantum y) (angle_quantum z)"
    by (simp add: Rotation_Get_def small_int_word angle_step_range ConvertToDeg_exact angle_quantum_def)
  ultimately show ?thesis by blast
qed

section \<open>Magnitudes\<close>

lemma Float_Set_Get:
  assumes "fl32 x = x" and "0 \<le> x" and "x * 512 < 16537"
  shows "\<exists>this'. Float_Set debug this x = Inr this' \<and> Float_Get this' = of_int \<lfloor>x * 512\<rfloor> / 512"
proof -
  have s: "fl32 (x * floatShift) = x * 512"
    using fl32_scale [OF assms(1), of 9] by (simp add: floatShift_def)
  have t: "0 \<le> \<lfloor>x * 512\<rfloor>" "\<lfloor>x * 512\<rfloor> < 16537" using assms by (simp_all add: floor_less_iff)
  then have "uint (of_int \<lfloor>x * 512\<rfloor> :: U16) = \<lfloor>x * 512\<rfloor>"
    by (simp add: unsigned_of_int take_bit_int_eq_self)
  then have "(of_nat (unat (of_int \<lfloor>x * 512\<rfloor> :: U16)) :: rat) = of_int \<lfloor>x * 512\<rfloor>"
    using t by (simp add: unat_eq_nat_uint)
  then have "Float_Get (this\<lparr>fc_value := of_int \<lfloor>x * 512\<rfloor>\<rparr>) = of_int \<lfloor>x * 512\<rfloor> / 512"
    using fl32_int [of "\<lfloor>x * 512\<rfloor>"] fl32_dyadic [of "\<lfloor>x * 512\<rfloor>" 9] t
    by (simp add: Float_Get_def floatShift_def)
  then show ?thesis
    using s t assms by (intro exI [of _ "this\<lparr>fc_value := of_int \<lfloor>x * 512\<rfloor>\<rparr>"])
      (simp add: Float_Set_def Let_def trunc_nonneg)
qed

text \<open>A negative multiple of 1/512 is outside \<^verbatim>\<open>U16\<close>, and the conversion is undefined.\<close>

lemma Float_Set_negative:
  assumes "fl32 x = x" and "x * 512 \<le> - 1" and "- 16537 < x * 512"
  shows "Float_Set debug this x = Inl BadConversion"
proof -
  have "fl32 (x * floatShift) = x * 512"
    using fl32_scale [OF assms(1), of 9] by (simp add: floatShift_def)
  moreover have "trunc (x * 512) < 0" using assms(2) by (simp add: trunc_def ceiling_less_zero)
  ultimately show ?thesis using assms(2,3) by (simp add: Float_Set_def Let_def abs_if)
qed

section \<open>Serialization\<close>

lemma Position_SerializeIn_enc:
  "holds_at buf off (be_bytes (position p)) \<Longrightarrow> Position_SerializeIn buf off q = Some (q\<lparr>position := position p\<rparr>, off + 8)"
  using s_U64.inp_enc [of buf off "position p"] by (simp add: Position_SerializeIn_def)

lemma Rotation_SerializeIn_enc:
  "holds_at buf off (be_bytes (rotation p)) \<Longrightarrow> Rotation_SerializeIn buf off q = Some (q\<lparr>rotation := rotation p\<rparr>, off + 4)"
  using s_int.inp_enc [of buf off "rotation p"] by (simp add: Rotation_SerializeIn_def)

lemma Position_SerializeIn_None_iff: "Position_SerializeIn buf off q = None \<longleftrightarrow> length buf < off + 8"
  using s_U64.inp_None_iff [of buf off] by (cases "In_U64 buf off") (auto simp: Position_SerializeIn_def)

lemma Rotation_SerializeIn_None_iff: "Rotation_SerializeIn buf off q = None \<longleftrightarrow> length buf < off + 4"
  using s_int.inp_None_iff [of buf off] by (cases "In_int buf off") (auto simp: Rotation_SerializeIn_def)

lemma Position_SerializeIn_advance: "Position_SerializeIn buf off q = Some (v, off') \<Longrightarrow> off' = off + 8"
  by (auto simp: Position_SerializeIn_def bind_eq_Some_conv dest: s_U64.inp_advance)

lemma Rotation_SerializeIn_advance: "Rotation_SerializeIn buf off q = Some (v, off') \<Longrightarrow> off' = off + 4"
  by (auto simp: Rotation_SerializeIn_def bind_eq_Some_conv dest: s_int.inp_advance)

interpretation s_position: fixed_serializer
    "\<lambda>p. be_bytes (position p)" "\<lambda>buf off. Position_SerializeIn buf off q" Position_SerializeOut
    "\<lambda>_. True" 8 for q :: PositionCompressed
  by unfold_locales
    (auto simp: Position_SerializeIn_enc Position_SerializeOut_def s_U64.outp_enc
      Position_SerializeIn_None_iff dest: Position_SerializeIn_advance)

interpretation s_rotation: fixed_serializer
    "\<lambda>p. be_bytes (rotation p)" "\<lambda>buf off. Rotation_SerializeIn buf off q" Rotation_SerializeOut
    "\<lambda>_. True" 4 for q :: RotationCompressed
  by unfold_locales
    (auto simp: Rotation_SerializeIn_enc Rotation_SerializeOut_def s_int.outp_enc
      Rotation_SerializeIn_None_iff dest: Rotation_SerializeIn_advance)

end
