(* ===== verification/Packets.thy ===== *)
theory Packets
  imports Compression
begin

text \<open>
  The packet classes of \<^verbatim>\<open>UDP01/OldCode/Packets/BasePacket.h/.cpp\<close> and
  \<^verbatim>\<open>MovementPacket.h/.cpp\<close>. A C++ class is a record, a derived class extends its base's
  record, and a base-class method works on every extension, as it does in the code. The
  byte \<^verbatim>\<open>padding[1]\<close> is neither set nor sent and has no field. A packet behind an
  \<^verbatim>\<open>IPacketSerializable\<close> pointer is a value of the tagged union \<open>packet\<close>; its virtual
  methods select on the tag.
\<close>

section \<open>Packet types\<close>

datatype PacketType =
    PacketType_Base
  | PacketType_Login
  | PacketType_ServerTick
  | PacketType_NetworkProtocol
  | PacketType_Chat
  | PacketType_UserInfo
  | PacketType_Contact
  | PacketType_Asset
  | PacketType_UserStateChange
  | PacketType_DbQuery
  | PacketType_Gameplay
  | PacketType_GatewayWrapper
  | PacketType_ServerToServerWrapper
  | PacketType_ServerJobWrapper
  | PacketType_ServerInformation
  | PacketType_GatewayInformation
  | PacketType_ErrorReport
  | PacketType_Cheat
  | PacketType_Purchase
  | PacketType_Tournament
  | PacketType_Analytics
  | PacketType_Notification
  | PacketType_Invitation
  | PacketType_UserStats
  | PacketType_Num

text \<open>The enumerators in the order of their declaration; the value of one is its position.\<close>

definition all_packet_types :: "PacketType list" where
  "all_packet_types =
     [PacketType_Base, PacketType_Login, PacketType_ServerTick, PacketType_NetworkProtocol,
      PacketType_Chat, PacketType_UserInfo, PacketType_Contact, PacketType_Asset,
      PacketType_UserStateChange, PacketType_DbQuery, PacketType_Gameplay,
      PacketType_GatewayWrapper, PacketType_ServerToServerWrapper, PacketType_ServerJobWrapper,
      PacketType_ServerInformation, PacketType_GatewayInformation, PacketType_ErrorReport,
      PacketType_Cheat, PacketType_Purchase, PacketType_Tournament, PacketType_Analytics,
      PacketType_Notification, PacketType_Invitation, PacketType_UserStats, PacketType_Num]"

definition packet_type_value :: "PacketType \<Rightarrow> nat" where
  "packet_type_value t = length (takeWhile (\<lambda>t'. t' \<noteq> t) all_packet_types)"

definition packet_type_code :: "PacketType \<Rightarrow> U8" where
  "packet_type_code t = of_nat (packet_type_value t)"

fun GetPacketTypename :: "PacketType \<Rightarrow> string" where
  "GetPacketTypename PacketType_Base = ''Base''"
| "GetPacketTypename PacketType_Login = ''Login''"
| "GetPacketTypename PacketType_ServerTick = ''ServerTick''"
| "GetPacketTypename PacketType_NetworkProtocol = ''NetworkProtocol''"
| "GetPacketTypename PacketType_Chat = ''Chat''"
| "GetPacketTypename PacketType_UserInfo = ''UserInfo''"
| "GetPacketTypename PacketType_Contact = ''Contact''"
| "GetPacketTypename PacketType_Asset = ''Asset''"
| "GetPacketTypename PacketType_UserStateChange = ''User state change''"
| "GetPacketTypename PacketType_DbQuery = ''DbQuery''"
| "GetPacketTypename PacketType_Gameplay = ''Gameplay''"
| "GetPacketTypename PacketType_GatewayWrapper = ''GW wrapper''"
| "GetPacketTypename PacketType_ServerToServerWrapper = ''S2S Wrapper''"
| "GetPacketTypename PacketType_ServerJobWrapper = ''Server job wrapper''"
| "GetPacketTypename PacketType_ServerInformation = ''Server info''"
| "GetPacketTypename PacketType_GatewayInformation = ''GW info''"
| "GetPacketTypename PacketType_ErrorReport = ''Error''"
| "GetPacketTypename PacketType_Cheat = ''Cheat''"
| "GetPacketTypename PacketType_Purchase = ''Purchase''"
| "GetPacketTypename PacketType_Tournament = ''Tournament''"
| "GetPacketTypename PacketType_Analytics = ''Analytics''"
| "GetPacketTypename PacketType_Notification = ''Notification''"
| "GetPacketTypename PacketType_Invitation = ''Invitation''"
| "GetPacketTypename PacketType_UserStats = ''UserStats''"
| "GetPacketTypename PacketType_Num = []"

text \<open>\<^verbatim>\<open>BasePacket::SubType\<close> and \<^verbatim>\<open>ServerTickPacket::SubType\<close>.\<close>

definition BasePacket_Type :: U8 where "BasePacket_Type = 0"
definition BasePacket_Hello :: U8 where "BasePacket_Hello = 1"
definition BasePacket_CommsHandshake :: U8 where "BasePacket_CommsHandshake = 2"

definition ServerTick_Base :: U8 where "ServerTick_Base = 0"
definition ServerTick_Position :: U8 where "ServerTick_Position = 1"
definition ServerTick_Movement :: U8 where "ServerTick_Movement = 2"

definition NetworkVersionMajor :: U8 where "NetworkVersionMajor = 51"
definition NetworkVersionMinor :: U8 where "NetworkVersionMinor = 0"

section \<open>BasePacket\<close>

record BasePacket =
  packetType :: U8
  packetSubType :: U8
  gameProductId :: U8
  versionNumberMajor :: U8
  versionNumberMinor :: U8
  gameInstanceId :: U16

definition new_BasePacket :: "U8 \<Rightarrow> U8 \<Rightarrow> BasePacket" where
  "new_BasePacket packet_type packet_sub_type =
     \<lparr>packetType = packet_type, packetSubType = packet_sub_type, gameProductId = 0,
      versionNumberMajor = NetworkVersionMajor, versionNumberMinor = NetworkVersionMinor,
      gameInstanceId = 0\<rparr>"

definition WriteTo :: "'a BasePacket_scheme \<Rightarrow> 'b BasePacket_scheme \<Rightarrow> 'b BasePacket_scheme" where
  "WriteTo this dest = dest\<lparr>gameProductId := gameProductId this,
     versionNumberMajor := versionNumberMajor this,
     versionNumberMinor := versionNumberMinor this,
     gameInstanceId := gameInstanceId this\<rparr>"

definition CopyFrom :: "'a BasePacket_scheme \<Rightarrow> 'b BasePacket_scheme \<Rightarrow> 'a BasePacket_scheme" where
  "CopyFrom this src = this\<lparr>gameProductId := gameProductId src,
     versionNumberMajor := versionNumberMajor src,
     versionNumberMinor := versionNumberMinor src,
     gameInstanceId := gameInstanceId src\<rparr>"

definition BasePacket_SerializeIn ::
  "bytes \<Rightarrow> nat \<Rightarrow> 'a BasePacket_scheme \<Rightarrow> ('a BasePacket_scheme \<times> nat) option" where
  "BasePacket_SerializeIn data off this = do {
     (v, off) \<leftarrow> In_U8 data off;
     let this = this\<lparr>packetType := v\<rparr>;
     (v, off) \<leftarrow> In_U8 data off;
     let this = this\<lparr>packetSubType := v\<rparr>;
     (v, off) \<leftarrow> In_U8 data off;
     let this = this\<lparr>versionNumberMajor := v\<rparr>;
     (v, off) \<leftarrow> In_U8 data off;
     let this = this\<lparr>versionNumberMinor := v\<rparr>;
     (v, off) \<leftarrow> In_U8 data off;
     let this = this\<lparr>gameProductId := v\<rparr>;
     (v, off) \<leftarrow> In_U16 data off;
     let this = this\<lparr>gameInstanceId := v\<rparr>;
     Some (this, off) }"

definition BasePacket_SerializeOut ::
  "bytes \<Rightarrow> nat \<Rightarrow> 'a BasePacket_scheme \<Rightarrow> (bytes \<times> nat) option" where
  "BasePacket_SerializeOut data off this = do {
     (data, off) \<leftarrow> Out_U8 data off (packetType this);
     (data, off) \<leftarrow> Out_U8 data off (packetSubType this);
     (data, off) \<leftarrow> Out_U8 data off (versionNumberMajor this);
     (data, off) \<leftarrow> Out_U8 data off (versionNumberMinor this);
     (data, off) \<leftarrow> Out_U8 data off (gameProductId this);
     (data, off) \<leftarrow> Out_U16 data off (gameInstanceId this);
     Some (data, off) }"

section \<open>ConnectionCommsPacket\<close>

record ConnectionCommsPacket = BasePacket +
  connectionId :: U16

text \<open>
  The constructor leaves \<^verbatim>\<open>connectionId\<close> uninitialised: \<open>junk\<close> is whatever the memory
  holds.
\<close>

definition new_ConnectionCommsPacket :: "U16 \<Rightarrow> U8 \<Rightarrow> ConnectionCommsPacket" where
  "new_ConnectionCommsPacket junk packet_sub_type =
     BasePacket.extend (new_BasePacket (packet_type_code PacketType_Base) packet_sub_type)
       \<lparr>connectionId = junk\<rparr>"

definition ConnectionComms_SerializeIn ::
  "bytes \<Rightarrow> nat \<Rightarrow> 'a ConnectionCommsPacket_scheme \<Rightarrow> ('a ConnectionCommsPacket_scheme \<times> nat) option"
where
  "ConnectionComms_SerializeIn data off this = do {
     (this, off) \<leftarrow> BasePacket_SerializeIn data off this;
     (v, off) \<leftarrow> In_U16 data off;
     Some (this\<lparr>connectionId := v\<rparr>, off) }"

definition ConnectionComms_SerializeOut ::
  "bytes \<Rightarrow> nat \<Rightarrow> 'a ConnectionCommsPacket_scheme \<Rightarrow> (bytes \<times> nat) option" where
  "ConnectionComms_SerializeOut data off this = do {
     (data, off) \<leftarrow> BasePacket_SerializeOut data off this;
     (data, off) \<leftarrow> Out_U16 data off (connectionId this);
     Some (data, off) }"

section \<open>ServerTickPacket, PositionPacket and MovementPacket\<close>

record ServerTickPacket = BasePacket +
  serverTick :: U16

definition new_ServerTickPacket :: "U8 \<Rightarrow> ServerTickPacket" where
  "new_ServerTickPacket packet_sub_type =
     BasePacket.extend (new_BasePacket (packet_type_code PacketType_ServerTick) packet_sub_type)
       \<lparr>serverTick = 0\<rparr>"

definition ServerTick_SerializeIn ::
  "bytes \<Rightarrow> nat \<Rightarrow> 'a ServerTickPacket_scheme \<Rightarrow> ('a ServerTickPacket_scheme \<times> nat) option"
where
  "ServerTick_SerializeIn data off this = do {
     (this, off) \<leftarrow> BasePacket_SerializeIn data off this;
     (v, off) \<leftarrow> In_U16 data off;
     Some (this\<lparr>serverTick := v\<rparr>, off) }"

definition ServerTick_SerializeOut ::
  "bytes \<Rightarrow> nat \<Rightarrow> 'a ServerTickPacket_scheme \<Rightarrow> (bytes \<times> nat) option" where
  "ServerTick_SerializeOut data off this = do {
     (data, off) \<leftarrow> BasePacket_SerializeOut data off this;
     (data, off) \<leftarrow> Out_U16 data off (serverTick this);
     Some (data, off) }"

record PositionPacket = ServerTickPacket +
  positionCompressed :: PositionCompressed
  rotationCompressed :: RotationCompressed

definition new_PositionPacket :: "U8 \<Rightarrow> PositionPacket" where
  "new_PositionPacket packet_sub_type =
     ServerTickPacket.extend (new_ServerTickPacket packet_sub_type)
       \<lparr>positionCompressed = \<lparr>position = 0\<rparr>, rotationCompressed = \<lparr>rotation = 0\<rparr>\<rparr>"

definition PositionPacket_SerializeIn ::
  "bytes \<Rightarrow> nat \<Rightarrow> 'a PositionPacket_scheme \<Rightarrow> ('a PositionPacket_scheme \<times> nat) option"
where
  "PositionPacket_SerializeIn data off this = do {
     (this, off) \<leftarrow> ServerTick_SerializeIn data off this;
     (p, off) \<leftarrow> Position_SerializeIn data off (positionCompressed this);
     let this = this\<lparr>positionCompressed := p\<rparr>;
     (r, off) \<leftarrow> Rotation_SerializeIn data off (rotationCompressed this);
     Some (this\<lparr>rotationCompressed := r\<rparr>, off) }"

definition PositionPacket_SerializeOut ::
  "bytes \<Rightarrow> nat \<Rightarrow> 'a PositionPacket_scheme \<Rightarrow> (bytes \<times> nat) option" where
  "PositionPacket_SerializeOut data off this = do {
     (data, off) \<leftarrow> ServerTick_SerializeOut data off this;
     (data, off) \<leftarrow> Position_SerializeOut data off (positionCompressed this);
     (data, off) \<leftarrow> Rotation_SerializeOut data off (rotationCompressed this);
     Some (data, off) }"

definition PositionPacket_Set ::
  "'a PositionPacket_scheme \<Rightarrow> Vector3 \<Rightarrow> Vector3 \<Rightarrow> 'a PositionPacket_scheme option" where
  "PositionPacket_Set this pos direction = do {
     p \<leftarrow> Position_Set (positionCompressed this) pos;
     r \<leftarrow> Rotation_Set (rotationCompressed this) direction;
     Some (this\<lparr>positionCompressed := p, rotationCompressed := r\<rparr>) }"

definition PositionPacket_Get :: "'a PositionPacket_scheme \<Rightarrow> Vector3 \<times> Vector3" where
  "PositionPacket_Get this =
     (Position_Get (positionCompressed this), Rotation_Get (rotationCompressed this))"

record MovementPacket = PositionPacket +
  movementDirCompressed :: PositionCompressed

definition new_MovementPacket :: "MovementPacket" where
  "new_MovementPacket =
     PositionPacket.extend (new_PositionPacket ServerTick_Movement)
       \<lparr>movementDirCompressed = \<lparr>position = 0\<rparr>\<rparr>"

definition MovementPacket_SerializeIn ::
  "bytes \<Rightarrow> nat \<Rightarrow> 'a MovementPacket_scheme \<Rightarrow> ('a MovementPacket_scheme \<times> nat) option"
where
  "MovementPacket_SerializeIn data off this = do {
     (this, off) \<leftarrow> PositionPacket_SerializeIn data off this;
     (m, off) \<leftarrow> Position_SerializeIn data off (movementDirCompressed this);
     Some (this\<lparr>movementDirCompressed := m\<rparr>, off) }"

definition MovementPacket_SerializeOut ::
  "bytes \<Rightarrow> nat \<Rightarrow> 'a MovementPacket_scheme \<Rightarrow> (bytes \<times> nat) option" where
  "MovementPacket_SerializeOut data off this = do {
     (data, off) \<leftarrow> PositionPacket_SerializeOut data off this;
     (data, off) \<leftarrow> Position_SerializeOut data off (movementDirCompressed this);
     Some (data, off) }"

definition MovementPacket_Set ::
  "'a MovementPacket_scheme \<Rightarrow> Vector3 \<Rightarrow> Vector3 \<Rightarrow> Vector3 \<Rightarrow> 'a MovementPacket_scheme option"
where
  "MovementPacket_Set this pos direction movementDir = do {
     this \<leftarrow> PositionPacket_Set this pos direction;
     m \<leftarrow> Position_Set (movementDirCompressed this) movementDir;
     Some (this\<lparr>movementDirCompressed := m\<rparr>) }"

definition MovementPacket_Get :: "'a MovementPacket_scheme \<Rightarrow> Vector3 \<times> Vector3 \<times> Vector3" where
  "MovementPacket_Get this =
     (let (pos, direction) = PositionPacket_Get this
      in (pos, direction, Position_Get (movementDirCompressed this)))"

section \<open>Packets behind the interface\<close>

text \<open>The classes that register themselves with the factory (\<^verbatim>\<open>FactoryBoilerplate\<close>).\<close>

datatype packet_class = C_BasePacket | C_ConnectionCommsPacket | C_PositionPacket | C_MovementPacket

fun class_Name :: "packet_class \<Rightarrow> string" where
  "class_Name C_BasePacket = ''BasePacket''"
| "class_Name C_ConnectionCommsPacket = ''ConnectionCommsPacket''"
| "class_Name C_PositionPacket = ''PositionPacket''"
| "class_Name C_MovementPacket = ''MovementPacket''"

fun class_Type :: "packet_class \<Rightarrow> U8" where
  "class_Type C_BasePacket = packet_type_code PacketType_Base"
| "class_Type C_ConnectionCommsPacket = packet_type_code PacketType_Base"
| "class_Type C_PositionPacket = packet_type_code PacketType_ServerTick"
| "class_Type C_MovementPacket = packet_type_code PacketType_ServerTick"

fun class_SubType :: "packet_class \<Rightarrow> U8" where
  "class_SubType C_BasePacket = BasePacket_Type"
| "class_SubType C_ConnectionCommsPacket = BasePacket_CommsHandshake"
| "class_SubType C_PositionPacket = ServerTick_Position"
| "class_SubType C_MovementPacket = ServerTick_Movement"

datatype packet =
    Packet_Base BasePacket
  | Packet_Comms ConnectionCommsPacket
  | Packet_Position PositionPacket
  | Packet_Movement MovementPacket

fun class_of :: "packet \<Rightarrow> packet_class" where
  "class_of (Packet_Base p) = C_BasePacket"
| "class_of (Packet_Comms p) = C_ConnectionCommsPacket"
| "class_of (Packet_Position p) = C_PositionPacket"
| "class_of (Packet_Movement p) = C_MovementPacket"

definition GetName :: "packet \<Rightarrow> string" where "GetName p = class_Name (class_of p)"
definition GetType :: "packet \<Rightarrow> U8" where "GetType p = class_Type (class_of p)"
definition GetSubType :: "packet \<Rightarrow> U8" where "GetSubType p = class_SubType (class_of p)"

text \<open>\<^verbatim>\<open>CreateMethod\<close>: \<^verbatim>\<open>make_shared<C>()\<close> runs the default constructor.\<close>

fun CreateMethod :: "U16 \<Rightarrow> packet_class \<Rightarrow> packet" where
  "CreateMethod junk C_BasePacket =
     Packet_Base (new_BasePacket (packet_type_code PacketType_Base) BasePacket_Type)"
| "CreateMethod junk C_ConnectionCommsPacket =
     Packet_Comms (new_ConnectionCommsPacket junk BasePacket_CommsHandshake)"
| "CreateMethod junk C_PositionPacket = Packet_Position (new_PositionPacket ServerTick_Position)"
| "CreateMethod junk C_MovementPacket = Packet_Movement new_MovementPacket"

fun packet_SerializeIn :: "bytes \<Rightarrow> nat \<Rightarrow> packet \<Rightarrow> (packet \<times> nat) option" where
  "packet_SerializeIn data off (Packet_Base p) =
     map_option (map_prod Packet_Base id) (BasePacket_SerializeIn data off p)"
| "packet_SerializeIn data off (Packet_Comms p) =
     map_option (map_prod Packet_Comms id) (ConnectionComms_SerializeIn data off p)"
| "packet_SerializeIn data off (Packet_Position p) =
     map_option (map_prod Packet_Position id) (PositionPacket_SerializeIn data off p)"
| "packet_SerializeIn data off (Packet_Movement p) =
     map_option (map_prod Packet_Movement id) (MovementPacket_SerializeIn data off p)"

fun packet_SerializeOut :: "bytes \<Rightarrow> nat \<Rightarrow> packet \<Rightarrow> (bytes \<times> nat) option" where
  "packet_SerializeOut data off (Packet_Base p) = BasePacket_SerializeOut data off p"
| "packet_SerializeOut data off (Packet_Comms p) = ConnectionComms_SerializeOut data off p"
| "packet_SerializeOut data off (Packet_Position p) = PositionPacket_SerializeOut data off p"
| "packet_SerializeOut data off (Packet_Movement p) = MovementPacket_SerializeOut data off p"

text \<open>The \<^verbatim>\<open>BasePacket*\<close> view of a packet (\<^verbatim>\<open>dynamic_cast<BasePacket*>(p->GetTypePtr())\<close>).\<close>

fun base_view :: "packet \<Rightarrow> BasePacket" where
  "base_view (Packet_Base p) = BasePacket.truncate p"
| "base_view (Packet_Comms p) = BasePacket.truncate p"
| "base_view (Packet_Position p) = BasePacket.truncate p"
| "base_view (Packet_Movement p) = BasePacket.truncate p"

section \<open>Wire formats\<close>

definition enc_base :: "'a BasePacket_scheme \<Rightarrow> bytes" where
  "enc_base p = enc_U8 (packetType p) @ enc_U8 (packetSubType p) @ enc_U8 (versionNumberMajor p) @
     enc_U8 (versionNumberMinor p) @ enc_U8 (gameProductId p) @ be_bytes (gameInstanceId p)"

definition enc_comms :: "'a ConnectionCommsPacket_scheme \<Rightarrow> bytes" where
  "enc_comms p = enc_base p @ be_bytes (connectionId p)"

definition enc_tick :: "'a ServerTickPacket_scheme \<Rightarrow> bytes" where
  "enc_tick p = enc_base p @ be_bytes (serverTick p)"

definition enc_position :: "'a PositionPacket_scheme \<Rightarrow> bytes" where
  "enc_position p = enc_tick p @ be_bytes (position (positionCompressed p)) @
     be_bytes (rotation (rotationCompressed p))"

definition enc_movement :: "'a MovementPacket_scheme \<Rightarrow> bytes" where
  "enc_movement p = enc_position p @ be_bytes (position (movementDirCompressed p))"

fun enc_packet :: "packet \<Rightarrow> bytes" where
  "enc_packet (Packet_Base p) = enc_base p"
| "enc_packet (Packet_Comms p) = enc_comms p"
| "enc_packet (Packet_Position p) = enc_position p"
| "enc_packet (Packet_Movement p) = enc_movement p"

fun class_width :: "packet_class \<Rightarrow> nat" where
  "class_width C_BasePacket = 7"
| "class_width C_ConnectionCommsPacket = 9"
| "class_width C_PositionPacket = 21"
| "class_width C_MovementPacket = 29"

lemma length_enc [simp]:
  "length (enc_U8 b) = 1" "length (enc_base p) = 7" "length (enc_comms c) = 9" "length (enc_tick t) = 9"
  "length (enc_position q) = 21" "length (enc_movement m) = 29"
  by (simp_all add: enc_U8_def enc_base_def enc_comms_def enc_tick_def enc_position_def enc_movement_def)

lemma length_enc_packet [simp]: "length (enc_packet p) = class_width (class_of p)"
  by (cases p) simp_all

section \<open>The class serializers meet the contract\<close>

lemmas packet_out_defs = BasePacket_SerializeOut_def ConnectionComms_SerializeOut_def
  ServerTick_SerializeOut_def PositionPacket_SerializeOut_def MovementPacket_SerializeOut_def

lemmas packet_in_defs = BasePacket_SerializeIn_def ConnectionComms_SerializeIn_def
  ServerTick_SerializeIn_def PositionPacket_SerializeIn_def MovementPacket_SerializeIn_def

lemma BasePacket_writes [codec_intros]:
  "writes (\<lambda>buf off. BasePacket_SerializeOut buf off p) (enc_base p)"
  unfolding BasePacket_SerializeOut_def enc_base_def by (intro codec_intros)

text \<open>What reading the fields of \<open>p\<close> makes of an object \<open>q\<close> of the same or a derived class.\<close>

abbreviation read_base :: "'a BasePacket_scheme \<Rightarrow> 'b BasePacket_scheme \<Rightarrow> 'b BasePacket_scheme" where
  "read_base p q \<equiv> q\<lparr>packetType := packetType p, packetSubType := packetSubType p,
     versionNumberMajor := versionNumberMajor p, versionNumberMinor := versionNumberMinor p,
     gameProductId := gameProductId p, gameInstanceId := gameInstanceId p\<rparr>"

abbreviation read_tick ::
  "'a ServerTickPacket_scheme \<Rightarrow> 'b ServerTickPacket_scheme \<Rightarrow> 'b ServerTickPacket_scheme" where
  "read_tick p q \<equiv> (read_base p q)\<lparr>serverTick := serverTick p\<rparr>"

abbreviation read_position ::
  "'a PositionPacket_scheme \<Rightarrow> 'b PositionPacket_scheme \<Rightarrow> 'b PositionPacket_scheme" where
  "read_position p q \<equiv> (read_tick p q)\<lparr>positionCompressed := positionCompressed p,
     rotationCompressed := rotationCompressed p\<rparr>"

lemma BasePacket_reads [codec_intros]:
  "reads (\<lambda>buf off. BasePacket_SerializeIn buf off q) (enc_base p) (read_base p q)"
  unfolding BasePacket_SerializeIn_def enc_base_def Let_def by (rule codec_intros)+ simp

lemma BasePacket_takes [codec_intros]: "takes (\<lambda>buf off. BasePacket_SerializeIn buf off q) 7"
proof -
  have "takes (\<lambda>buf off. BasePacket_SerializeIn buf off q) (1 + (1 + (1 + (1 + (1 + 2)))))"
    unfolding BasePacket_SerializeIn_def Let_def by (rule codec_intros)+
  moreover have "(1::nat) + (1 + (1 + (1 + (1 + 2)))) = 7" by simp
  ultimately show ?thesis by (simp only:)
qed

lemma ConnectionComms_writes [codec_intros]:
  "writes (\<lambda>buf off. ConnectionComms_SerializeOut buf off p) (enc_comms p)"
  unfolding ConnectionComms_SerializeOut_def enc_comms_def by (intro codec_intros)

lemma ConnectionComms_reads:
  fixes p q :: ConnectionCommsPacket
  shows "reads (\<lambda>buf off. ConnectionComms_SerializeIn buf off q) (enc_comms p) p"
  unfolding ConnectionComms_SerializeIn_def enc_comms_def by (rule codec_intros)+ simp

lemma ConnectionComms_takes: "takes (\<lambda>buf off. ConnectionComms_SerializeIn buf off q) 9"
proof -
  have "takes (\<lambda>buf off. ConnectionComms_SerializeIn buf off q) (7 + 2)"
    unfolding ConnectionComms_SerializeIn_def by (rule codec_intros)+
  then show ?thesis by simp
qed

lemma ServerTick_writes [codec_intros]:
  "writes (\<lambda>buf off. ServerTick_SerializeOut buf off p) (enc_tick p)"
  unfolding ServerTick_SerializeOut_def enc_tick_def by (intro codec_intros)

lemma ServerTick_reads [codec_intros]:
  "reads (\<lambda>buf off. ServerTick_SerializeIn buf off q) (enc_tick p) (read_tick p q)"
  unfolding ServerTick_SerializeIn_def enc_tick_def by (rule codec_intros)+ simp

lemma ServerTick_takes [codec_intros]: "takes (\<lambda>buf off. ServerTick_SerializeIn buf off q) 9"
proof -
  have "takes (\<lambda>buf off. ServerTick_SerializeIn buf off q) (7 + 2)"
    unfolding ServerTick_SerializeIn_def by (rule codec_intros)+
  then show ?thesis by simp
qed

lemma PositionPacket_writes [codec_intros]:
  "writes (\<lambda>buf off. PositionPacket_SerializeOut buf off p) (enc_position p)"
  unfolding PositionPacket_SerializeOut_def enc_position_def
  by (rule codec_intros s_position.writes_outp s_rotation.writes_outp)+

lemma PositionPacket_reads [codec_intros]:
  "reads (\<lambda>buf off. PositionPacket_SerializeIn buf off q) (enc_position p) (read_position p q)"
  unfolding PositionPacket_SerializeIn_def enc_position_def Let_def
  by (rule codec_intros s_position.reads_inp [OF TrueI] s_rotation.reads_inp [OF TrueI])+ simp

lemma PositionPacket_takes [codec_intros]:
  "takes (\<lambda>buf off. PositionPacket_SerializeIn buf off q) 21"
proof -
  have "takes (\<lambda>buf off. PositionPacket_SerializeIn buf off q) (9 + (8 + 4))"
    unfolding PositionPacket_SerializeIn_def Let_def
    by (rule codec_intros s_position.takes_inp s_rotation.takes_inp)+
  then show ?thesis by simp
qed

lemma MovementPacket_writes [codec_intros]:
  "writes (\<lambda>buf off. MovementPacket_SerializeOut buf off p) (enc_movement p)"
  unfolding MovementPacket_SerializeOut_def enc_movement_def
  by (rule codec_intros s_position.writes_outp)+

lemma MovementPacket_reads:
  fixes p q :: MovementPacket
  shows "reads (\<lambda>buf off. MovementPacket_SerializeIn buf off q) (enc_movement p) p"
  unfolding MovementPacket_SerializeIn_def enc_movement_def
  by (rule codec_intros s_position.reads_inp [OF TrueI])+ simp

lemma MovementPacket_takes: "takes (\<lambda>buf off. MovementPacket_SerializeIn buf off q) 29"
proof -
  have "takes (\<lambda>buf off. MovementPacket_SerializeIn buf off q) (21 + 8)"
    unfolding MovementPacket_SerializeIn_def by (rule codec_intros s_position.takes_inp)+
  then show ?thesis by simp
qed

section \<open>Packets of any class\<close>

lemma packet_writes [codec_intros]:
  "writes (\<lambda>buf off. packet_SerializeOut buf off p) (enc_packet p)"
  by (cases p) (simp_all add: codec_intros)

lemma BasePacket_reads_leaf:
  fixes p q :: BasePacket
  shows "reads (\<lambda>buf off. BasePacket_SerializeIn buf off q) (enc_base p) p"
proof -
  have "read_base p q = p" by simp
  then show ?thesis using BasePacket_reads [of q p] by (simp only:)
qed

lemma PositionPacket_reads_leaf:
  fixes p q :: PositionPacket
  shows "reads (\<lambda>buf off. PositionPacket_SerializeIn buf off q) (enc_position p) p"
proof -
  have "read_position p q = p" by simp
  then show ?thesis using PositionPacket_reads [of q p] by (simp only:)
qed

text \<open>Reading a packet of the right class yields the sent packet, whatever the object held before.\<close>

lemma packet_reads:
  assumes "class_of q = class_of p"
  shows "reads (\<lambda>buf off. packet_SerializeIn buf off q) (enc_packet p) p"
  using assms
  by (cases p; cases q)
    (auto intro!: reads_map BasePacket_reads_leaf ConnectionComms_reads PositionPacket_reads_leaf
      MovementPacket_reads)

lemma packet_takes: "takes (\<lambda>buf off. packet_SerializeIn buf off q) (class_width (class_of q))"
  by (cases q)
    (auto intro!: takes_map BasePacket_takes ConnectionComms_takes PositionPacket_takes
      MovementPacket_takes)

lemma packet_SerializeIn_class:
  "packet_SerializeIn buf off q = Some (p, off') \<Longrightarrow> class_of p = class_of q"
  by (cases q) auto

interpretation s_base: fixed_serializer enc_base "\<lambda>buf off. BasePacket_SerializeIn buf off q"
    BasePacket_SerializeOut "\<lambda>_. True" 7 for q :: BasePacket
  by unfold_locales
    (simp_all add: writesD [OF BasePacket_writes] readsD [OF BasePacket_reads_leaf]
      takes_None_iff [OF BasePacket_takes] takes_advance [OF BasePacket_takes])

interpretation s_comms: fixed_serializer enc_comms "\<lambda>buf off. ConnectionComms_SerializeIn buf off q"
    ConnectionComms_SerializeOut "\<lambda>_. True" 9 for q :: ConnectionCommsPacket
  by unfold_locales
    (simp_all add: writesD [OF ConnectionComms_writes] readsD [OF ConnectionComms_reads]
      takes_None_iff [OF ConnectionComms_takes] takes_advance [OF ConnectionComms_takes])

interpretation s_pospacket: fixed_serializer enc_position "\<lambda>buf off. PositionPacket_SerializeIn buf off q"
    PositionPacket_SerializeOut "\<lambda>_. True" 21 for q :: PositionPacket
  by unfold_locales
    (simp_all add: writesD [OF PositionPacket_writes] readsD [OF PositionPacket_reads_leaf]
      takes_None_iff [OF PositionPacket_takes] takes_advance [OF PositionPacket_takes])

interpretation s_movement: fixed_serializer enc_movement "\<lambda>buf off. MovementPacket_SerializeIn buf off q"
    MovementPacket_SerializeOut "\<lambda>_. True" 29 for q :: MovementPacket
  by unfold_locales
    (simp_all add: writesD [OF MovementPacket_writes] readsD [OF MovementPacket_reads]
      takes_None_iff [OF MovementPacket_takes] takes_advance [OF MovementPacket_takes])

interpretation s_packet: serializer enc_packet "\<lambda>buf off. packet_SerializeIn buf off q"
    packet_SerializeOut "\<lambda>p. class_of p = class_of q" for q
  by unfold_locales (rule writesD [OF packet_writes], rule readsD [OF packet_reads], rule sym)

end
