(* ===== verification/Std_Map.thy ===== *)
theory Std_Map
  imports Prelude "HOL-Library.Product_Lexorder" "HOL-Library.List_Lexorder" "HOL-Library.Char_ord"
begin

text \<open>
  \<^verbatim>\<open>std::map\<close> as the program uses it: a list of pairs, strictly ascending in the key, which
  is the order an iteration visits. \<^verbatim>\<open>pair<U8,U8>\<close> and \<^verbatim>\<open>string\<close> keys compare
  lexicographically (the library orders on pairs and lists).

  The locale \<open>key_map\<close> states what a client of a map relies on; the sorted list meets it.
\<close>

section \<open>The contract\<close>

locale key_map =
  fixes none :: 'm
    and look :: "'m \<Rightarrow> 'k \<Rightarrow> 'v option"
    and store :: "'k \<Rightarrow> 'v \<Rightarrow> 'm \<Rightarrow> 'm"
    and ok :: "'m \<Rightarrow> bool"
  assumes look_none: "look none k = None"
    and ok_none: "ok none"
    and look_store: "ok m \<Longrightarrow> look (store k v m) j = (if j = k then Some v else look m j)"
    and ok_store: "ok m \<Longrightarrow> ok (store k v m)"
begin

text \<open>A key that is stored only while it is absent keeps its first value.\<close>

lemma look_store_absent:
  "ok m \<Longrightarrow> look (if look m k = None then store k v m else m) j =
     (case look m j of Some x \<Rightarrow> Some x | None \<Rightarrow> if j = k then Some v else None)"
  by (auto simp: look_store split: option.split)

lemma ok_store_absent: "ok m \<Longrightarrow> ok (if look m k = None then store k v m else m)"
  by (simp add: ok_store)

lemma look_stores:
  "ok m \<Longrightarrow> look (fold (\<lambda>(k, v). store k v) kvs m) j =
     (case map_of (rev kvs) j of Some x \<Rightarrow> Some x | None \<Rightarrow> look m j)"
proof (induction kvs arbitrary: m)
  case (Cons kv kvs)
  then show ?case
    by (auto simp: look_store ok_store map_add_def split: prod.splits option.splits)
qed simp

lemma look_first_wins:
  "ok m \<Longrightarrow>
     look (fold (\<lambda>(k, v) m. if look m k = None then store k v m else m) kvs m) j =
       (case look m j of Some x \<Rightarrow> Some x | None \<Rightarrow> map_of kvs j)"
proof (induction kvs arbitrary: m)
  case Nil
  then show ?case by (simp split: option.split)
next
  case (Cons kv kvs)
  obtain k v where kv: "kv = (k, v)" by (cases kv)
  have "look (fold (\<lambda>(k, v) m. if look m k = None then store k v m else m) (kv # kvs) m) j =
      (case look (if look m k = None then store k v m else m) j of
         Some x \<Rightarrow> Some x | None \<Rightarrow> map_of kvs j)"
    using Cons.IH [OF ok_store_absent [OF Cons.prems, of k v]] by (simp add: kv)
  also have "\<dots> = (case look m j of Some x \<Rightarrow> Some x | None \<Rightarrow> map_of (kv # kvs) j)"
    using Cons.prems by (auto simp: look_store_absent kv split: option.split)
  finally show ?case .
qed

lemma ok_first_wins:
  "ok m \<Longrightarrow> ok (fold (\<lambda>(k, v) m. if look m k = None then store k v m else m) kvs m)"
  by (induction kvs arbitrary: m) (auto simp: ok_store)

end

section \<open>Sorted association lists\<close>

type_synonym ('k, 'v) std_map = "('k \<times> 'v) list"

definition map_find :: "('k, 'v) std_map \<Rightarrow> 'k \<Rightarrow> 'v option" where
  "map_find m k = map_of m k"

text \<open>\<^verbatim>\<open>m[k] = v\<close>\<close>

fun map_set :: "'k::linorder \<Rightarrow> 'v \<Rightarrow> ('k, 'v) std_map \<Rightarrow> ('k, 'v) std_map" where
  "map_set k v [] = [(k, v)]"
| "map_set k v ((j, w) # m) =
     (if k < j then (k, v) # (j, w) # m
      else if k = j then (k, v) # m
      else (j, w) # map_set k v m)"

definition map_ok :: "('k::linorder, 'v) std_map \<Rightarrow> bool" where
  "map_ok m \<longleftrightarrow> sorted_wrt (<) (map fst m)"

lemma map_ok_Cons [simp]: "map_ok ((k, v) # m) \<longleftrightarrow> (\<forall>j\<in>fst ` set m. k < j) \<and> map_ok m"
  by (simp add: map_ok_def)

lemma map_ok_Nil [simp]: "map_ok []"
  by (simp add: map_ok_def)

lemma map_find_Nil [simp]: "map_find [] k = None"
  by (simp add: map_find_def)

lemma map_find_Cons: "map_find ((j, v) # m) k = (if k = j then Some v else map_find m k)"
  by (simp add: map_find_def)

lemma map_set_keys: "fst ` set (map_set k v m) = insert k (fst ` set m)"
  by (induction m rule: map_set.induct) auto

lemma map_set_ok: "map_ok m \<Longrightarrow> map_ok (map_set k v m)"
  by (induction k v m rule: map_set.induct) (auto simp: map_set_keys)

lemma map_find_set: "map_find (map_set k v m) j = (if j = k then Some v else map_find m j)"
  by (induction k v m rule: map_set.induct) (auto simp: map_find_Cons)

lemma map_find_keys: "map_find m k \<noteq> None \<longleftrightarrow> k \<in> fst ` set m"
  by (simp add: map_find_def map_of_eq_None_iff)

lemma map_find_mem: "map_ok m \<Longrightarrow> map_find m k = Some v \<longleftrightarrow> (k, v) \<in> set m"
  unfolding map_find_def map_ok_def
  by (meson map_of_eq_Some_iff strict_sorted_iff)

lemma map_set_values: "snd ` set (map_set k v m) \<subseteq> insert v (snd ` set m)"
  by (induction k v m rule: map_set.induct) auto

lemma map_ok_distinct: "map_ok m \<Longrightarrow> distinct (map fst m)"
  by (simp add: map_ok_def strict_sorted_iff)

interpretation stdm: key_map "[]" map_find map_set map_ok
  by unfold_locales (simp_all add: map_find_set map_set_ok)

end
