(* ===== verification/Circular_Buffer.thy ===== *)
theory Circular_Buffer
  imports Prelude
begin

text \<open>
  The template \<^verbatim>\<open>circular_buffer<T>\<close> of \<^verbatim>\<open>UDP01/OldCode/General/CircularBuffer.h\<close>: a ring of
  \<^verbatim>\<open>cb_max_size\<close> slots that overwrites its oldest element when it is full. Each operation
  holds the buffer's mutex, so an operation is one atomic step of the model;
  that this is what threads observe is shown in \<open>Ring_Threads\<close>.

  The locale \<open>bounded_queue\<close> is the contract (a FIFO list of bounded length); the ring
  implements it, with \<open>contents\<close> as the abstraction.
\<close>

section \<open>The contract: a bounded queue that drops its oldest element\<close>

definition push_bounded :: "nat \<Rightarrow> 'a list \<Rightarrow> 'a \<Rightarrow> 'a list" where
  "push_bounded n xs x = (if length xs = n then tl xs else xs) @ [x]"

fun put_all :: "('q \<Rightarrow> 'a \<Rightarrow> 'q option) \<Rightarrow> 'q \<Rightarrow> 'a list \<Rightarrow> 'q option" where
  "put_all put q [] = Some q"
| "put_all put q (x # xs) = do { q \<leftarrow> put q x; put_all put q xs }"

fun get_many :: "('q \<Rightarrow> 'a \<times> 'q) \<Rightarrow> nat \<Rightarrow> 'q \<Rightarrow> 'a list \<times> 'q" where
  "get_many get 0 q = ([], q)"
| "get_many get (Suc n) q =
     (let (x, q) = get q; (xs, q) = get_many get n q in (x # xs, q))"

locale bounded_queue =
  fixes put :: "'q \<Rightarrow> 'a \<Rightarrow> 'q option"
    and get :: "'q \<Rightarrow> 'a \<times> 'q"
    and nothing :: 'a
    and cap :: "'q \<Rightarrow> nat"
    and list_of :: "'q \<Rightarrow> 'a list"
    and invar :: "'q \<Rightarrow> bool"
  assumes put_law: "invar q \<Longrightarrow>
      \<exists>q'. put q x = Some q' \<and> invar q' \<and> cap q' = cap q \<and>
           list_of q' = push_bounded (cap q) (list_of q) x"
    and get_Nil_law: "invar q \<Longrightarrow> list_of q = [] \<Longrightarrow> get q = (nothing, q)"
    and get_Cons_law: "invar q \<Longrightarrow> list_of q = x # xs \<Longrightarrow>
      \<exists>q'. get q = (x, q') \<and> invar q' \<and> cap q' = cap q \<and> list_of q' = xs"
    and cap_law: "invar q \<Longrightarrow> length (list_of q) \<le> cap q \<and> 0 < cap q"
begin

lemma put_invar: "invar q \<Longrightarrow> put q x = Some q' \<Longrightarrow> invar q' \<and> cap q' = cap q"
  using put_law [of q x] by auto

lemma put_list: "invar q \<Longrightarrow> put q x = Some q' \<Longrightarrow> list_of q' = push_bounded (cap q) (list_of q) x"
  using put_law [of q x] by auto

lemma put_space:
  assumes "invar q" and "length (list_of q) < cap q"
  shows "\<exists>q'. put q x = Some q' \<and> invar q' \<and> cap q' = cap q \<and> list_of q' = list_of q @ [x]"
  using put_law [OF assms(1), of x] assms(2) by (auto simp: push_bounded_def)

lemma get_invar: "invar q \<Longrightarrow> get q = (x, q') \<Longrightarrow> invar q' \<and> cap q' = cap q"
  using get_Nil_law [of q] get_Cons_law [of q] by (cases "list_of q") fastforce+

lemma get_list: "invar q \<Longrightarrow> get q = (x, q') \<Longrightarrow> list_of q' = tl (list_of q)"
  using get_Nil_law [of q] get_Cons_law [of q] by (cases "list_of q") fastforce+

lemma get_elem:
  "invar q \<Longrightarrow> get q = (x, q') \<Longrightarrow> x = (if list_of q = [] then nothing else hd (list_of q))"
  using get_Nil_law [of q] get_Cons_law [of q] by (cases "list_of q") fastforce+

text \<open>Filling: as long as there is space, elements queue up in order.\<close>

lemma put_all_space:
  "invar q \<Longrightarrow> length (list_of q) + length xs \<le> cap q \<Longrightarrow>
     \<exists>q'. put_all put q xs = Some q' \<and> invar q' \<and> cap q' = cap q \<and> list_of q' = list_of q @ xs"
proof (induction xs arbitrary: q)
  case Nil
  then show ?case by simp
next
  case (Cons x xs)
  then obtain q1 where q1: "put q x = Some q1" "invar q1" "cap q1 = cap q" "list_of q1 = list_of q @ [x]"
    using put_space [of q x] by auto
  then have "length (list_of q1) + length xs \<le> cap q1" using Cons.prems by simp
  from Cons.IH [OF q1(2) this] show ?case using q1 by auto
qed

text \<open>Overfilling: exactly the last \<open>cap\<close> elements remain, in order.\<close>

lemma put_all_last:
  "invar q \<Longrightarrow>
     \<exists>q'. put_all put q xs = Some q' \<and> invar q' \<and> cap q' = cap q \<and>
          list_of q' = drop (length (list_of q) + length xs - cap q) (list_of q @ xs)"
proof (induction xs arbitrary: q)
  case Nil
  then show ?case using cap_law [of q] by simp
next
  case (Cons x xs)
  obtain q1 where q1: "put q x = Some q1" "invar q1" "cap q1 = cap q"
    "list_of q1 = push_bounded (cap q) (list_of q) x"
    using put_law [OF Cons.prems, of x] by blast
  have c: "length (list_of q) \<le> cap q" "0 < cap q" using cap_law [OF Cons.prems] by auto
  have "drop (length (list_of q1) + length xs - cap q) (list_of q1 @ xs) =
      drop (length (list_of q) + length (x # xs) - cap q) (list_of q @ x # xs)"
  proof (cases "length (list_of q) = cap q")
    case True
    then obtain y ys where "list_of q = y # ys" using c by (cases "list_of q") auto
    then show ?thesis using True by (simp add: q1(4) push_bounded_def)
  next
    case False
    then show ?thesis using c by (simp add: q1(4) push_bounded_def)
  qed
  then show ?case using Cons.IH [OF q1(2)] q1 by auto
qed

text \<open>Draining: elements come out in the order in which they are queued.\<close>

lemma get_many_fifo:
  "invar q \<Longrightarrow> n \<le> length (list_of q) \<Longrightarrow>
     \<exists>q'. get_many get n q = (take n (list_of q), q') \<and> invar q' \<and> cap q' = cap q \<and>
          list_of q' = drop n (list_of q)"
proof (induction n arbitrary: q)
  case 0
  then show ?case by simp
next
  case (Suc n)
  then obtain x xs where xs: "list_of q = x # xs" by (cases "list_of q") auto
  then obtain q1 where q1: "get q = (x, q1)" "invar q1" "cap q1 = cap q" "list_of q1 = xs"
    using get_Cons_law [OF Suc.prems(1)] by blast
  then have "n \<le> length (list_of q1)" using Suc.prems(2) xs by simp
  from Suc.IH [OF q1(2) this] show ?case using q1 xs by auto
qed

lemma get_many_exhausted:
  "invar q \<Longrightarrow> list_of q = [] \<Longrightarrow> get_many get n q = (replicate n nothing, q)"
  by (induction n) (simp_all add: get_Nil_law)

end

section \<open>The ring\<close>

record 'a circular_buffer =
  cb_buf :: "'a list"
  cb_head :: nat
  cb_tail :: nat
  cb_max_size :: nat
  cb_full :: bool

text \<open>The constructor; \<open>t0\<close> is \<^verbatim>\<open>T()\<close>, the value of a fresh slot.\<close>

definition cb_new :: "'a \<Rightarrow> nat \<Rightarrow> 'a circular_buffer" where
  "cb_new t0 sz = \<lparr>cb_buf = replicate sz t0, cb_head = 0, cb_tail = 0, cb_max_size = sz, cb_full = False\<rparr>"

definition cb_empty :: "'a circular_buffer \<Rightarrow> bool" where
  "cb_empty cb \<longleftrightarrow> \<not> cb_full cb \<and> cb_head cb = cb_tail cb"

definition cb_is_full :: "'a circular_buffer \<Rightarrow> bool" where
  "cb_is_full cb = cb_full cb"

definition cb_capacity :: "'a circular_buffer \<Rightarrow> nat" where
  "cb_capacity cb = cb_max_size cb"

definition cb_size :: "'a circular_buffer \<Rightarrow> nat" where
  "cb_size cb =
     (if \<not> cb_full cb
      then if cb_head cb \<ge> cb_tail cb then cb_head cb - cb_tail cb
           else cb_max_size cb + cb_head cb - cb_tail cb
      else cb_max_size cb)"

text \<open>
  \<^verbatim>\<open>put\<close> fails only for a ring without slots, where the store is outside the array and
  the remainder divides by zero.
\<close>

definition cb_put :: "'a circular_buffer \<Rightarrow> 'a \<Rightarrow> 'a circular_buffer option" where
  "cb_put cb item =
     (if cb_head cb < length (cb_buf cb)
      then let cb = cb\<lparr>cb_buf := (cb_buf cb)[cb_head cb := item]\<rparr>;
               cb = (if cb_full cb then cb\<lparr>cb_tail := (cb_tail cb + 1) mod cb_max_size cb\<rparr> else cb);
               cb = cb\<lparr>cb_head := (cb_head cb + 1) mod cb_max_size cb\<rparr>
           in Some (cb\<lparr>cb_full := (cb_head cb = cb_tail cb)\<rparr>)
      else None)"

text \<open>
  \<^verbatim>\<open>get\<close> moves the element out; \<open>moved\<close> is the state a moved-from \<^verbatim>\<open>T\<close> is left in (null
  for the \<^verbatim>\<open>shared_ptr\<close> instances of the program).
\<close>

definition cb_get :: "'a \<Rightarrow> 'a \<Rightarrow> 'a circular_buffer \<Rightarrow> 'a \<times> 'a circular_buffer" where
  "cb_get t0 moved cb =
     (if cb_empty cb then (t0, cb)
      else let val = cb_buf cb ! cb_tail cb;
               cb = cb\<lparr>cb_buf := (cb_buf cb)[cb_tail cb := moved]\<rparr>;
               cb = cb\<lparr>cb_full := False\<rparr>
           in (val, cb\<lparr>cb_tail := (cb_tail cb + 1) mod cb_max_size cb\<rparr>))"

definition cb_reset :: "'a circular_buffer \<Rightarrow> 'a circular_buffer" where
  "cb_reset cb = cb\<lparr>cb_head := cb_tail cb, cb_full := False\<rparr>"

definition cb_invar :: "'a circular_buffer \<Rightarrow> bool" where
  "cb_invar cb \<longleftrightarrow> 0 < cb_max_size cb \<and> length (cb_buf cb) = cb_max_size cb \<and>
     cb_head cb < cb_max_size cb \<and> cb_tail cb < cb_max_size cb \<and> (cb_full cb \<longrightarrow> cb_head cb = cb_tail cb)"

definition cb_contents :: "'a circular_buffer \<Rightarrow> 'a list" where
  "cb_contents cb = map (\<lambda>i. cb_buf cb ! ((cb_tail cb + i) mod cb_max_size cb)) [0..<cb_size cb]"

section \<open>The ring implements the queue\<close>

lemma mod_add_inj:
  assumes "(t + i) mod m = (t + j) mod m" and "i < m" and "j < m"
  shows "i = (j::nat)"
proof (rule ccontr)
  assume "i \<noteq> j"
  then have "m dvd (if i < j then j - i else i - j)"
    using assms(1) mod_eq_dvd_iff_nat [of "t + i" "t + j" m] mod_eq_dvd_iff_nat [of "t + j" "t + i" m]
    by auto
  then show False using assms(2,3) \<open>i \<noteq> j\<close> by (auto dest!: dvd_imp_le split: if_splits)
qed

lemma length_cb_contents [simp]: "length (cb_contents cb) = cb_size cb"
  by (simp add: cb_contents_def)

lemma nth_cb_contents:
  "i < cb_size cb \<Longrightarrow> cb_contents cb ! i = cb_buf cb ! ((cb_tail cb + i) mod cb_max_size cb)"
  by (simp add: cb_contents_def)

lemma cb_size_le: "cb_invar cb \<Longrightarrow> cb_size cb \<le> cb_max_size cb"
  by (auto simp: cb_invar_def cb_size_def)

lemma cb_max_pos: "cb_invar cb \<Longrightarrow> 0 < cb_max_size cb"
  by (simp add: cb_invar_def)

lemma cb_head_eq: "cb_invar cb \<Longrightarrow> cb_head cb = (cb_tail cb + cb_size cb) mod cb_max_size cb"
  by (auto simp: cb_invar_def cb_size_def)

lemma cb_size_0_iff: "cb_invar cb \<Longrightarrow> cb_size cb = 0 \<longleftrightarrow> cb_empty cb"
  by (auto simp: cb_invar_def cb_size_def cb_empty_def)

lemma cb_full_iff: "cb_invar cb \<Longrightarrow> cb_full cb \<longleftrightarrow> cb_size cb = cb_max_size cb"
  by (auto simp: cb_invar_def cb_size_def split: if_splits)

lemma cb_size_put_space:
  assumes "cb_invar cb" and "\<not> cb_full cb" and "cb_put cb x = Some cb'"
  shows "cb_size cb' = Suc (cb_size cb)"
  using assms
  by (auto simp: cb_invar_def cb_put_def cb_size_def Let_def mod_Suc split: if_splits)

lemma cb_put_invar:
  assumes "cb_invar cb"
  shows "\<exists>cb'. cb_put cb x = Some cb' \<and> cb_invar cb' \<and> cb_max_size cb' = cb_max_size cb"
  using assms by (auto simp: cb_invar_def cb_put_def Let_def)

lemma cb_put_contents_space:
  assumes inv: "cb_invar cb" and nf: "\<not> cb_full cb" and put: "cb_put cb x = Some cb'"
  shows "cb_contents cb' = cb_contents cb @ [x]"
proof (rule nth_equalityI)
  have sz: "cb_size cb' = Suc (cb_size cb)" using assms by (rule cb_size_put_space)
  have lt: "cb_size cb < cb_max_size cb"
    using cb_size_le [OF inv] cb_full_iff [OF inv] nf by simp
  have buf: "cb_buf cb' = (cb_buf cb)[cb_head cb := x]" "cb_tail cb' = cb_tail cb"
    "cb_max_size cb' = cb_max_size cb"
    using put nf by (auto simp: cb_put_def Let_def split: if_splits)
  have h: "cb_head cb < length (cb_buf cb)" using inv by (simp add: cb_invar_def)
  show "length (cb_contents cb') = length (cb_contents cb @ [x])" using sz by simp
  fix i assume "i < length (cb_contents cb')"
  then have i: "i \<le> cb_size cb" using sz by simp
  show "cb_contents cb' ! i = (cb_contents cb @ [x]) ! i"
  proof (cases "i = cb_size cb")
    case True
    then show ?thesis
      using sz h by (simp add: nth_cb_contents buf cb_head_eq [OF inv, symmetric] nth_append)
  next
    case False
    then have "i < cb_size cb" using i by simp
    moreover have "(cb_tail cb + i) mod cb_max_size cb \<noteq> cb_head cb"
      using mod_add_inj [of "cb_tail cb" i "cb_max_size cb" "cb_size cb"] False lt i
      by (auto simp: cb_head_eq [OF inv])
    ultimately show ?thesis
      using sz by (simp add: nth_cb_contents buf nth_append)
  qed
qed

lemma cb_put_contents_full:
  assumes inv: "cb_invar cb" and f: "cb_full cb" and put: "cb_put cb x = Some cb'"
  shows "cb_contents cb' = tl (cb_contents cb) @ [x]"
proof (rule nth_equalityI)
  define m where "m = cb_max_size cb"
  have fs: "0 < m" "cb_head cb = cb_tail cb" "cb_head cb < m" "length (cb_buf cb) = m"
    using inv f by (auto simp: cb_invar_def m_def)
  have new: "cb_buf cb' = (cb_buf cb)[cb_tail cb := x]" "cb_tail cb' = (cb_tail cb + 1) mod m"
    "cb_max_size cb' = m" "cb_full cb'"
    using put f fs by (auto simp: cb_put_def Let_def m_def split: if_splits)
  have sz: "cb_size cb' = m" "cb_size cb = m" using new f by (simp_all add: cb_size_def m_def)
  show "length (cb_contents cb') = length (tl (cb_contents cb) @ [x])" using sz fs by simp
  fix i assume "i < length (cb_contents cb')"
  then have i: "i < m" using sz by simp
  have at: "cb_contents cb' ! i = (cb_buf cb)[cb_tail cb := x] ! ((cb_tail cb + Suc i) mod m)"
    using i by (simp add: nth_cb_contents sz new mod_add_left_eq)
  show "cb_contents cb' ! i = (tl (cb_contents cb) @ [x]) ! i"
  proof (cases "Suc i = m")
    case True
    then show ?thesis using fs at sz by (auto simp: nth_append)
  next
    case False
    then have "(cb_tail cb + Suc i) mod m \<noteq> cb_tail cb"
      using mod_add_inj [of "cb_tail cb" "Suc i" m 0] fs i by auto
    moreover have "i < m - 1" using False i by simp
    ultimately show ?thesis
      using False i at sz by (simp add: nth_append nth_tl nth_cb_contents m_def)
  qed
qed

lemma cb_get_Cons:
  assumes inv: "cb_invar cb" and c: "cb_contents cb = x # xs"
  shows "\<exists>cb'. cb_get t0 moved cb = (x, cb') \<and> cb_invar cb' \<and> cb_max_size cb' = cb_max_size cb \<and>
    cb_contents cb' = xs"
proof -
  obtain v cb' where get: "cb_get t0 moved cb = (v, cb')" by (cases "cb_get t0 moved cb") auto
  have pos: "0 < cb_size cb" using c length_cb_contents [of cb] by simp
  then have ne: "\<not> cb_empty cb" using cb_size_0_iff [OF inv] by simp
  define m where "m = cb_max_size cb"
  have new: "cb_buf cb' = (cb_buf cb)[cb_tail cb := moved]" "cb_tail cb' = (cb_tail cb + 1) mod m"
    "cb_max_size cb' = m" "\<not> cb_full cb'" "cb_head cb' = cb_head cb" "v = cb_buf cb ! cb_tail cb"
    using get ne by (auto simp: cb_get_def Let_def m_def)
  have inv': "cb_invar cb'" using inv new by (simp add: cb_invar_def m_def)
  have vx: "v = x"
    using nth_cb_contents [of 0 cb] pos c inv new by (simp add: cb_invar_def)
  have sz: "cb_size cb' = cb_size cb - 1"
    using inv new ne by (auto simp: cb_size_def cb_invar_def m_def cb_empty_def mod_Suc split: if_splits)
  have "cb_contents cb' = tl (cb_contents cb)"
  proof (rule nth_equalityI)
    show "length (cb_contents cb') = length (tl (cb_contents cb))" by (simp add: sz)
    fix i assume "i < length (cb_contents cb')"
    then have i: "Suc i < cb_size cb" using sz by simp
    then have "(cb_tail cb + Suc i) mod m \<noteq> cb_tail cb"
      using mod_add_inj [of "cb_tail cb" "Suc i" m 0] cb_size_le [OF inv] inv
      by (auto simp: cb_invar_def m_def)
    then show "cb_contents cb' ! i = tl (cb_contents cb) ! i"
      using i sz by (simp add: nth_cb_contents nth_tl new mod_add_left_eq m_def)
  qed
  then show ?thesis using get vx inv' new c by (simp add: m_def)
qed

lemma cb_get_Nil: "cb_invar cb \<Longrightarrow> cb_contents cb = [] \<Longrightarrow> cb_get t0 moved cb = (t0, cb)"
  using cb_size_0_iff [of cb] length_cb_contents [of cb] by (simp add: cb_get_def)

lemma cb_put_law:
  assumes inv: "cb_invar cb"
  shows "\<exists>cb'. cb_put cb x = Some cb' \<and> cb_invar cb' \<and> cb_max_size cb' = cb_max_size cb \<and>
    cb_contents cb' = push_bounded (cb_max_size cb) (cb_contents cb) x"
  using cb_put_invar [OF inv, of x] cb_put_contents_space [OF inv] cb_put_contents_full [OF inv]
    cb_full_iff [OF inv]
  by (cases "cb_full cb") (auto simp: push_bounded_def)

interpretation ring: bounded_queue cb_put "cb_get t0 moved" t0 cb_max_size cb_contents cb_invar
  for t0 moved
  by unfold_locales
    (simp_all add: cb_put_law cb_get_Nil cb_get_Cons cb_size_le cb_max_pos)

lemma cb_new_invar: "0 < n \<Longrightarrow> cb_invar (cb_new t0 n)"
  by (simp add: cb_invar_def cb_new_def)

lemma cb_new_contents: "cb_contents (cb_new t0 n) = []"
  by (simp add: cb_contents_def cb_size_def cb_new_def)

lemma cb_new_max [simp]: "cb_max_size (cb_new t0 n) = n"
  by (simp add: cb_new_def)

lemma cb_reset_invar: "cb_invar cb \<Longrightarrow> cb_invar (cb_reset cb)"
  by (simp add: cb_invar_def cb_reset_def)

lemma cb_reset_contents: "cb_contents (cb_reset cb) = []"
  by (simp add: cb_contents_def cb_size_def cb_reset_def)

end
