(* ===== verification/Packet_Factory.thy ===== *)
theory Packet_Factory
  imports Packets Std_Map Circular_Buffer "HOL-Library.Multiset"
begin

text \<open>
  \<^verbatim>\<open>PacketMethodFactory\<close> of \<^verbatim>\<open>UDP01/OldCode/Packets/PacketFactory.h/.cpp\<close>: the registry of
  packet classes and the pools of preallocated packets.

  A \<^verbatim>\<open>shared_ptr<IPacketSerializable>\<close> is an address option; the objects live in \<open>heap\<close>,
  where the address is the position and a new object is appended (the reference count and
  the reuse of freed memory are not modelled). A \<^verbatim>\<open>TCreateMethod\<close> function pointer is the
  class whose \<^verbatim>\<open>CreateMethod\<close> it is. \<open>junk a\<close> is what the memory at \<open>a\<close> held before an
  object is constructed there. In a debug build \<^verbatim>\<open>_ASSERT(0)\<close> stops the program, otherwise
  it is nothing: \<open>debug\<close> says which build it is.
\<close>

section \<open>State and operations\<close>

type_synonym addr = nat
type_synonym pointer = "addr option"
type_synonym type_pair = "U8 \<times> U8"

record factory =
  s_methods :: "(string, packet_class) std_map"
  s_allocationMethods :: "(type_pair, packet_class) std_map"
  s_creationPool :: "(type_pair, pointer circular_buffer) std_map"
  heap :: "packet list"

definition factory_0 :: factory where
  "factory_0 = \<lparr>s_methods = [], s_allocationMethods = [], s_creationPool = [], heap = []\<rparr>"

definition Register :: "string \<Rightarrow> U8 \<Rightarrow> U8 \<Rightarrow> packet_class \<Rightarrow> factory \<Rightarrow> bool \<times> factory" where
  "Register name type subType funcCreate f =
     (let success = False;
          matchPair = (type, subType);
          (success, f) =
            (if map_find (s_allocationMethods f) matchPair = None
             then (True, f\<lparr>s_allocationMethods := map_set matchPair funcCreate (s_allocationMethods f)\<rparr>)
             else (success, f))
      in if map_find (s_methods f) name = None
         then (True, f\<lparr>s_methods := map_set name funcCreate (s_methods f)\<rparr>)
         else (success, f))"

definition Allocate :: "(addr \<Rightarrow> U16) \<Rightarrow> U8 \<Rightarrow> U8 \<Rightarrow> factory \<Rightarrow> pointer \<times> factory" where
  "Allocate junk type subType f =
     (case map_find (s_allocationMethods f) (type, subType) of
        Some funcCreate \<Rightarrow>
          let a = length (heap f)
          in (Some a, f\<lparr>heap := heap f @ [CreateMethod (junk a) funcCreate]\<rparr>)
      | None \<Rightarrow> (None, f))"

definition IsPoolAlreadyAllocated :: "type_pair \<Rightarrow> factory \<Rightarrow> bool" where
  "IsPoolAlreadyAllocated typePair f \<longleftrightarrow> map_find (s_creationPool f) typePair \<noteq> None"

definition numToCreate :: nat where "numToCreate = 100"

text \<open>The inner loop of \<^verbatim>\<open>InitFactory\<close>.\<close>

fun fill_pool ::
  "(addr \<Rightarrow> U16) \<Rightarrow> nat \<Rightarrow> type_pair \<Rightarrow> pointer circular_buffer \<Rightarrow> factory \<Rightarrow>
     (pointer circular_buffer \<times> factory) res" where
  "fill_pool junk 0 typePair buff f = Inr (buff, f)"
| "fill_pool junk (Suc n) typePair buff f =
     (let (ptr, f) = Allocate junk (fst typePair) (snd typePair) f
      in and_then (from_option OutOfBounds (cb_put buff ptr))
           (\<lambda>buff. fill_pool junk n typePair buff f))"

text \<open>The outer loop: the allocation methods from an iterator position on.\<close>

fun init_pools ::
  "(addr \<Rightarrow> U16) \<Rightarrow> (type_pair, packet_class) std_map \<Rightarrow> factory \<Rightarrow> factory res" where
  "init_pools junk [] f = Inr f"
| "init_pools junk ((typePair, method) # it) f =
     (if IsPoolAlreadyAllocated typePair f then init_pools junk it f
      else and_then (fill_pool junk numToCreate typePair (cb_new None numToCreate) f)
        (\<lambda>(buff, f). init_pools junk it
           (f\<lparr>s_creationPool := map_set typePair buff (s_creationPool f)\<rparr>)))"

definition InitFactory :: "(addr \<Rightarrow> U16) \<Rightarrow> factory \<Rightarrow> factory res" where
  "InitFactory junk f = init_pools junk (s_allocationMethods f) f"

definition Shutdown :: "factory \<Rightarrow> factory" where
  "Shutdown f = f\<lparr>s_methods := [], s_creationPool := [], s_allocationMethods := []\<rparr>"

text \<open>\<^verbatim>\<open>data.get()->GetType()\<close>; an address is a position of the heap by construction.\<close>

definition deref :: "factory \<Rightarrow> pointer \<Rightarrow> packet res" where
  "deref f p = (case p of None \<Rightarrow> Inl NullDeref
     | Some a \<Rightarrow> if a < length (heap f) then Inr (heap f ! a) else Inl OutOfBounds)"

text \<open>
  \<^verbatim>\<open>Release\<close> takes its pointer by reference: the result has the answer, what the caller's
  pointer is afterwards (null when it was moved into the pool), and the new state.
\<close>

definition Release :: "pointer \<Rightarrow> factory \<Rightarrow> (bool \<times> pointer \<times> factory) res" where
  "Release data f = and_then (deref f data) (\<lambda>p.
     case map_find (s_creationPool f) (GetType p, GetSubType p) of
       Some pool \<Rightarrow> and_then (from_option OutOfBounds (cb_put pool data)) (\<lambda>pool.
         Inr (True, None,
           f\<lparr>s_creationPool := map_set (GetType p, GetSubType p) pool (s_creationPool f)\<rparr>))
     | None \<Rightarrow> Inr (False, data, f))"

definition Create :: "bool \<Rightarrow> U8 \<Rightarrow> U8 \<Rightarrow> factory \<Rightarrow> (pointer \<times> factory) res" where
  "Create debug type subType f =
     (case map_find (s_creationPool f) (type, subType) of
        Some pool \<Rightarrow>
          let (ptr, pool) = cb_get None None pool
          in Inr (ptr, f\<lparr>s_creationPool := map_set (type, subType) pool (s_creationPool f)\<rparr>)
      | None \<Rightarrow> if debug then Inl AssertFailed else Inr (None, f))"

definition Create_by_name :: "bool \<Rightarrow> (addr \<Rightarrow> U16) \<Rightarrow> string \<Rightarrow> factory \<Rightarrow> (pointer \<times> factory) res" where
  "Create_by_name debug junk name f =
     (case map_find (s_methods f) name of
        Some funcCreate \<Rightarrow>
          let temp = CreateMethod (junk (length (heap f))) funcCreate
          in Create debug (GetType temp) (GetSubType temp) f
      | None \<Rightarrow> Inr (None, f))"

text \<open>\<^verbatim>\<open>SelfRegistery\<close>: the static initialisers, in the order of the file.\<close>

definition register_class :: "packet_class \<Rightarrow> factory \<Rightarrow> factory" where
  "register_class c f = snd (Register (class_Name c) (class_Type c) (class_SubType c) c f)"

definition self_registered :: factory where
  "self_registered = fold register_class
     [C_BasePacket, C_ConnectionCommsPacket, C_PositionPacket, C_MovementPacket] factory_0"

section \<open>Registration\<close>

abbreviation class_key :: "packet_class \<Rightarrow> type_pair" where
  "class_key c \<equiv> (class_Type c, class_SubType c)"

abbreviation key_of :: "packet \<Rightarrow> type_pair" where
  "key_of p \<equiv> (GetType p, GetSubType p)"

lemma key_of_class: "key_of p = class_key (class_of p)"
  by (simp add: GetType_def GetSubType_def)

lemma class_of_CreateMethod [simp]: "class_of (CreateMethod j c) = c"
  by (cases c) simp_all

lemma key_of_CreateMethod [simp]:
  "GetType (CreateMethod j c) = class_Type c" "GetSubType (CreateMethod j c) = class_SubType c"
  by (simp_all add: GetType_def GetSubType_def)

lemma Register_result:
  "fst (Register name t st c f) \<longleftrightarrow>
     map_find (s_allocationMethods f) (t, st) = None \<or> map_find (s_methods f) name = None"
  by (auto simp: Register_def Let_def)

lemma Register_maps:
  "s_allocationMethods (snd (Register name t st c f)) =
     (if map_find (s_allocationMethods f) (t, st) = None
      then map_set (t, st) c (s_allocationMethods f) else s_allocationMethods f)"
  "s_methods (snd (Register name t st c f)) =
     (if map_find (s_methods f) name = None then map_set name c (s_methods f) else s_methods f)"
  "s_creationPool (snd (Register name t st c f)) = s_creationPool f"
  "heap (snd (Register name t st c f)) = heap f"
  by (simp_all add: Register_def Let_def)

lemma Register_find:
  assumes "map_ok (s_allocationMethods f)" and "map_ok (s_methods f)"
  shows "map_find (s_allocationMethods (snd (Register name t st c f))) k =
      (case map_find (s_allocationMethods f) k of
         Some x \<Rightarrow> Some x | None \<Rightarrow> if k = (t, st) then Some c else None)"
    and "map_find (s_methods (snd (Register name t st c f))) n =
      (case map_find (s_methods f) n of
         Some x \<Rightarrow> Some x | None \<Rightarrow> if n = name then Some c else None)"
  unfolding Register_maps
  by (rule stdm.look_store_absent [OF assms(1)], rule stdm.look_store_absent [OF assms(2)])

section \<open>Initialisation\<close>

lemma Allocate_known:
  "map_find (s_allocationMethods f) (t, st) = Some c \<Longrightarrow>
     Allocate junk t st f =
       (Some (length (heap f)), f\<lparr>heap := heap f @ [CreateMethod (junk (length (heap f))) c]\<rparr>)"
  by (simp add: Allocate_def Let_def)

text \<open>The objects that \<open>n\<close> allocations of one class append to the heap.\<close>

definition fresh_objects :: "(addr \<Rightarrow> U16) \<Rightarrow> packet_class \<Rightarrow> addr \<Rightarrow> nat \<Rightarrow> packet list" where
  "fresh_objects junk c a n = map (\<lambda>i. CreateMethod (junk i) c) [a..<a + n]"

lemma length_fresh_objects [simp]: "length (fresh_objects junk c a n) = n"
  by (simp add: fresh_objects_def)

lemma class_of_fresh_objects [simp]: "i < n \<Longrightarrow> class_of (fresh_objects junk c a n ! i) = c"
  by (simp add: fresh_objects_def)

lemma fresh_objects_Suc:
  "fresh_objects junk c a (Suc n) = CreateMethod (junk a) c # fresh_objects junk c (Suc a) n"
  by (simp add: fresh_objects_def upt_conv_Cons del: upt_Suc)

lemma fill_pool_fills:
  "map_find (s_allocationMethods f) k = Some c \<Longrightarrow> cb_invar buff \<Longrightarrow>
     cb_size buff + n \<le> cb_max_size buff \<Longrightarrow>
     \<exists>buff'. fill_pool junk n k buff f =
         Inr (buff', f\<lparr>heap := heap f @ fresh_objects junk c (length (heap f)) n\<rparr>) \<and>
       cb_invar buff' \<and> cb_max_size buff' = cb_max_size buff \<and>
       cb_contents buff' = cb_contents buff @ map Some [length (heap f)..<length (heap f) + n]"
proof (induction n arbitrary: buff f)
  case 0
  then show ?case by (simp add: fresh_objects_def)
next
  case (Suc n)
  let ?a = "length (heap f)"
  let ?f = "f\<lparr>heap := heap f @ [CreateMethod (junk ?a) c]\<rparr>"
  have "length (cb_contents buff) < cb_max_size buff" using Suc.prems(3) by simp
  from ring.put_space [OF Suc.prems(2) this, of "Some ?a"]
  obtain b where b: "cb_put buff (Some ?a) = Some b" "cb_invar b" "cb_max_size b = cb_max_size buff"
    "cb_contents b = cb_contents buff @ [Some ?a]" by blast
  have "cb_size b = Suc (cb_size buff)" using b(4) length_cb_contents by (metis length_append_singleton)
  then have "cb_size b + n \<le> cb_max_size b" using Suc.prems(3) b(3) by simp
  moreover have "map_find (s_allocationMethods ?f) k = Some c" using Suc.prems(1) by simp
  ultimately obtain b' where b': "fill_pool junk n k b ?f =
      Inr (b', ?f\<lparr>heap := heap ?f @ fresh_objects junk c (length (heap ?f)) n\<rparr>)"
    "cb_invar b'" "cb_max_size b' = cb_max_size b"
    "cb_contents b' = cb_contents b @ map Some [length (heap ?f)..<length (heap ?f) + n]"
    using Suc.IH [of ?f b] b(2) by blast
  have "Allocate junk (fst k) (snd k) f = (Some ?a, ?f)"
    using Allocate_known Suc.prems(1) by (metis prod.collapse)
  then have "fill_pool junk (Suc n) k buff f = fill_pool junk n k b ?f" by (simp add: b(1))
  then show ?case
    using b b' by (simp add: fresh_objects_Suc upt_conv_Cons del: upt_Suc)
qed

text \<open>A pool as \<^verbatim>\<open>InitFactory\<close> makes it: 100 consecutive fresh objects of one class.\<close>

definition fresh_pool :: "factory \<Rightarrow> type_pair \<Rightarrow> packet_class \<Rightarrow> bool" where
  "fresh_pool f k c \<longleftrightarrow> (\<exists>pool a. map_find (s_creationPool f) k = Some pool \<and>
     cb_contents pool = map Some [a..<a + numToCreate] \<and> a + numToCreate \<le> length (heap f) \<and>
     (\<forall>i\<in>{a..<a + numToCreate}. class_of (heap f ! i) = c))"

text \<open>All pointers that stand in some pool.\<close>

definition pooled :: "factory \<Rightarrow> pointer list" where
  "pooled f = concat (map (\<lambda>(k, pool). cb_contents pool) (s_creationPool f))"

text \<open>The invariant: the maps are maps, and a pool holds objects of its own type only.\<close>

definition pool_ok :: "packet list \<Rightarrow> type_pair \<Rightarrow> pointer circular_buffer \<Rightarrow> bool" where
  "pool_ok h k pool \<longleftrightarrow> cb_invar pool \<and> cb_max_size pool = numToCreate \<and>
     (\<forall>p\<in>set (cb_contents pool). \<exists>a<length h. p = Some a \<and> key_of (h ! a) = k)"

definition factory_ok :: "factory \<Rightarrow> bool" where
  "factory_ok f \<longleftrightarrow>
     map_ok (s_methods f) \<and> map_ok (s_allocationMethods f) \<and> map_ok (s_creationPool f) \<and>
     (\<forall>k c. map_find (s_allocationMethods f) k = Some c \<longrightarrow> class_key c = k) \<and>
     (\<forall>k pool. map_find (s_creationPool f) k = Some pool \<longrightarrow> pool_ok (heap f) k pool)"

lemma factory_okD [dest]:
  assumes "factory_ok f"
  shows "map_ok (s_methods f)" "map_ok (s_allocationMethods f)" "map_ok (s_creationPool f)"
    "\<And>k c. map_find (s_allocationMethods f) k = Some c \<Longrightarrow> class_key c = k"
    "\<And>k pool. map_find (s_creationPool f) k = Some pool \<Longrightarrow> pool_ok (heap f) k pool"
  using assms unfolding factory_ok_def by blast+

lemma pool_okD:
  assumes "pool_ok h k pool"
  shows "cb_invar pool" "cb_max_size pool = numToCreate"
    "\<And>p. p \<in> set (cb_contents pool) \<Longrightarrow> \<exists>a<length h. p = Some a \<and> key_of (h ! a) = k"
  using assms unfolding pool_ok_def by blast+

lemma pool_ok_mono: "pool_ok h k pool \<Longrightarrow> pool_ok (h @ h') k pool"
  unfolding pool_ok_def by (fastforce simp: nth_append)

text \<open>Replacing one pool replaces its share of the pooled pointers.\<close>

lemma pooled_set:
  "map_ok m \<Longrightarrow>
     mset (concat (map (\<lambda>(k, pool). cb_contents pool) (map_set k new m))) +
       (case map_find m k of Some old \<Rightarrow> mset (cb_contents old) | None \<Rightarrow> {#}) =
     mset (concat (map (\<lambda>(k, pool). cb_contents pool) m)) + mset (cb_contents new)"
proof (induction k new m rule: map_set.induct)
  case (1 k v)
  then show ?case by simp
next
  case (2 k v j w m)
  have "k < j \<Longrightarrow> map_find m k = None"
    using 2(2) map_find_keys [of m k] by fastforce
  then show ?case using 2 by (auto simp: map_find_Cons)
qed

lemma pooled_update:
  assumes "factory_ok f" and "map_find (s_creationPool f) k = Some old"
    and "s_creationPool f' = map_set k new (s_creationPool f)"
  shows "mset (pooled f') + mset (cb_contents old) = mset (pooled f) + mset (cb_contents new)"
  using pooled_set [OF factory_okD(3) [OF assms(1)], of k new] assms(2,3) by (simp add: pooled_def)

lemma init_pool_step:
  assumes ok: "factory_ok f" and c: "map_find (s_allocationMethods f) k = Some c"
    and new: "map_find (s_creationPool f) k = None"
  shows "\<exists>pool f'. fill_pool junk numToCreate k (cb_new None numToCreate) f =
        Inr (pool, f\<lparr>heap := heap f @ fresh_objects junk c (length (heap f)) numToCreate\<rparr>) \<and>
      f' = f\<lparr>heap := heap f @ fresh_objects junk c (length (heap f)) numToCreate,
             s_creationPool := map_set k pool (s_creationPool f)\<rparr> \<and>
      factory_ok f' \<and> fresh_pool f' k c \<and>
      mset (pooled f') = mset (pooled f) + mset (map Some [length (heap f)..<length (heap f')])"
proof -
  let ?n = "length (heap f)"
  let ?h = "heap f @ fresh_objects junk c ?n numToCreate"
  have pos: "0 < numToCreate" by (simp add: numToCreate_def)
  have "cb_size (cb_new None numToCreate) = 0"
    using length_cb_contents by (metis cb_new_contents list.size(3))
  then obtain pool where pool: "fill_pool junk numToCreate k (cb_new None numToCreate) f =
        Inr (pool, f\<lparr>heap := ?h\<rparr>)"
      "cb_invar pool" "cb_max_size pool = numToCreate"
      "cb_contents pool = map Some [?n..<?n + numToCreate]"
    using fill_pool_fills [OF c cb_new_invar [OF pos], where n = numToCreate and junk = junk]
    by (auto simp: cb_new_contents)
  define f' where "f' = f\<lparr>heap := ?h, s_creationPool := map_set k pool (s_creationPool f)\<rparr>"
  have cls: "class_of (?h ! i) = c" if "i \<in> {?n..<?n + numToCreate}" for i
    using that by (auto simp: nth_append)
  have key: "class_key c = k" using factory_okD(4) [OF ok c] .
  have pk: "pool_ok ?h k pool"
    unfolding pool_ok_def using pool cls key by (auto simp: key_of_class)
  have ok': "factory_ok f'"
    unfolding factory_ok_def f'_def
    using factory_okD [OF ok] pk by (auto simp: map_find_set map_set_ok pool_ok_mono)
  have fr: "fresh_pool f' k c"
    unfolding fresh_pool_def f'_def using pool cls by (auto simp: map_find_set)
  have "mset (pooled f') = mset (pooled f) + mset (cb_contents pool)"
    using pooled_set [OF factory_okD(3) [OF ok], of k pool] new by (simp add: pooled_def f'_def)
  then show ?thesis using pool ok' fr unfolding f'_def by (intro exI conjI) (auto simp: pool(4))
qed

text \<open>What \<^verbatim>\<open>InitFactory\<close> keeps and what it adds.\<close>

definition extends_factory :: "factory \<Rightarrow> factory \<Rightarrow> bool" where
  "extends_factory f f' \<longleftrightarrow>
     s_methods f' = s_methods f \<and> s_allocationMethods f' = s_allocationMethods f \<and>
     (\<exists>h. heap f' = heap f @ h) \<and>
     (\<forall>k pool. map_find (s_creationPool f) k = Some pool \<longrightarrow>
        map_find (s_creationPool f') k = Some pool) \<and>
     mset (pooled f') = mset (pooled f) + mset (map Some [length (heap f)..<length (heap f')])"

lemma extends_refl: "extends_factory f f"
  by (simp add: extends_factory_def)

lemma upt_mset_split: "a \<le> b \<Longrightarrow> b \<le> c \<Longrightarrow>
    mset (map Some [a..<c]) = mset (map Some [a..<b]) + mset (map Some [b..<c])"
  by (metis le_Suc_ex map_append mset_append upt_add_eq_append)

lemma extends_trans:
  assumes "extends_factory f g" and "extends_factory g h"
  shows "extends_factory f h"
proof -
  have "length (heap f) \<le> length (heap g)" "length (heap g) \<le> length (heap h)"
    using assms unfolding extends_factory_def by auto
  from upt_mset_split [OF this] show ?thesis
    using assms unfolding extends_factory_def by (auto simp: add.assoc)
qed

lemma fresh_pool_extends:
  assumes "fresh_pool f k c" and "extends_factory f g"
  shows "fresh_pool g k c"
proof -
  obtain pool a where p: "map_find (s_creationPool f) k = Some pool"
    "cb_contents pool = map Some [a..<a + numToCreate]" "a + numToCreate \<le> length (heap f)"
    "\<forall>i\<in>{a..<a + numToCreate}. class_of (heap f ! i) = c"
    using assms(1) unfolding fresh_pool_def by blast
  obtain h where h: "heap g = heap f @ h"
    using assms(2) unfolding extends_factory_def by blast
  have "map_find (s_creationPool g) k = Some pool"
    using assms(2) p(1) unfolding extends_factory_def by blast
  then show ?thesis
    unfolding fresh_pool_def using p h by (intro exI [of _ pool] exI [of _ a]) (auto simp: nth_append)
qed

lemma init_pools_ok:
  "factory_ok f \<Longrightarrow> (\<forall>(k, c)\<in>set it. map_find (s_allocationMethods f) k = Some c) \<Longrightarrow>
     distinct (map fst it) \<Longrightarrow>
     \<exists>f'. init_pools junk it f = Inr f' \<and> factory_ok f' \<and> extends_factory f f' \<and>
       (\<forall>(k, c)\<in>set it. map_find (s_creationPool f) k = None \<longrightarrow> fresh_pool f' k c)"
proof (induction it arbitrary: f)
  case Nil
  then show ?case by (simp add: extends_refl)
next
  case (Cons kc it)
  obtain k c where kc: "kc = (k, c)" by (cases kc)
  show ?case
  proof (cases "map_find (s_creationPool f) k")
    case (Some pool)
    then show ?thesis using Cons.IH [of f] Cons.prems by (auto simp: kc IsPoolAlreadyAllocated_def)
  next
    case None
    have "map_find (s_allocationMethods f) k = Some c" using Cons.prems(2) kc by simp
    from init_pool_step [OF Cons.prems(1) this None, where junk = junk]
    obtain pool g where g: "fill_pool junk numToCreate k (cb_new None numToCreate) f =
        Inr (pool, f\<lparr>heap := heap f @ fresh_objects junk c (length (heap f)) numToCreate\<rparr>)"
      "g = f\<lparr>heap := heap f @ fresh_objects junk c (length (heap f)) numToCreate,
             s_creationPool := map_set k pool (s_creationPool f)\<rparr>"
      "factory_ok g" "fresh_pool g k c"
      "mset (pooled g) = mset (pooled f) + mset (map Some [length (heap f)..<length (heap g)])"
      by blast
    have ext: "extends_factory f g"
      unfolding extends_factory_def using g(5) None by (auto simp: g(2) map_find_set)
    have "init_pools junk (kc # it) f = init_pools junk it g"
      using None g(1) by (simp add: kc IsPoolAlreadyAllocated_def g(2))
    moreover have "\<forall>(k, c)\<in>set it. map_find (s_allocationMethods g) k = Some c"
      using Cons.prems(2) by (simp add: g(2))
    then obtain f' where f': "init_pools junk it g = Inr f'" "factory_ok f'" "extends_factory g f'"
      "\<forall>(k, c)\<in>set it. map_find (s_creationPool g) k = None \<longrightarrow> fresh_pool f' k c"
      using Cons.IH [OF g(3)] Cons.prems(3) by auto
    moreover have "map_find (s_creationPool g) j = None"
      if "(j, d) \<in> set it" "map_find (s_creationPool f) j = None" for j d
      using that Cons.prems(3) by (auto simp: g(2) map_find_set kc image_iff)
    ultimately show ?thesis
      using extends_trans [OF ext f'(3)] fresh_pool_extends [OF g(4) f'(3)]
      by (auto simp: kc)
  qed
qed

lemma InitFactory_ok:
  assumes ok: "factory_ok f"
  shows "\<exists>f'. InitFactory junk f = Inr f' \<and> factory_ok f' \<and> extends_factory f f' \<and>
    (\<forall>k c. map_find (s_allocationMethods f) k = Some c \<longrightarrow> map_find (s_creationPool f) k = None \<longrightarrow>
       fresh_pool f' k c)"
proof -
  have m: "map_ok (s_allocationMethods f)" using factory_okD(2) [OF ok] .
  have "\<forall>(k, c)\<in>set (s_allocationMethods f). map_find (s_allocationMethods f) k = Some c"
    using map_find_mem [OF m] by auto
  from init_pools_ok [OF ok this map_ok_distinct [OF m], where junk = junk]
  show ?thesis unfolding InitFactory_def using map_find_mem [OF m] by fastforce
qed

section \<open>Create and Release\<close>

lemma factory_ok_0: "factory_ok factory_0"
  by (simp add: factory_ok_def factory_0_def)

lemma register_class_ok:
  assumes "factory_ok f" shows "factory_ok (register_class c f)"
  unfolding register_class_def factory_ok_def Register_maps
  using factory_okD [OF assms] by (auto simp: map_set_ok map_find_set)

lemma self_registered_ok: "factory_ok self_registered"
  unfolding self_registered_def by (simp add: register_class_ok factory_ok_0)

lemma register_class_find:
  assumes "factory_ok f"
  shows "map_find (s_allocationMethods (register_class c f)) k =
      (case map_find (s_allocationMethods f) k of
         Some x \<Rightarrow> Some x | None \<Rightarrow> if k = class_key c then Some c else None)"
    and "map_find (s_methods (register_class c f)) n =
      (case map_find (s_methods f) n of
         Some x \<Rightarrow> Some x | None \<Rightarrow> if n = class_Name c then Some c else None)"
  unfolding register_class_def
  using Register_find [OF factory_okD(2,1) [OF assms]] by blast+

lemmas class_key_defs = packet_type_code_def packet_type_value_def all_packet_types_def BasePacket_Type_def BasePacket_CommsHandshake_def
  ServerTick_Position_def ServerTick_Movement_def

lemma class_key_inj: "class_key c = class_key d \<longleftrightarrow> c = d"
  by (cases c; cases d) (simp_all add: class_key_defs)

lemma class_Name_inj: "class_Name c = class_Name d \<longleftrightarrow> c = d"
  by (cases c; cases d) simp_all

lemma self_registered_find:
  "map_find (s_allocationMethods self_registered) (class_key c) = Some c"
  "map_find (s_methods self_registered) (class_Name c) = Some c"
  "map_find (s_creationPool self_registered) k = None"
  "heap self_registered = []"
proof -
  show "map_find (s_allocationMethods self_registered) (class_key c) = Some c"
    unfolding self_registered_def
    by (cases c) (simp_all add: register_class_find register_class_ok factory_ok_0, simp_all
        add: factory_0_def class_key_defs)
  show "map_find (s_methods self_registered) (class_Name c) = Some c"
    unfolding self_registered_def
    by (cases c) (simp_all add: register_class_find register_class_ok factory_ok_0, simp_all
        add: factory_0_def)
qed (simp_all add: self_registered_def register_class_def Register_maps factory_0_def)

text \<open>\<^verbatim>\<open>Create\<close> takes the oldest pointer of the pool, or nothing when the pool is drained.\<close>

lemma Create_pool:
  assumes ok: "factory_ok f" and pool: "map_find (s_creationPool f) (t, st) = Some pool"
  shows "\<exists>pool' f'. Create debug t st f =
        Inr (if cb_contents pool = [] then None else hd (cb_contents pool), f') \<and>
      f' = f\<lparr>s_creationPool := map_set (t, st) pool' (s_creationPool f)\<rparr> \<and>
      cb_contents pool' = tl (cb_contents pool) \<and> factory_ok f'"
proof -
  have pk: "pool_ok (heap f) (t, st) pool" using factory_okD(5) [OF ok pool] .
  obtain ptr pool' where get: "cb_get None None pool = (ptr, pool')" by (cases "cb_get None None pool")
  note inv = pool_okD(1) [OF pk]
  have g: "ptr = (if cb_contents pool = [] then None else hd (cb_contents pool))"
    "cb_contents pool' = tl (cb_contents pool)" "cb_invar pool'" "cb_max_size pool' = cb_max_size pool"
    using ring.get_elem [OF inv get] ring.get_list [OF inv get] ring.get_invar [OF inv get] by simp_all
  have "pool_ok (heap f) (t, st) pool'"
    unfolding pool_ok_def using g pool_okD [OF pk] by (auto dest!: in_set_tlD)
  then have "factory_ok (f\<lparr>s_creationPool := map_set (t, st) pool' (s_creationPool f)\<rparr>)"
    unfolding factory_ok_def using factory_okD [OF ok] by (auto simp: map_find_set map_set_ok)
  moreover have "Create debug t st f = Inr (ptr, f\<lparr>s_creationPool := map_set (t, st) pool' (s_creationPool f)\<rparr>)"
    using get pool by (simp add: Create_def)
  ultimately show ?thesis using g by (intro exI [of _ pool'] exI) simp
qed

lemma Release_pool:
  assumes ok: "factory_ok f" and a: "a < length (heap f)"
    and pool: "map_find (s_creationPool f) (key_of (heap f ! a)) = Some pool"
  shows "\<exists>pool' f'. Release (Some a) f = Inr (True, None, f') \<and>
      f' = f\<lparr>s_creationPool := map_set (key_of (heap f ! a)) pool' (s_creationPool f)\<rparr> \<and>
      cb_contents pool' = push_bounded numToCreate (cb_contents pool) (Some a) \<and> factory_ok f'"
proof -
  let ?k = "key_of (heap f ! a)"
  have pk: "pool_ok (heap f) ?k pool" using factory_okD(5) [OF ok pool] .
  obtain pool' where put: "cb_put pool (Some a) = Some pool'" "cb_invar pool'"
    "cb_max_size pool' = cb_max_size pool"
    "cb_contents pool' = push_bounded (cb_max_size pool) (cb_contents pool) (Some a)"
    using ring.put_law [OF pool_okD(1) [OF pk], of "Some a"] by blast
  have "\<forall>p\<in>set (cb_contents pool'). p = Some a \<or> p \<in> set (cb_contents pool)"
    using put(4) by (auto simp: push_bounded_def dest: in_set_tlD split: if_splits)
  then have "pool_ok (heap f) ?k pool'"
    unfolding pool_ok_def using put pool_okD [OF pk] a by auto
  then have "factory_ok (f\<lparr>s_creationPool := map_set ?k pool' (s_creationPool f)\<rparr>)"
    unfolding factory_ok_def using factory_okD [OF ok] by (auto simp: map_find_set map_set_ok)
  moreover have "Release (Some a) f =
      Inr (True, None, f\<lparr>s_creationPool := map_set ?k pool' (s_creationPool f)\<rparr>)"
    using put(1) a pool by (simp add: Release_def deref_def)
  ultimately show ?thesis
    using put(4) pool_okD(2) [OF pk] by (intro exI [of _ pool'] exI) simp
qed

lemma Release_null: "Release None f = Inl NullDeref"
  by (simp add: Release_def deref_def)

lemma Release_unknown:
  "a < length (heap f) \<Longrightarrow> map_find (s_creationPool f) (key_of (heap f ! a)) = None \<Longrightarrow>
     Release (Some a) f = Inr (False, Some a, f)"
  by (simp add: Release_def deref_def)

lemma Create_unknown:
  "map_find (s_creationPool f) (t, st) = None \<Longrightarrow>
     Create debug t st f = (if debug then Inl AssertFailed else Inr (None, f))"
  by (simp add: Create_def)

section \<open>The pools and their clients\<close>

text \<open>
  A client state is the factory with the list of the addresses the clients hold. Clients
  create, release what they hold, and write packets in place.
\<close>

inductive pool_step ::
  "bool \<Rightarrow> (addr \<Rightarrow> U16) \<Rightarrow> factory \<times> addr list \<Rightarrow> factory \<times> addr list \<Rightarrow> bool"
  for debug junk where
  create: "Create debug t st f = Inr (ptr, f') \<Longrightarrow>
     pool_step debug junk (f, held) (f', case ptr of None \<Rightarrow> held | Some a \<Rightarrow> a # held)"
| create_by_name: "Create_by_name debug junk name f = Inr (ptr, f') \<Longrightarrow>
     pool_step debug junk (f, held) (f', case ptr of None \<Rightarrow> held | Some a \<Rightarrow> a # held)"
| release: "a \<in> set held \<Longrightarrow> Release (Some a) f = Inr (returned, ptr, f') \<Longrightarrow>
     pool_step debug junk (f, held) (f', if returned then remove1 a held else held)"
| modify: "a \<in> set held \<Longrightarrow> class_of p = class_of (heap f ! a) \<Longrightarrow>
     pool_step debug junk (f, held) (f\<lparr>heap := (heap f)[a := p]\<rparr>, held)"

inductive_cases pool_stepE: "pool_step debug junk (f, held) s'"

inductive pool_reach :: "bool \<Rightarrow> (addr \<Rightarrow> U16) \<Rightarrow> factory \<times> addr list \<Rightarrow> bool" for debug junk where
  start: "InitFactory junk self_registered = Inr f \<Longrightarrow> pool_reach debug junk (f, [])"
| step: "pool_reach debug junk s \<Longrightarrow> pool_step debug junk s s' \<Longrightarrow> pool_reach debug junk s'"

text \<open>How many of the held objects have a type.\<close>

definition held_of :: "factory \<Rightarrow> addr list \<Rightarrow> type_pair \<Rightarrow> nat" where
  "held_of f held k = length (filter (\<lambda>a. key_of (heap f ! a) = k) held)"

definition pool_inv :: "factory \<Rightarrow> addr list \<Rightarrow> bool" where
  "pool_inv f held \<longleftrightarrow> factory_ok f \<and>
     mset (map Some held) + mset (pooled f) = mset (map Some [0..<length (heap f)]) \<and>
     (\<forall>c. map_find (s_methods f) (class_Name c) = Some c) \<and>
     (\<forall>c. \<exists>pool. map_find (s_creationPool f) (class_key c) = Some pool \<and>
        held_of f held (class_key c) + cb_size pool = numToCreate)"

lemma pool_invD:
  assumes "pool_inv f held"
  shows "factory_ok f"
    "mset (map Some held) + mset (pooled f) = mset (map Some [0..<length (heap f)])"
    "\<And>c. map_find (s_methods f) (class_Name c) = Some c"
    "\<And>c. \<exists>pool. map_find (s_creationPool f) (class_key c) = Some pool \<and>
        held_of f held (class_key c) + cb_size pool = numToCreate"
  using assms unfolding pool_inv_def by blast+

lemma pool_inv_held:
  assumes "pool_inv f held" and "a \<in> set held"
  shows "a < length (heap f)"
proof -
  have "Some a \<in># mset (map Some held) + mset (pooled f)" using assms(2) by simp
  then show ?thesis unfolding pool_invD(2) [OF assms(1)] by auto
qed

lemma pool_inv_count:
  assumes "pool_inv f held" and "map_find (s_creationPool f) (class_key c) = Some pool"
  shows "held_of f held (class_key c) + cb_size pool = numToCreate"
  using pool_invD(4) [OF assms(1), of c] assms(2) by auto

text \<open>Held and pooled pointers are pairwise different: no object has two owners.\<close>

lemma pool_inv_distinct:
  assumes "pool_inv f held" shows "distinct (map Some held @ pooled f)"
proof -
  have "mset (map Some held @ pooled f) = mset (map Some [0..<length (heap f)])"
    using pool_invD(2) [OF assms] by simp
  then show ?thesis by (metis mset_eq_imp_distinct_iff distinct_map distinct_upt inj_Some)
qed

lemma pool_inv_start:
  assumes "InitFactory junk self_registered = Inr f"
  shows "pool_inv f []"
proof -
  obtain f' where f': "InitFactory junk self_registered = Inr f'" "factory_ok f'"
    "extends_factory self_registered f'"
    "\<And>k c. map_find (s_allocationMethods self_registered) k = Some c \<Longrightarrow> fresh_pool f' k c"
    using InitFactory_ok [OF self_registered_ok, of junk] self_registered_find(3) by blast
  have eq: "f' = f" using f'(1) assms by simp
  have fresh: "fresh_pool f (class_key c) c" for c
    using f'(4) self_registered_find(1) eq by blast
  have "pooled self_registered = []"
    by (simp add: pooled_def self_registered_def register_class_def Register_maps factory_0_def)
  then have ms: "mset (pooled f) = mset (map Some [0..<length (heap f)])"
    using f'(3) eq unfolding extends_factory_def by (simp add: self_registered_find(4))
  have meth: "map_find (s_methods f) (class_Name c) = Some c" for c
    using f'(3) eq self_registered_find(2) unfolding extends_factory_def by metis
  have cnt: "\<exists>pool. map_find (s_creationPool f) (class_key c) = Some pool \<and>
      held_of f [] (class_key c) + cb_size pool = numToCreate" for c
  proof -
    obtain pool a where "map_find (s_creationPool f) (class_key c) = Some pool"
      "cb_contents pool = map Some [a..<a + numToCreate]"
      using fresh [of c] unfolding fresh_pool_def by blast
    moreover from this(2) have "cb_size pool = numToCreate"
      using length_cb_contents [of pool] by simp
    ultimately show ?thesis by (simp add: held_of_def)
  qed
  show ?thesis unfolding pool_inv_def using f'(2) eq ms meth cnt by simp
qed

lemma held_of_cong: "heap f' = heap f \<Longrightarrow> held_of f' held k = held_of f held k"
  by (simp add: held_of_def)

text \<open>What a pool of the invariant gives out has that pool's type.\<close>

lemma Create_inv:
  assumes inv: "pool_inv f held" and cr: "Create debug t st f = Inr (ptr, f')"
  shows "pool_inv f' (case ptr of None \<Rightarrow> held | Some a \<Rightarrow> a # held)"
proof (cases "map_find (s_creationPool f) (t, st)")
  case None
  then show ?thesis using inv cr by (auto simp: Create_unknown split: if_splits)
next
  case (Some pool)
  note ok = pool_invD(1) [OF inv]
  have pk: "pool_ok (heap f) (t, st) pool" using factory_okD(5) [OF ok Some] .
  obtain pool' where c: "ptr = (if cb_contents pool = [] then None else hd (cb_contents pool))"
    "f' = f\<lparr>s_creationPool := map_set (t, st) pool' (s_creationPool f)\<rparr>"
    "cb_contents pool' = tl (cb_contents pool)" "factory_ok f'"
    using Create_pool [OF ok Some, of debug] cr by auto
  have ms: "mset (pooled f') + mset (cb_contents pool) = mset (pooled f) + mset (cb_contents pool')"
    using pooled_update [OF ok Some] c(2) by simp
  have h: "heap f' = heap f" "s_methods f' = s_methods f" using c(2) by simp_all
  show ?thesis
  proof (cases "cb_contents pool")
    case Nil
    then have p: "ptr = None" "cb_contents pool' = []" using c by simp_all
    then have sz: "cb_size pool' = cb_size pool" using Nil length_cb_contents by metis
    have "mset (pooled f') = mset (pooled f)" using ms Nil p by simp
    moreover have "\<exists>p. map_find (s_creationPool f') (class_key d) = Some p \<and>
        held_of f' held (class_key d) + cb_size p = numToCreate" for d
      using pool_invD(4) [OF inv, of d] Some sz by (auto simp: c(2) map_find_set held_of_def)
    ultimately show ?thesis
      using pool_invD [OF inv] c(4) p h unfolding pool_inv_def by simp
  next
    case (Cons q qs)
    then obtain a where a: "q = Some a" "a < length (heap f)" "key_of (heap f ! a) = (t, st)"
      using pool_okD(3) [OF pk, of q] by auto
    have p: "ptr = Some a" "cb_contents pool' = qs" using c Cons a by simp_all
    have sz: "cb_size pool = Suc (cb_size pool')"
      using Cons p length_cb_contents by (metis length_Cons)
    have "mset (map Some (a # held)) + mset (pooled f') = mset (map Some held) + mset (pooled f)"
      using ms Cons p a by simp
    then have "mset (map Some (a # held)) + mset (pooled f') = mset (map Some [0..<length (heap f')])"
      using pool_invD(2) [OF inv] h by (simp only:)
    moreover have "\<exists>p. map_find (s_creationPool f') (class_key d) = Some p \<and>
        held_of f' (a # held) (class_key d) + cb_size p = numToCreate" for d
      using pool_invD(4) [OF inv, of d] Some sz a(3)
      by (auto simp: c(2) map_find_set held_of_def)
    ultimately show ?thesis
      unfolding pool_inv_def p option.case using pool_invD(3) [OF inv] c(4) h(2) by (simp only:) blast
  qed
qed

lemma class_count_remove:
  "a \<in> set held \<Longrightarrow> held_of f held k = held_of f (remove1 a held) k + (if key_of (heap f ! a) = k then 1 else 0)"
proof (induction held)
  case (Cons b held)
  then show ?case by (auto simp: held_of_def)
qed simp

text \<open>Giving back a held object never overflows its pool.\<close>

lemma Release_inv:
  assumes inv: "pool_inv f held" and a: "a \<in> set held"
  shows "\<exists>f'. Release (Some a) f = Inr (True, None, f') \<and> pool_inv f' (remove1 a held)"
proof -
  note ok = pool_invD(1) [OF inv]
  let ?k = "key_of (heap f ! a)"
  have k: "?k = class_key (class_of (heap f ! a))" by (rule key_of_class)
  obtain pool where pool: "map_find (s_creationPool f) ?k = Some pool"
    "held_of f held ?k + cb_size pool = numToCreate"
    using pool_invD(4) [OF inv, of "class_of (heap f ! a)"] unfolding k [symmetric] by blast
  obtain pool' f' where r: "Release (Some a) f = Inr (True, None, f')"
    "f' = f\<lparr>s_creationPool := map_set ?k pool' (s_creationPool f)\<rparr>"
    "cb_contents pool' = push_bounded numToCreate (cb_contents pool) (Some a)" "factory_ok f'"
    using Release_pool [OF ok pool_inv_held [OF inv a] pool(1)] by auto
  have n: "held_of f held ?k = Suc (held_of f (remove1 a held) ?k)"
    using class_count_remove [OF a, of f ?k] by simp
  then have "cb_size pool < numToCreate" using pool(2) by simp
  then have c: "cb_contents pool' = cb_contents pool @ [Some a]"
    using r(3) by (simp add: push_bounded_def)
  have sz: "cb_size pool' = Suc (cb_size pool)"
    using c length_cb_contents by (metis length_append_singleton)
  have "mset (pooled f') + mset (cb_contents pool) = mset (pooled f) + mset (cb_contents pool')"
    using pooled_update [OF ok pool(1)] r(2) by simp
  then have "mset (pooled f') = add_mset (Some a) (mset (pooled f))" using c by simp
  then have "mset (map Some (remove1 a held)) + mset (pooled f') = mset (map Some held) + mset (pooled f)"
    using a by (simp add: image_mset_Diff)
  then have ms: "mset (map Some (remove1 a held)) + mset (pooled f') =
      mset (map Some [0..<length (heap f')])"
    using pool_invD(2) [OF inv] r(2) by simp
  have "\<exists>p. map_find (s_creationPool f') (class_key d) = Some p \<and>
      held_of f' (remove1 a held) (class_key d) + cb_size p = numToCreate" for d
    using pool_invD(4) [OF inv, of d] pool n sz class_count_remove [OF a, of f "class_key d"]
    by (auto simp: r(2) map_find_set held_of_def)
  then show ?thesis
    unfolding pool_inv_def using r ms pool_invD(3) [OF inv] by auto
qed

lemma modify_key:
  assumes "class_of p = class_of (heap f ! a)"
  shows "key_of ((heap f)[a := p] ! b) = key_of (heap f ! b)"
proof (cases "a < length (heap f) \<and> a = b")
  case True
  then show ?thesis using assms by (simp add: key_of_class)
next
  case False
  then show ?thesis by (metis list_update_beyond nth_list_update_neq not_le)
qed

lemma modify_inv:
  assumes inv: "pool_inv f held" and cls: "class_of p = class_of (heap f ! a)"
  shows "pool_inv (f\<lparr>heap := (heap f)[a := p]\<rparr>) held"
proof -
  note key = modify_key [OF cls]
  have "factory_ok (f\<lparr>heap := (heap f)[a := p]\<rparr>)"
    using factory_okD [OF pool_invD(1) [OF inv]] key
    unfolding factory_ok_def pool_ok_def by simp
  then show ?thesis
    using pool_invD [OF inv] key unfolding pool_inv_def by (simp add: pooled_def held_of_def)
qed

lemma Create_by_name_eq:
  "map_find (s_methods f) name = Some c \<Longrightarrow>
     Create_by_name debug junk name f = Create debug (class_Type c) (class_SubType c) f"
  by (simp add: Create_by_name_def Let_def)

lemma pool_step_inv:
  assumes "pool_step debug junk (f, held) (f', held')" and "pool_inv f held"
  shows "pool_inv f' held'"
  using assms(1)
proof (cases rule: pool_step.cases)
  case (create t st ptr)
  then show ?thesis using Create_inv [OF assms(2)] by auto
next
  case (create_by_name name ptr)
  show ?thesis
  proof (cases "map_find (s_methods f) name")
    case None
    then show ?thesis using create_by_name assms(2) by (simp add: Create_by_name_def)
  next
    case (Some c)
    then show ?thesis
      using create_by_name Create_inv [OF assms(2)] by (auto simp: Create_by_name_eq)
  qed
next
  case (release a returned ptr)
  then show ?thesis using Release_inv [OF assms(2), of a] by auto
next
  case (modify a p)
  then show ?thesis using modify_inv [OF assms(2)] by auto
qed

lemma pool_reach_inv: "pool_reach debug junk (f, held) \<Longrightarrow> pool_inv f held"
proof (induction "(f, held)" arbitrary: f held rule: pool_reach.induct)
  case (start f)
  then show ?case by (rule pool_inv_start)
next
  case (step s)
  then show ?case using pool_step_inv by (metis surj_pair)
qed

text \<open>
  \<^verbatim>\<open>Create\<close> of a registered class: a fresh owner for one of its objects while fewer than
  100 are held, and null afterwards.
\<close>

lemma Create_registered:
  assumes inv: "pool_inv f held"
  shows "\<exists>ptr f'. Create debug (class_Type c) (class_SubType c) f = Inr (ptr, f') \<and> heap f' = heap f \<and>
    (if held_of f held (class_key c) < numToCreate
     then \<exists>a. ptr = Some a \<and> a < length (heap f) \<and> class_of (heap f ! a) = c \<and> a \<notin> set held
     else ptr = None)"
proof -
  note ok = pool_invD(1) [OF inv]
  obtain pool where pool: "map_find (s_creationPool f) (class_key c) = Some pool"
    "held_of f held (class_key c) + cb_size pool = numToCreate"
    using pool_invD(4) [OF inv] by blast
  have pk: "pool_ok (heap f) (class_key c) pool" using factory_okD(5) [OF ok pool(1)] .
  obtain pool' f' where cr: "Create debug (class_Type c) (class_SubType c) f =
        Inr (if cb_contents pool = [] then None else hd (cb_contents pool), f')"
      "f' = f\<lparr>s_creationPool := map_set (class_key c) pool' (s_creationPool f)\<rparr>"
    using Create_pool [OF ok pool(1)] by blast
  show ?thesis
  proof (cases "cb_contents pool")
    case Nil
    then have "cb_size pool = 0" using length_cb_contents by (metis list.size(3))
    then show ?thesis using cr pool(2) Nil by simp
  next
    case (Cons q qs)
    then have lt: "held_of f held (class_key c) < numToCreate"
      using pool(2) length_cb_contents [of pool] by simp
    obtain a where a: "q = Some a" "a < length (heap f)" "key_of (heap f ! a) = class_key c"
      using pool_okD(3) [OF pk, of q] Cons by auto
    have "Some a \<in> set (pooled f)"
      using pool(1) Cons a map_find_mem [OF factory_okD(3) [OF ok]] by (force simp: pooled_def)
    then have "a \<notin> set held" using pool_inv_distinct [OF inv] by auto
    moreover have "class_of (heap f ! a) = c" using a(3) class_key_inj by (simp add: key_of_class)
    ultimately show ?thesis using cr lt a Cons by simp
  qed
qed

text \<open>The order in which the held addresses are listed does not matter.\<close>

lemma pool_inv_mset:
  assumes "pool_inv f held" and "mset held' = mset held"
  shows "pool_inv f held'"
proof -
  have "held_of f held' k = held_of f held k" for k
  proof -
    have "mset (filter (\<lambda>a. key_of (heap f ! a) = k) held') =
        mset (filter (\<lambda>a. key_of (heap f ! a) = k) held)"
      by (simp only: mset_filter assms(2))
    then show ?thesis unfolding held_of_def by (rule mset_eq_length)
  qed
  then show ?thesis using assms unfolding pool_inv_def by simp
qed

text \<open>
  Releasing a second copy of a pointer puts the object into its pool twice; two later
  \<^verbatim>\<open>Create\<close> calls then return the same object.
\<close>

lemma double_release:
  assumes inv: "pool_inv f held" and a: "a \<in> set held"
    and r1: "Release (Some a) f = Inr (b1, q1, f1)" and r2: "Release (Some a) f1 = Inr (b2, q2, f2)"
  shows "b1 \<and> b2 \<and> (\<exists>pool xs. map_find (s_creationPool f2) (key_of (heap f ! a)) = Some pool \<and>
    cb_contents pool = xs @ [Some a, Some a])"
proof -
  note ok = pool_invD(1) [OF inv]
  let ?k = "key_of (heap f ! a)"
  have k: "?k = class_key (class_of (heap f ! a))" by (rule key_of_class)
  note al = pool_inv_held [OF inv a]
  obtain pool where pool: "map_find (s_creationPool f) ?k = Some pool"
    using pool_invD(4) [OF inv, of "class_of (heap f ! a)"] unfolding k [symmetric] by blast
  obtain p1 where p1: "f1 = f\<lparr>s_creationPool := map_set ?k p1 (s_creationPool f)\<rparr>" "b1"
    "cb_contents p1 = push_bounded numToCreate (cb_contents pool) (Some a)" "factory_ok f1"
    using Release_pool [OF ok al pool] r1 by auto
  have f1: "heap f1 = heap f" "map_find (s_creationPool f1) ?k = Some p1"
    by (simp_all add: p1(1) map_find_set)
  then obtain p2 where p2: "f2 = f1\<lparr>s_creationPool := map_set ?k p2 (s_creationPool f1)\<rparr>" "b2"
    "cb_contents p2 = push_bounded numToCreate (cb_contents p1) (Some a)"
    using Release_pool [OF p1(4), of a p1] al r2 by auto
  have one: "push_bounded numToCreate xs (Some a) = ys @ [Some a] \<Longrightarrow>
      \<exists>zs. push_bounded numToCreate (push_bounded numToCreate xs (Some a)) (Some a) =
        zs @ [Some a, Some a]" for xs ys
    by (cases ys) (auto simp: push_bounded_def numToCreate_def)
  obtain ys where "cb_contents p1 = ys @ [Some a]" using p1(3) by (auto simp: push_bounded_def)
  then have "\<exists>zs. cb_contents p2 = zs @ [Some a, Some a]" using one p1(3) p2(3) by metis
  then show ?thesis using p1(2) p2(1,2) by (auto simp: map_find_set)
qed
section \<open>Objects as constructed\<close>

text \<open>The factory itself never writes to an object: what \<^verbatim>\<open>InitFactory\<close> puts on the heap is freshly constructed.\<close>

definition all_new :: "factory \<Rightarrow> bool" where
  "all_new f \<longleftrightarrow> (\<forall>p\<in>set (heap f). \<exists>j c. p = CreateMethod j c)"

lemma fill_pool_new: "fill_pool junk n k buff f = Inr (buff', f') \<Longrightarrow> all_new f \<Longrightarrow> all_new f'"
proof (induction n arbitrary: buff f)
  case 0
  then show ?case by simp
next
  case (Suc n)
  obtain ptr g where a: "Allocate junk (fst k) (snd k) f = (ptr, g)" by (cases "Allocate junk (fst k) (snd k) f")
  then have "all_new g" using Suc.prems(2)
    by (auto simp: Allocate_def all_new_def Let_def split: option.splits) blast
  then show ?case using Suc a by auto
qed

lemma init_pools_new: "init_pools junk it f = Inr f' \<Longrightarrow> all_new f \<Longrightarrow> all_new f'"
proof (induction it arbitrary: f)
  case Nil
  then show ?case by simp
next
  case (Cons kc it)
  obtain k c where kc: "kc = (k, c)" by (cases kc)
  show ?case
  proof (cases "IsPoolAlreadyAllocated k f")
    case True
    then show ?thesis using Cons by (simp add: kc)
  next
    case False
    then obtain buff g where g: "fill_pool junk numToCreate k (cb_new None numToCreate) f = Inr (buff, g)"
      "init_pools junk it (g\<lparr>s_creationPool := map_set k buff (s_creationPool g)\<rparr>) = Inr f'"
      using Cons.prems(1) by (auto simp: kc)
    moreover have "all_new (g\<lparr>s_creationPool := map_set k buff (s_creationPool g)\<rparr>)"
      using fill_pool_new [OF g(1) Cons.prems(2)] by (simp add: all_new_def)
    ultimately show ?thesis using Cons.IH by blast
  qed
qed

lemma InitFactory_new: "InitFactory junk self_registered = Inr f \<Longrightarrow> all_new f"
  using init_pools_new [of junk _ self_registered] self_registered_find(4)
  by (simp add: InitFactory_def all_new_def)

lemma all_new_nth: "all_new f \<Longrightarrow> a < length (heap f) \<Longrightarrow> class_of (heap f ! a) = c \<Longrightarrow> \<exists>j. heap f ! a = CreateMethod j c"
  unfolding all_new_def using nth_mem [of a "heap f"] class_of_CreateMethod by metis

end
