(* ===== verification/Size_Packet.thy ===== *)
theory Size_Packet
  imports Packet_Factory
begin

text \<open>
  Framing: \<^verbatim>\<open>SizePacket\<close> of \<^verbatim>\<open>UDP01/OldCode/Packets/BasePacket.cpp\<close> and the loop of
  \<^verbatim>\<open>TCPConnection::Start\<close> (\<^verbatim>\<open>Socket.cpp\<close>) that takes frames out of the receive buffer. A
  frame is the byte \<^verbatim>\<open>PacketType_NetworkProtocol\<close>, a 16-bit size and the packet. On the
  way in the packet is a pool object of the class that the packet's own header names.

  A \<^verbatim>\<open>SizePacket\<close> is the pointer it holds. Reading fills a pool object in place, so it
  changes the factory's heap.
\<close>

section \<open>SizePacket\<close>

definition IsRemainingBufferBigenough :: "bytes \<Rightarrow> nat \<Rightarrow> nat \<Rightarrow> bool option" where
  "IsRemainingBufferBigenough data bufferOffset totalBytesInBuffer = do {
     let probeOffset = bufferOffset + 1;
     (sz, probeOffset) \<leftarrow> In_U16 data probeOffset;
     Some (\<not> unat sz + probeOffset > totalBytesInBuffer) }"

definition SizePacket_SerializeIn ::
  "bool \<Rightarrow> bytes \<Rightarrow> nat \<Rightarrow> factory \<Rightarrow> (pointer \<times> nat \<times> factory) res" where
  "SizePacket_SerializeIn debug data off f =
     and_then (from_option OutOfBounds (In_U8 data off)) (\<lambda>(type, off).
     and_then (from_option OutOfBounds (In_U16 data off)) (\<lambda>(sz, off).
     and_then (from_option OutOfBounds
         (BasePacket_SerializeIn data off
           (new_BasePacket (packet_type_code PacketType_Base) BasePacket_Type))) (\<lambda>(probe, _).
     and_then (Create debug (packetType probe) (packetSubType probe) f) (\<lambda>(ptr, f).
     and_then (deref f ptr) (\<lambda>p.
     and_then (from_option OutOfBounds (packet_SerializeIn data off p)) (\<lambda>(p, off).
     Inr (ptr, off, case ptr of None \<Rightarrow> f | Some a \<Rightarrow> f\<lparr>heap := (heap f)[a := p]\<rparr>)))))))"

definition SizePacket_SerializeOut ::
  "factory \<Rightarrow> bytes \<Rightarrow> nat \<Rightarrow> pointer \<Rightarrow> (bytes \<times> nat) res" where
  "SizePacket_SerializeOut f data off ptr =
     and_then (from_option OutOfBounds
         (Out_U8 data off (packet_type_code PacketType_NetworkProtocol))) (\<lambda>(data, pos).
     and_then (deref f ptr) (\<lambda>p.
     and_then (from_option OutOfBounds (packet_SerializeOut data (pos + 2) p)) (\<lambda>(data, off).
     and_then (from_option OutOfBounds (Out_U16 data pos (of_nat (off - pos - 2)))) (\<lambda>(data, _).
     Inr (data, off)))))"

section \<open>The receive loop\<close>

text \<open>
  \<open>received\<close> is the number of bytes received, \<open>data\<close> the whole receive buffer, which still
  holds older bytes behind them.
\<close>

lemma IsRemaining_bounds:
  "IsRemainingBufferBigenough data off received = Some True \<Longrightarrow> off + 3 \<le> received"
  by (auto simp: IsRemainingBufferBigenough_def In_U16_def bind_eq_Some_conv)

lemma class_width_pos: "7 \<le> class_width c"
  by (cases c) simp_all

lemma SizePacket_In_advance:
  assumes "SizePacket_SerializeIn debug data off f = Inr (ptr, off', f')"
  shows "off + 10 \<le> off'"
proof -
  obtain ty p q o1 o2 sz where "In_U8 data off = Some (ty, o1)" "In_U16 data o1 = Some (sz, o2)"
    "packet_SerializeIn data o2 p = Some (q, off')"
    using assms by (auto simp: SizePacket_SerializeIn_def)
  then have "o1 = off + 1" "o2 = o1 + 2" "off' = o2 + class_width (class_of p)"
    using s_U8.inp_advance s_U16.inp_advance takes_advance [OF packet_takes] by blast+
  then show ?thesis using class_width_pos [of "class_of p"] by simp
qed

function receive_loop ::
  "bool \<Rightarrow> bytes \<Rightarrow> nat \<Rightarrow> nat \<Rightarrow> pointer list \<Rightarrow> factory \<Rightarrow> (pointer list \<times> nat \<times> factory) res" where
  "receive_loop debug data received off inwardPackets f =
     (case IsRemainingBufferBigenough data off received of
        None \<Rightarrow> Inl OutOfBounds
      | Some False \<Rightarrow> Inr (inwardPackets, off, f)
      | Some True \<Rightarrow> and_then (SizePacket_SerializeIn debug data off f) (\<lambda>(ptr, off, f).
          receive_loop debug data received off (inwardPackets @ [ptr]) f))"
  by pat_completeness auto

termination
  by (relation "measure (\<lambda>(debug, data, received, off, inward, f). received - off)")
    (auto dest!: IsRemaining_bounds SizePacket_In_advance)

declare receive_loop.simps [simp del]

section \<open>Frames\<close>

definition enc_frame :: "packet \<Rightarrow> bytes" where
  "enc_frame p = enc_U8 (packet_type_code PacketType_NetworkProtocol) @
     be_bytes (of_nat (class_width (class_of p)) :: U16) @ enc_packet p"

definition enc_stream :: "packet list \<Rightarrow> bytes" where
  "enc_stream ps = enc_list enc_frame ps"

text \<open>The header of a packet names the class that the packet has.\<close>

definition well_typed :: "packet \<Rightarrow> bool" where
  "well_typed p \<longleftrightarrow> packetType (base_view p) = GetType p \<and> packetSubType (base_view p) = GetSubType p"

lemma length_enc_frame [simp]: "length (enc_frame p) = 3 + class_width (class_of p)"
  by (simp add: enc_frame_def)

lemma new_packets_well_typed: "well_typed (CreateMethod j c)"
  by (cases c)
    (simp_all add: well_typed_def GetType_def GetSubType_def new_BasePacket_def
      new_ConnectionCommsPacket_def new_PositionPacket_def new_ServerTickPacket_def
      new_MovementPacket_def BasePacket.defs ServerTickPacket.defs PositionPacket.defs)

lemma wr_swap:
  "length as = n \<Longrightarrow> wr buf (off + n) bs \<bind> (\<lambda>b. wr b off as) = wr buf off (as @ bs)"
  by (auto simp: wr_def min_def ac_simps)

lemma class_width_lt: "class_width c < 65536"
  by (cases c) simp_all

lemma SizePacket_Out_frame:
  assumes a: "a < length (heap f)"
  shows "SizePacket_SerializeOut f buf off (Some a) =
    from_option OutOfBounds (map_option (\<lambda>b. (b, off + length (enc_frame (heap f ! a))))
      (wr buf off (enc_frame (heap f ! a))))"
proof -
  let ?p = "heap f ! a"
  let ?t = "packet_type_code PacketType_NetworkProtocol"
  let ?n = "class_width (class_of ?p)"
  have sw: "wr b (off + 1) (be_bytes (of_nat ?n :: U16) @ enc_packet ?p) =
      wr b (off + 1 + 2) (enc_packet ?p) \<bind> (\<lambda>b. wr b (off + 1) (be_bytes (of_nat ?n :: U16)))" for b
    by (rule wr_swap [symmetric]) simp
  have wr3: "wr buf off (enc_frame ?p) =
      wr buf off (enc_U8 ?t) \<bind> (\<lambda>b. wr b (off + 1 + 2) (enc_packet ?p) \<bind>
        (\<lambda>b. wr b (off + 1) (be_bytes (of_nat ?n :: U16))))"
    by (simp only: enc_frame_def wr_append [of buf off "enc_U8 ?t"] length_enc(1) sw)
  have pk: "packet_SerializeOut b o' ?p = map_option (\<lambda>b. (b, o' + ?n)) (wr b o' (enc_packet ?p))"
    for b o' using writesD [OF packet_writes] by simp
  show ?thesis
    unfolding SizePacket_SerializeOut_def wr3 s_U8.outp_enc s_U16.outp_enc
    using a by (auto simp: deref_def pk from_option_case split: option.split bind_split)
qed

lemma enc_packet_prefix: "\<exists>rest. enc_packet p = enc_base (base_view p) @ rest"
  by (cases p)
    (simp_all add: enc_base_def enc_comms_def enc_tick_def enc_position_def enc_movement_def
      BasePacket.defs)

lemma probe_packet:
  assumes "holds_at buf off (enc_packet p)"
  shows "BasePacket_SerializeIn buf off q = Some (base_view p, off + 7)"
proof -
  obtain rest where "enc_packet p = enc_base (base_view p) @ rest" using enc_packet_prefix by blast
  then have "holds_at buf off (enc_base (base_view p))" using assms by (simp add: holds_at_append)
  then show ?thesis using readsD [OF BasePacket_reads_leaf] by simp
qed

lemma holds_frame:
  assumes "holds_at buf off (enc_frame p)"
  shows "In_U8 buf off = Some (packet_type_code PacketType_NetworkProtocol, off + 1)"
    and "In_U16 buf (off + 1) = Some (of_nat (class_width (class_of p)), off + 3)"
    and "holds_at buf (off + 3) (enc_packet p)"
  using assms s_U8.inp_enc [of buf off "packet_type_code PacketType_NetworkProtocol"]
    s_U16.inp_enc [of buf "off + 1" "of_nat (class_width (class_of p))"]
  by (auto simp: enc_frame_def holds_at_append numeral_3_eq_3)

lemma SizePacket_In_frame:
  assumes h: "holds_at buf off (enc_frame p)" and wt: "well_typed p"
    and cr: "Create debug (GetType p) (GetSubType p) f = Inr (Some a, g)"
    and a: "a < length (heap g)" "class_of (heap g ! a) = class_of p"
  shows "SizePacket_SerializeIn debug buf off f =
    Inr (Some a, off + length (enc_frame p), g\<lparr>heap := (heap g)[a := p]\<rparr>)"
proof -
  have "packet_SerializeIn buf (off + 3) (heap g ! a) = Some (p, off + 3 + class_width (class_of p))"
    using readsD [OF packet_reads [OF a(2)] holds_frame(3) [OF h]] by simp
  then show ?thesis
    using holds_frame [OF h] probe_packet [OF holds_frame(3) [OF h]] wt cr a
    by (simp add: SizePacket_SerializeIn_def well_typed_def deref_def)
qed

lemma frame_fits:
  assumes h: "holds_at buf off (enc_frame p)" and r: "off + length (enc_frame p) \<le> received"
  shows "IsRemainingBufferBigenough buf off received = Some True"
  using holds_frame(2) [OF h] r class_width_lt [of "class_of p"]
  by (simp add: IsRemainingBufferBigenough_def unat_of_nat)

text \<open>An incomplete frame at the end is left alone, whatever older bytes follow it.\<close>

lemma incomplete_frame:
  assumes h: "holds_at buf off (take k (enc_frame p))" and k: "k < length (enc_frame p)"
    and r: "received = off + k" and room: "off + 3 \<le> length buf"
  shows "IsRemainingBufferBigenough buf off received = Some False"
proof (cases "k < 3")
  case True
  have "\<exists>v. In_U16 buf (off + 1) = Some (v, off + 1 + 2)"
    using takes_Some [OF s_U16.takes_inp, of "off + 1" buf] room by simp
  then show ?thesis using True r by (auto simp: IsRemainingBufferBigenough_def)
next
  case False
  let ?hd = "enc_U8 (packet_type_code PacketType_NetworkProtocol) @
    be_bytes (of_nat (class_width (class_of p)) :: U16)"
  have "take k (enc_frame p) = ?hd @ take (k - 3) (enc_packet p)"
    using False by (simp add: enc_frame_def numeral_3_eq_3)
  then have "holds_at buf (off + 1) (be_bytes (of_nat (class_width (class_of p)) :: U16))"
    using h by (simp add: holds_at_append)
  then have "In_U16 buf (off + 1) = Some (of_nat (class_width (class_of p)), off + 3)"
    using s_U16.inp_enc [of buf "off + 1" "of_nat (class_width (class_of p))"] by simp
  then show ?thesis
    using k r class_width_lt [of "class_of p"] by (simp add: IsRemainingBufferBigenough_def unat_of_nat)
qed

section \<open>What the receive loop delivers\<close>

definition count_of :: "packet_class \<Rightarrow> packet list \<Rightarrow> nat" where
  "count_of c ps = length (filter (\<lambda>p. class_of p = c) ps)"

lemma enc_stream_simps [simp]:
  "enc_stream [] = []" "enc_stream (p # ps) = enc_frame p @ enc_stream ps"
  by (simp_all add: enc_stream_def wire_simps)

text \<open>One complete frame: the loop takes a pool object and fills it with the packet.\<close>

lemma receive_one:
  assumes inv: "pool_inv f held" and h: "holds_at buf off (enc_frame p)"
    and r: "off + length (enc_frame p) \<le> received" and wt: "well_typed p"
    and space: "held_of f held (key_of p) < numToCreate"
  shows "\<exists>a g. receive_loop debug buf received off inward f =
        receive_loop debug buf received (off + length (enc_frame p)) (inward @ [Some a]) g \<and>
      pool_inv g (a # held) \<and> heap g = (heap f)[a := p] \<and> a \<notin> set held \<and>
      a < length (heap f) \<and> class_of (heap f ! a) = class_of p"
proof -
  note k = key_of_class [of p]
  obtain a g where cr: "Create debug (GetType p) (GetSubType p) f = Inr (Some a, g)"
    and g: "heap g = heap f" and a: "a < length (heap f)" "class_of (heap f ! a) = class_of p"
      "a \<notin> set held"
    using Create_registered [OF inv, of debug "class_of p"] space k by auto
  define g' where "g' = g\<lparr>heap := (heap g)[a := p]\<rparr>"
  have In: "SizePacket_SerializeIn debug buf off f = Inr (Some a, off + length (enc_frame p), g')"
    unfolding g'_def by (rule SizePacket_In_frame [OF h wt cr]) (simp_all add: g a)
  have "pool_inv g (a # held)" using Create_inv [OF inv cr] by simp
  then have inv': "pool_inv g' (a # held)"
    unfolding g'_def by (rule modify_inv) (simp add: g a)
  have "receive_loop debug buf received off inward f =
      receive_loop debug buf received (off + length (enc_frame p)) (inward @ [Some a]) g'"
    by (subst receive_loop.simps) (simp add: frame_fits [OF h r] In)
  then show ?thesis using inv' a g by (intro exI [of _ a] exI [of _ g']) (simp add: g'_def)
qed

lemma held_of_write:
  assumes "heap g = (heap f)[a := p]" and "class_of (heap f ! a) = class_of p"
  shows "held_of g held k = held_of f held k"
  unfolding held_of_def assms(1) by (simp add: modify_key [OF assms(2) [symmetric]])

lemma receive_frames:
  "pool_inv f held \<Longrightarrow> holds_at buf off (enc_stream ps) \<Longrightarrow>
     off + length (enc_stream ps) \<le> received \<Longrightarrow> list_all well_typed ps \<Longrightarrow>
     (\<forall>c. held_of f held (class_key c) + count_of c ps \<le> numToCreate) \<Longrightarrow>
     \<exists>as g. receive_loop debug buf received off inward f =
         receive_loop debug buf received (off + length (enc_stream ps)) (inward @ map Some as) g \<and>
       pool_inv g (rev as @ held) \<and> map (\<lambda>a. heap g ! a) as = ps \<and>
       (\<forall>a\<in>set held. heap g ! a = heap f ! a)"
proof (induction ps arbitrary: f held off inward)
  case Nil
  then show ?case by (intro exI [of _ "[]"] exI [of _ f]) simp
next
  case (Cons p ps)
  have h: "holds_at buf off (enc_frame p)"
    "holds_at buf (off + length (enc_frame p)) (enc_stream ps)"
    using Cons.prems(2) by (simp_all add: holds_at_append)
  have cnt: "count_of c (p # ps) = count_of c ps + (if class_of p = c then 1 else 0)" for c
    by (simp add: count_of_def)
  have "held_of f held (key_of p) + count_of (class_of p) (p # ps) \<le> numToCreate"
    using Cons.prems(5) by (simp only: key_of_class)
  then have "held_of f held (key_of p) < numToCreate" using cnt by simp
  then obtain a g where g: "receive_loop debug buf received off inward f =
        receive_loop debug buf received (off + length (enc_frame p)) (inward @ [Some a]) g"
      "pool_inv g (a # held)" "heap g = (heap f)[a := p]" "a \<notin> set held" "a < length (heap f)"
      "class_of (heap f ! a) = class_of p"
    using receive_one [OF Cons.prems(1) h(1), of received debug inward] Cons.prems(3,4) by auto
  have key: "key_of (heap g ! a) = class_key (class_of p)"
    using g(3,5) by (simp add: key_of_class)
  have "held_of g (a # held) (class_key c) =
      held_of f held (class_key c) + (if class_of p = c then 1 else 0)" for c
    using held_of_write [OF g(3,6), of held "class_key c"] key class_key_inj [of "class_of p" c]
    by (simp add: held_of_def)
  then have "\<forall>c. held_of g (a # held) (class_key c) + count_of c ps \<le> numToCreate"
    using Cons.prems(5) cnt by (simp add: add.commute add.left_commute)
  moreover have "off + length (enc_frame p) + length (enc_stream ps) \<le> received"
    "list_all well_typed ps" using Cons.prems(3,4) by simp_all
  ultimately obtain as g' where g': "receive_loop debug buf received (off + length (enc_frame p))
        (inward @ [Some a]) g = receive_loop debug buf received
          (off + length (enc_frame p) + length (enc_stream ps)) ((inward @ [Some a]) @ map Some as) g'"
      "pool_inv g' (rev as @ a # held)" "map (\<lambda>a. heap g' ! a) as = ps"
      "\<forall>b\<in>set (a # held). heap g' ! b = heap g ! b"
    using Cons.IH [OF g(2) h(2)] by blast
  have "heap g' ! a = p" using g'(4) g(3,5) by simp
  moreover have "\<forall>b\<in>set held. heap g' ! b = heap f ! b"
    using g'(4) g(3,4) by (metis list.set_intros(2) nth_list_update_neq)
  ultimately show ?case
    using g(1) g' by (intro exI [of _ "a # as"] exI [of _ g']) (simp add: add.assoc)
qed

text \<open>
  A read that ends inside a frame: the loop delivers the complete frames and stops; the
  offset it stops at is not kept, so the bytes of the last frame are dropped.
\<close>

lemma receive_frames_partial:
  assumes inv: "pool_inv f held" and wt: "list_all well_typed ps"
    and space: "\<forall>c. held_of f held (class_key c) + count_of c ps \<le> numToCreate"
    and h: "holds_at buf 0 (enc_stream ps @ take k (enc_frame p))" and k: "k < length (enc_frame p)"
    and r: "received = length (enc_stream ps) + k" and room: "length (enc_stream ps) + 3 \<le> length buf"
  shows "\<exists>as g. receive_loop debug buf received 0 [] f = Inr (map Some as, length (enc_stream ps), g) \<and>
      pool_inv g (rev as @ held) \<and> map (\<lambda>a. heap g ! a) as = ps \<and>
      (\<forall>a\<in>set held. heap g ! a = heap f ! a)"
proof -
  have "holds_at buf 0 (enc_stream ps)" using h by (simp add: holds_at_append)
  then obtain as g where g: "receive_loop debug buf received 0 [] f =
        receive_loop debug buf received (length (enc_stream ps)) (map Some as) g"
      "pool_inv g (rev as @ held)" "map (\<lambda>a. heap g ! a) as = ps"
      "\<forall>a\<in>set held. heap g ! a = heap f ! a"
    using receive_frames [OF inv _ _ wt space, of buf 0 received debug "[]"] r by auto
  have "IsRemainingBufferBigenough buf (length (enc_stream ps)) received = Some False"
    by (rule incomplete_frame [OF _ k r room]) (use h in \<open>simp add: holds_at_append\<close>)
  then show ?thesis using g by (subst (asm) (2) receive_loop.simps) auto
qed

text \<open>
  On arbitrary bytes: when the loop returns, every pointer it delivers is a live pool
  object that nobody held before.
\<close>

lemma SizePacket_In_inv:
  assumes inv: "pool_inv f held" and s: "SizePacket_SerializeIn debug buf off f = Inr (ptr, off', g)"
  shows "\<exists>a. ptr = Some a \<and> pool_inv g (a # held) \<and> (\<forall>b\<in>set held. heap g ! b = heap f ! b)"
proof -
  obtain t st g1 p q o2 where cr: "Create debug t st f = Inr (ptr, g1)" and d: "deref g1 ptr = Inr p"
    and i: "packet_SerializeIn buf o2 p = Some (q, off')"
    and g: "g = (case ptr of None \<Rightarrow> g1 | Some a \<Rightarrow> g1\<lparr>heap := (heap g1)[a := q]\<rparr>)"
    using s by (auto simp: SizePacket_SerializeIn_def)
  obtain a where a: "ptr = Some a" "a < length (heap g1)" "p = heap g1 ! a"
    using d by (auto simp: deref_def split: option.splits if_splits)
  have inv1: "pool_inv g1 (a # held)" using Create_inv [OF inv cr] a(1) by simp
  have "class_of q = class_of (heap g1 ! a)" using packet_SerializeIn_class [OF i] a(3) by simp
  from modify_inv [OF inv1 this] have "pool_inv g (a # held)" using g a(1) by simp
  moreover have "a \<notin> set held" using pool_inv_distinct [OF inv1] by auto
  moreover have "heap g1 = heap f"
    using cr by (auto simp: Create_def split: option.splits if_splits prod.splits)
  moreover have "(heap f)[a := q] ! b = heap f ! b" if "b \<in> set held" for b
    using that \<open>a \<notin> set held\<close> by (metis nth_list_update_neq)
  ultimately show ?thesis using a(1) g by auto
qed

lemma receive_loop_inv:
  "receive_loop debug buf received off inward f = Inr (inward', off', g) \<Longrightarrow> pool_inv f held \<Longrightarrow>
     \<exists>as. inward' = inward @ map Some as \<and> pool_inv g (rev as @ held) \<and>
       (\<forall>b\<in>set held. heap g ! b = heap f ! b)"
proof (induction debug buf received off inward f arbitrary: held rule: receive_loop.induct)
  case (1 debug buf received off inward f)
  consider "IsRemainingBufferBigenough buf off received = Some False"
    | "IsRemainingBufferBigenough buf off received = Some True"
    using "1.prems"(1) by (subst (asm) receive_loop.simps) (auto split: option.splits)
  then show ?case
  proof cases
    case 1
    then show ?thesis using "1.prems" by (subst (asm) receive_loop.simps) auto
  next
    case 2
    then obtain ptr o1 g1 where s: "SizePacket_SerializeIn debug buf off f = Inr (ptr, o1, g1)"
      and l: "receive_loop debug buf received o1 (inward @ [ptr]) g1 = Inr (inward', off', g)"
      using "1.prems"(1) by (subst (asm) receive_loop.simps) auto
    obtain a where a: "ptr = Some a" "pool_inv g1 (a # held)" "\<forall>b\<in>set held. heap g1 ! b = heap f ! b"
      using SizePacket_In_inv [OF "1.prems"(2) s] by blast
    obtain as where "inward' = (inward @ [ptr]) @ map Some as" "pool_inv g (rev as @ a # held)"
      "\<forall>b\<in>set (a # held). heap g ! b = heap g1 ! b"
      using "1.IH" [OF 2 refl s refl refl l a(2)] by blast
    then show ?thesis using a by (intro exI [of _ "a # as"]) simp
  qed
qed

text \<open>The queue is only appended to.\<close>

lemma receive_loop_appends:
  "receive_loop debug buf received off inward f = Inr (inward', off', g) \<Longrightarrow> \<exists>new. inward' = inward @ new"
proof (induction debug buf received off inward f rule: receive_loop.induct)
  case (1 debug buf received off inward f)
  show ?case
  proof (cases "IsRemainingBufferBigenough buf off received = Some True")
    case False
    then show ?thesis using "1.prems"
      by (subst (asm) receive_loop.simps) (auto split: option.splits bool.splits)
  next
    case True
    then obtain ptr o1 g1 where s: "SizePacket_SerializeIn debug buf off f = Inr (ptr, o1, g1)"
      and l: "receive_loop debug buf received o1 (inward @ [ptr]) g1 = Inr (inward', off', g)"
      using "1.prems" by (subst (asm) receive_loop.simps) auto
    show ?thesis using "1.IH" [OF True refl s refl refl l] by auto
  qed
qed

lemma receive_loop_queue:
  "receive_loop debug buf received off inward f = Inr (inward @ new, off', g) \<Longrightarrow>
     receive_loop debug buf received off (q @ inward) f = Inr (q @ inward @ new, off', g)"
proof (induction debug buf received off inward f arbitrary: new rule: receive_loop.induct)
  case (1 debug buf received off inward f)
  show ?case
  proof (cases "IsRemainingBufferBigenough buf off received = Some True")
    case False
    then show ?thesis using "1.prems"
      by (subst (asm) receive_loop.simps, subst receive_loop.simps)
        (auto split: option.splits bool.splits)
  next
    case True
    then obtain ptr o1 g1 where s: "SizePacket_SerializeIn debug buf off f = Inr (ptr, o1, g1)"
      and l: "receive_loop debug buf received o1 (inward @ [ptr]) g1 = Inr (inward @ new, off', g)"
      using "1.prems" by (subst (asm) receive_loop.simps) auto
    obtain as where "inward @ new = (inward @ [ptr]) @ as"
      using receive_loop_appends [OF l] by blast
    then show ?thesis
      using "1.IH" [OF True refl s refl refl, of as] l s True
      by (subst receive_loop.simps) simp
  qed
qed

text \<open>Writing a list of packets one behind the other, as \<^verbatim>\<open>start_write\<close> does.\<close>

fun write_frames :: "factory \<Rightarrow> bytes \<Rightarrow> nat \<Rightarrow> pointer list \<Rightarrow> (bytes \<times> nat) res" where
  "write_frames f buf off [] = Inr (buf, off)"
| "write_frames f buf off (p # ps) =
     and_then (SizePacket_SerializeOut f buf off p) (\<lambda>(buf, off). write_frames f buf off ps)"

lemma write_frames_enc:
  "\<forall>a\<in>set as. a < length (heap f) \<Longrightarrow> off + length (enc_stream (map (\<lambda>a. heap f ! a) as)) \<le> length buf \<Longrightarrow>
   \<exists>b. wr buf off (enc_stream (map (\<lambda>a. heap f ! a) as)) = Some b \<and>
     write_frames f buf off (map Some as) =
       Inr (b, off + length (enc_stream (map (\<lambda>a. heap f ! a) as)))"
proof (induction as arbitrary: buf off)
  case Nil
  then show ?case by (simp add: wr_Nil)
next
  case (Cons a as)
  let ?p = "heap f ! a"
  let ?rest = "enc_stream (map (\<lambda>a. heap f ! a) as)"
  have "off + length (enc_frame ?p) \<le> length buf" using Cons.prems(2) by simp
  then obtain b where b: "wr buf off (enc_frame ?p) = Some b" by (auto simp: wr_def)
  then have "SizePacket_SerializeOut f buf off (Some a) = Inr (b, off + length (enc_frame ?p))"
    using SizePacket_Out_frame Cons.prems(1) by simp
  moreover obtain b' where "wr b (off + length (enc_frame ?p)) ?rest = Some b'"
    "write_frames f b (off + length (enc_frame ?p)) (map Some as) =
       Inr (b', off + length (enc_frame ?p) + length ?rest)"
    using Cons.IH [of "off + length (enc_frame ?p)" b] Cons.prems length_wr [OF b] by auto
  ultimately show ?case using b by (simp add: wr_append add.assoc)
qed

end
