(* ===== verification/Tcp_Server.thy ===== *)
theory Tcp_Server
  imports Size_Packet
begin

text \<open>
  The TCP server of \<^verbatim>\<open>UDP01/OldCode/Socket/Socket.h/.cpp\<close>: \<^verbatim>\<open>TCPConnection\<close>, \<^verbatim>\<open>TCPServer\<close>
  and \<^verbatim>\<open>TCPThreader\<close>. A \<^verbatim>\<open>shared_ptr<TCPConnection>\<close> is the position of the connection in
  \<open>conns\<close>, the list of all connections ever made. The operations that the code hands to
  asio wait in \<open>pending\<close>; asio completes them in any order, and each completion handler is
  one step of \<open>server_step\<close>. What a handler runs is its C++ body; two handlers that run at
  the same time on two of the threads, which the code does not guard against, are not
  modelled here; \<open>Reschedule_Race\<close> has \<^verbatim>\<open>HandleReschedule\<close> beside the handlers.
\<close>

section \<open>State\<close>

record connection =
  receiveBuffer :: bytes
  inwardPackets :: "pointer list"
  hasClosed :: bool
  conn_id :: U16

datatype io_op = Accept nat | ReadSome nat | Write nat bytes

record tcp_server =
  conns :: "connection list"
  connectionsMade :: "nat list"
  connectionsAwaitingSchedule :: "nat list"
  connectionIdTracking :: S32
  isAccepting :: bool
  boundPortAddress :: U16
  boundIpAddress :: string
  pending :: "io_op list"
  packets :: factory

definition max_length :: nat where "max_length = 512"
definition connectionIdStart :: S32 where "connectionIdStart = 1024"

abbreviation update_conn :: "nat \<Rightarrow> (connection \<Rightarrow> connection) \<Rightarrow> tcp_server \<Rightarrow> tcp_server" where
  "update_conn c h s \<equiv> s\<lparr>conns := (conns s)[c := h (conns s ! c)]\<rparr>"

section \<open>TCPConnection\<close>

text \<open>The receive buffer is not initialised: \<open>mem\<close> is what the memory held.\<close>

definition TCPConnection_Create :: "bytes \<Rightarrow> U16 \<Rightarrow> connection" where
  "TCPConnection_Create mem connId =
     \<lparr>receiveBuffer = mem, inwardPackets = [], hasClosed = False, conn_id = connId\<rparr>"

definition Start :: "nat \<Rightarrow> tcp_server \<Rightarrow> tcp_server" where
  "Start c s = s\<lparr>pending := pending s @ [ReadSome c]\<rparr>"

definition Close :: "nat \<Rightarrow> tcp_server \<Rightarrow> tcp_server" where
  "Close c s = update_conn c (hasClosed_update (\<lambda>_. True)) s"

definition IsClosed :: "connection \<Rightarrow> bool" where
  "IsClosed conn = hasClosed conn"

definition GetNumMessages :: "connection \<Rightarrow> nat" where
  "GetNumMessages conn = length (inwardPackets conn)"

definition PeekMessage :: "connection \<Rightarrow> pointer res" where
  "PeekMessage conn = (case inwardPackets conn of [] \<Rightarrow> Inl OutOfBounds | p # ps \<Rightarrow> Inr p)"

definition DequeMessage :: "nat \<Rightarrow> tcp_server \<Rightarrow> tcp_server res" where
  "DequeMessage c s =
     (case inwardPackets (conns s ! c) of
        [] \<Rightarrow> Inl OutOfBounds
      | i # rest \<Rightarrow>
          let s = update_conn c (inwardPackets_update (\<lambda>_. rest)) s
          in and_then (Release i (packets s)) (\<lambda>(done, i, f). Inr (s\<lparr>packets := f\<rparr>)))"

text \<open>\<open>mem\<close> is the uninitialised stack array of 120 bytes.\<close>

definition SendMessage :: "bytes \<Rightarrow> nat \<Rightarrow> pointer \<Rightarrow> tcp_server \<Rightarrow> tcp_server res" where
  "SendMessage mem c bp s =
     and_then (SizePacket_SerializeOut (packets s) mem 0 bp) (\<lambda>(buffer, outOffset).
       Inr (s\<lparr>pending := pending s @ [Write c (take outOffset buffer)]\<rparr>))"

section \<open>TCPServer\<close>

text \<open>\<open>ep\<close> is the local endpoint that the acceptor reports.\<close>

definition BeginAcceptingNewConnections :: "bytes \<Rightarrow> U16 \<times> string \<Rightarrow> tcp_server \<Rightarrow> tcp_server" where
  "BeginAcceptingNewConnections mem ep s =
     (let newConnection = length (conns s);
          s = s\<lparr>conns := conns s @ [TCPConnection_Create mem (ucast (connectionIdTracking s))],
                connectionIdTracking := connectionIdTracking s + 1\<rparr>;
          s = s\<lparr>pending := pending s @ [Accept newConnection]\<rparr>
      in s\<lparr>isAccepting := True, boundPortAddress := fst ep, boundIpAddress := snd ep\<rparr>)"

definition RescheduleMe :: "nat \<Rightarrow> tcp_server \<Rightarrow> tcp_server" where
  "RescheduleMe conn s =
     s\<lparr>connectionsAwaitingSchedule := connectionsAwaitingSchedule s @ [conn]\<rparr>"

definition NewConnectionAcceptedHandler ::
  "nat \<Rightarrow> bool \<Rightarrow> bytes \<Rightarrow> U16 \<times> string \<Rightarrow> tcp_server \<Rightarrow> tcp_server" where
  "NewConnectionAcceptedHandler newConnection error mem ep s =
     (let s = (if error then s
               else let s = RescheduleMe newConnection s
                    in s\<lparr>connectionsMade := connectionsMade s @ [newConnection]\<rparr>)
      in BeginAcceptingNewConnections mem ep s)"

definition HandleReschedule :: "tcp_server \<Rightarrow> tcp_server" where
  "HandleReschedule s =
     (let s = fold Start (connectionsAwaitingSchedule s) s
      in s\<lparr>connectionsAwaitingSchedule := []\<rparr>)"

text \<open>The loop over \<^verbatim>\<open>connectionsMade\<close> that erases behind its iterator.\<close>

fun cleanup_loop :: "connection list \<Rightarrow> nat list \<Rightarrow> nat list" where
  "cleanup_loop cs [] = []"
| "cleanup_loop cs (it2 # it) =
     (if IsClosed (cs ! it2) then cleanup_loop cs it else it2 # cleanup_loop cs it)"

definition CleanupClosedConnections :: "tcp_server \<Rightarrow> tcp_server" where
  "CleanupClosedConnections s =
     s\<lparr>connectionsMade := cleanup_loop (conns s) (connectionsMade s)\<rparr>"

text \<open>\<^verbatim>\<open>RemoveConnection\<close> looks the connection up and does nothing with it.\<close>

fun remove_loop :: "nat \<Rightarrow> nat list \<Rightarrow> nat list \<Rightarrow> nat list" where
  "remove_loop conn made [] = made"
| "remove_loop conn made (i # it) = (if i = conn then made else remove_loop conn made it)"

definition RemoveConnection :: "nat \<Rightarrow> tcp_server \<Rightarrow> tcp_server" where
  "RemoveConnection conn s =
     s\<lparr>connectionsMade := remove_loop conn (connectionsMade s) (connectionsMade s)\<rparr>"

definition NumConnectedClients :: "tcp_server \<Rightarrow> nat" where
  "NumConnectedClients s = length (connectionsMade s)"

text \<open>
  The completion handler of \<^verbatim>\<open>TCPConnection::Start\<close>. The captured \<^verbatim>\<open>buffer\<close> is a pointer to
  the connection's receive buffer, into which asio has written the bytes it received.
\<close>

definition on_read :: "bool \<Rightarrow> nat \<Rightarrow> bytes option \<Rightarrow> tcp_server \<Rightarrow> tcp_server res" where
  "on_read debug c result s =
     (case result of
        Some received \<Rightarrow>
          let buffer = received @ drop (length received) (receiveBuffer (conns s ! c));
              s = update_conn c (receiveBuffer_update (\<lambda>_. buffer)) s
          in and_then
               (receive_loop debug buffer (length received) 0 (inwardPackets (conns s ! c)) (packets s))
               (\<lambda>(inward, inOffset, f).
                 let s = update_conn c (inwardPackets_update (\<lambda>_. inward)) (s\<lparr>packets := f\<rparr>)
                 in Inr (RescheduleMe c s))
      | None \<Rightarrow> Inr (RemoveConnection c (Close c s)))"

section \<open>Runs of the server\<close>

definition complete :: "io_op \<Rightarrow> tcp_server \<Rightarrow> tcp_server" where
  "complete oper s = s\<lparr>pending := remove1 oper (pending s)\<rparr>"

definition new_server :: "factory \<Rightarrow> tcp_server" where
  "new_server f = \<lparr>conns = [], connectionsMade = [], connectionsAwaitingSchedule = [],
     connectionIdTracking = connectionIdStart, isAccepting = False, boundPortAddress = 0,
     boundIpAddress = [], pending = [], packets = f\<rparr>"

inductive server_step :: "bool \<Rightarrow> tcp_server \<Rightarrow> tcp_server \<Rightarrow> bool" for debug where
  accepted: "Accept c \<in> set (pending s) \<Longrightarrow> length mem = max_length \<Longrightarrow>
     server_step debug s (NewConnectionAcceptedHandler c error mem ep (complete (Accept c) s))"
| received: "ReadSome c \<in> set (pending s) \<Longrightarrow>
     (case result of Some bs \<Rightarrow> length bs \<le> max_length | None \<Rightarrow> True) \<Longrightarrow>
     on_read debug c result (complete (ReadSome c) s) = Inr s' \<Longrightarrow> server_step debug s s'"
| written: "Write c bs \<in> set (pending s) \<Longrightarrow> server_step debug s (complete (Write c bs) s)"
| reschedule: "server_step debug s (HandleReschedule s)"
| cleanup: "server_step debug s (CleanupClosedConnections s)"
| send: "c < length (conns s) \<Longrightarrow> length mem = 120 \<Longrightarrow> SendMessage mem c bp s = Inr s' \<Longrightarrow>
     server_step debug s s'"
| dequeue: "c < length (conns s) \<Longrightarrow> DequeMessage c s = Inr s' \<Longrightarrow> server_step debug s s'"

inductive server_reach :: "bool \<Rightarrow> (addr \<Rightarrow> U16) \<Rightarrow> tcp_server \<Rightarrow> bool" for debug junk where
  start: "InitFactory junk self_registered = Inr f \<Longrightarrow> length mem = max_length \<Longrightarrow>
     server_reach debug junk (BeginAcceptingNewConnections mem ep (new_server f))"
| step: "server_reach debug junk s \<Longrightarrow> server_step debug s s' \<Longrightarrow> server_reach debug junk s'"

section \<open>What the operations do to the state\<close>

lemma fold_Start: "fold Start cs s = s\<lparr>pending := pending s @ map ReadSome cs\<rparr>"
  by (induction cs arbitrary: s) (simp_all add: Start_def)

lemma HandleReschedule_eq:
  "HandleReschedule s = s\<lparr>pending := pending s @ map ReadSome (connectionsAwaitingSchedule s),
     connectionsAwaitingSchedule := []\<rparr>"
  by (simp add: HandleReschedule_def fold_Start)

lemma cleanup_loop_filter: "cleanup_loop cs xs = filter (\<lambda>c. \<not> hasClosed (cs ! c)) xs"
  by (induction xs) (simp_all add: IsClosed_def)

lemma remove_loop_id [simp]: "remove_loop c made it = made"
  by (induction it) simp_all

lemma RemoveConnection_nop [simp]: "RemoveConnection c s = s"
  by (simp add: RemoveConnection_def)

lemma SendMessage_state:
  "SendMessage mem c bp s = Inr s' \<Longrightarrow> \<exists>bs. s' = s\<lparr>pending := pending s @ [Write c bs]\<rparr>"
  by (auto simp: SendMessage_def)

lemma DequeMessage_state:
  "DequeMessage c s = Inr s' \<Longrightarrow> \<exists>p rest b q f. inwardPackets (conns s ! c) = p # rest \<and>
     Release p (packets s) = Inr (b, q, f) \<and>
     s' = (update_conn c (inwardPackets_update (\<lambda>_. rest)) s)\<lparr>packets := f\<rparr>"
  by (auto simp: DequeMessage_def split: list.splits)

lemma on_read_data:
  assumes "on_read debug c (Some bs) s = Inr s'" and "c < length (conns s)"
  shows "\<exists>buffer inward off f. buffer = bs @ drop (length bs) (receiveBuffer (conns s ! c)) \<and>
     receive_loop debug buffer (length bs) 0 (inwardPackets (conns s ! c)) (packets s) =
       Inr (inward, off, f) \<and>
     s' = s\<lparr>conns := (conns s)[c := (conns s ! c)\<lparr>receiveBuffer := buffer, inwardPackets := inward\<rparr>],
            packets := f,
            connectionsAwaitingSchedule := connectionsAwaitingSchedule s @ [c]\<rparr>"
  using assms by (auto simp: on_read_def Let_def RescheduleMe_def)

lemma on_read_error:
  "on_read debug c None s = Inr s' \<longleftrightarrow> s' = update_conn c (hasClosed_update (\<lambda>_. True)) s"
  by (auto simp: on_read_def Close_def)

section \<open>Connection identifiers\<close>

definition ids_inv :: "tcp_server \<Rightarrow> bool" where
  "ids_inv s \<longleftrightarrow> connectionIdTracking s = of_nat (1024 + length (conns s)) \<and>
     (\<forall>i<length (conns s). conn_id (conns s ! i) = of_nat (1024 + i) \<and>
        length (receiveBuffer (conns s ! i)) = max_length)"

lemma ids_inv_begin:
  assumes "ids_inv s" and "length mem = max_length"
  shows "ids_inv (BeginAcceptingNewConnections mem ep s)"
proof -
  have "(ucast (of_nat n :: S32) :: U16) = of_nat n" for n
    by (simp add: unsigned_of_nat word_of_nat_eq_iff)
  moreover have "connectionIdTracking s = of_nat (1024 + length (conns s))"
    using assms(1) by (simp add: ids_inv_def)
  ultimately have "(ucast (connectionIdTracking s) :: U16) = of_nat (1024 + length (conns s))"
    by (simp only:)
  then show ?thesis
    using assms unfolding ids_inv_def
    by (auto simp: BeginAcceptingNewConnections_def Let_def TCPConnection_Create_def nth_append
        less_Suc_eq)
qed

lemma ids_inv_update:
  "ids_inv s \<Longrightarrow> conn_id y = conn_id (conns s ! c) \<Longrightarrow> length (receiveBuffer y) = max_length \<Longrightarrow>
     connectionIdTracking s' = connectionIdTracking s \<Longrightarrow> conns s' = (conns s)[c := y] \<Longrightarrow> ids_inv s'"
  unfolding ids_inv_def by (auto simp: nth_update_if)

lemma ids_inv_same:
  "ids_inv s \<Longrightarrow> connectionIdTracking s' = connectionIdTracking s \<Longrightarrow> conns s' = conns s \<Longrightarrow> ids_inv s'"
  unfolding ids_inv_def by simp

section \<open>Accepting and scheduling\<close>

text \<open>How many reads of a connection are outstanding or about to be started.\<close>

definition active :: "tcp_server \<Rightarrow> nat \<Rightarrow> nat" where
  "active s c = count (mset (connectionsAwaitingSchedule s)) c +
     count (mset (pending s)) (ReadSome c)"

fun is_accept :: "io_op \<Rightarrow> bool" where
  "is_accept (Accept c) = True"
| "is_accept (ReadSome c) = False"
| "is_accept (Write c bs) = False"

definition newest :: "tcp_server \<Rightarrow> nat" where
  "newest s = length (conns s) - 1"

text \<open>
  Exactly one accept is outstanding, for the connection made last. A connection that the
  server knows and that is open has exactly one read outstanding or scheduled, every other
  connection none.
\<close>

definition sched_inv :: "tcp_server \<Rightarrow> bool" where
  "sched_inv s \<longleftrightarrow> conns s \<noteq> [] \<and>
     filter is_accept (pending s) = [Accept (newest s)] \<and>
     distinct (connectionsMade s) \<and> (\<forall>c\<in>set (connectionsMade s). c < newest s) \<and>
     \<not> hasClosed (conns s ! newest s) \<and>
     (\<forall>c. active s c = (if c \<in> set (connectionsMade s) \<and> \<not> hasClosed (conns s ! c) then 1 else 0))"

lemma sched_invD:
  assumes "sched_inv s"
  shows "conns s \<noteq> []" "filter is_accept (pending s) = [Accept (newest s)]"
    "distinct (connectionsMade s)" "\<And>c. c \<in> set (connectionsMade s) \<Longrightarrow> c < newest s"
    "\<not> hasClosed (conns s ! newest s)"
    "\<And>c. active s c = (if c \<in> set (connectionsMade s) \<and> \<not> hasClosed (conns s ! c) then 1 else 0)"
  using assms unfolding sched_inv_def by blast+

lemma accept_newest:
  assumes "sched_inv s" and "Accept c \<in> set (pending s)" shows "c = newest s"
proof -
  have "Accept c \<in> set (filter is_accept (pending s))" using assms(2) by simp
  then show ?thesis using sched_invD(2) [OF assms(1)] by simp
qed

lemma filter_remove1_other: "\<not> P x \<Longrightarrow> filter P (remove1 x xs) = filter P xs"
  by (induction xs) auto

lemma filter_remove1_only: "filter P xs = [x] \<Longrightarrow> filter P (remove1 x xs) = []"
  by (simp add: filter_remove1)

lemma read_connection:
  assumes "sched_inv s" and "ReadSome c \<in> set (pending s)"
  shows "c \<in> set (connectionsMade s)" "\<not> hasClosed (conns s ! c)" "c < newest s" "c < length (conns s)"
proof -
  have "0 < active s c" using assms(2) by (simp add: active_def count_greater_zero_iff)
  then show "c \<in> set (connectionsMade s)" "\<not> hasClosed (conns s ! c)"
    using sched_invD(6) [OF assms(1), of c] by (auto split: if_splits)
  then show "c < newest s" using sched_invD(4) [OF assms(1)] by blast
  then show "c < length (conns s)" by (simp add: newest_def)
qed

text \<open>A step that changes no connection's closed flag and no connection's activity.\<close>

lemma sched_inv_same:
  assumes "sched_inv s" and "length (conns s') = length (conns s)"
    and "\<And>c. c < length (conns s) \<Longrightarrow> hasClosed (conns s' ! c) = hasClosed (conns s ! c)"
    and "connectionsMade s' = connectionsMade s"
    and "filter is_accept (pending s') = filter is_accept (pending s)"
    and "\<And>c. active s' c = active s c"
  shows "sched_inv s'"
proof -
  note D = sched_invD [OF assms(1)]
  have n: "newest s' = newest s" "newest s < length (conns s)"
    using assms(2) D(1) by (simp_all add: newest_def)
  have "c \<in> set (connectionsMade s) \<Longrightarrow> hasClosed (conns s' ! c) = hasClosed (conns s ! c)" for c
    using D(4) [of c] n(2) assms(3) [of c] by simp
  then show ?thesis
    unfolding sched_inv_def using D assms(2,3,4,5,6) n by auto
qed

lemma sched_inv_begin:
  assumes pend: "filter is_accept (pending s) = []" and d: "distinct (connectionsMade s)"
    and lt: "\<And>c. c \<in> set (connectionsMade s) \<Longrightarrow> c < length (conns s)"
    and act: "\<And>c. active s c =
      (if c \<in> set (connectionsMade s) \<and> \<not> hasClosed (conns s ! c) then 1 else 0)"
  shows "sched_inv (BeginAcceptingNewConnections mem ep s)"
proof -
  let ?s = "BeginAcceptingNewConnections mem ep s"
  have f: "conns ?s = conns s @ [TCPConnection_Create mem (ucast (connectionIdTracking s))]"
    "pending ?s = pending s @ [Accept (length (conns s))]" "connectionsMade ?s = connectionsMade s"
    "connectionsAwaitingSchedule ?s = connectionsAwaitingSchedule s"
    by (simp_all add: BeginAcceptingNewConnections_def Let_def)
  have n: "newest ?s = length (conns s)" by (simp add: newest_def f)
  have "active ?s c = active s c" for c by (simp add: active_def f)
  moreover have "c \<in> set (connectionsMade s) \<Longrightarrow> conns ?s ! c = conns s ! c" for c
    using lt by (simp add: f nth_append)
  ultimately show ?thesis
    unfolding sched_inv_def n using pend d lt act
    by (auto simp: f TCPConnection_Create_def)
qed

lemma sched_inv_accepted:
  assumes inv: "sched_inv s" and acc: "Accept c \<in> set (pending s)"
  shows "sched_inv (NewConnectionAcceptedHandler c error mem ep (complete (Accept c) s))"
proof -
  note D = sched_invD [OF inv]
  have c: "c = newest s" using accept_newest [OF inv acc] .
  have lt: "newest s < length (conns s)" using D(1) by (simp add: newest_def)
  have nm: "c \<notin> set (connectionsMade s)" using D(4) [of c] c by auto
  let ?t = "complete (Accept c) s"
  have pend: "filter is_accept (pending ?t) = []"
    using D(2) c by (simp add: complete_def filter_remove1_only)
  have act: "active ?t d = active s d" for d
    by (simp add: active_def complete_def)
  show ?thesis
  proof (cases error)
    case True
    have "sched_inv (BeginAcceptingNewConnections mem ep ?t)"
    proof (rule sched_inv_begin)
      show "d < length (conns ?t)" if "d \<in> set (connectionsMade ?t)" for d
        using D(4) [of d] that lt by (simp add: complete_def)
    qed (use pend D(3,6) act in \<open>simp_all add: complete_def\<close>)
    then show ?thesis using True by (simp add: NewConnectionAcceptedHandler_def)
  next
    case False
    let ?u = "(RescheduleMe c ?t)\<lparr>connectionsMade := connectionsMade s @ [c]\<rparr>"
    have "active ?u d = active s d + (if d = c then 1 else 0)" for d
      by (simp add: active_def RescheduleMe_def complete_def)
    then have "active ?u d = (if d \<in> set (connectionsMade ?u) \<and> \<not> hasClosed (conns ?u ! d) then 1 else 0)"
      for d
      using D(5) D(6) [of d] nm c by (simp add: RescheduleMe_def complete_def)
    moreover have "d < length (conns ?u)" if "d \<in> set (connectionsMade ?u)" for d
      using D(4) [of d] that lt c by (auto simp: RescheduleMe_def complete_def)
    moreover have "filter is_accept (pending ?u) = []" using pend by (simp add: RescheduleMe_def)
    moreover have "distinct (connectionsMade ?u)" using D(3) nm by simp
    ultimately have "sched_inv (BeginAcceptingNewConnections mem ep ?u)"
      using sched_inv_begin by blast
    moreover have "connectionsMade (RescheduleMe c ?t) = connectionsMade s"
      by (simp add: RescheduleMe_def complete_def)
    ultimately show ?thesis using False by (simp add: NewConnectionAcceptedHandler_def Let_def)
  qed
qed

lemma sched_inv_received:
  assumes inv: "sched_inv s" and rd: "ReadSome c \<in> set (pending s)"
    and on: "on_read debug c result (complete (ReadSome c) s) = Inr s'"
  shows "sched_inv s'"
proof -
  note D = sched_invD [OF inv]
  note R = read_connection [OF inv rd]
  let ?t = "complete (ReadSome c) s"
  have pend: "filter is_accept (pending ?t) = filter is_accept (pending s)"
    by (simp add: complete_def filter_remove1_other)
  have one: "0 < count (mset (pending s)) (ReadSome c)" using rd by (simp add: count_greater_zero_iff)
  have act: "active ?t d + (if d = c then 1 else 0) = active s d" for d
    using one by (simp add: active_def complete_def)
  show ?thesis
  proof (cases result)
    case (Some bs)
    have ct: "c < length (conns ?t)" using R(4) by (simp add: complete_def)
    obtain y f where s': "s' = ?t\<lparr>conns := (conns ?t)[c := y], packets := f,
        connectionsAwaitingSchedule := connectionsAwaitingSchedule ?t @ [c]\<rparr>"
      "hasClosed y = hasClosed (conns ?t ! c)"
      using on_read_data [OF on [unfolded Some] ct] by auto
    show ?thesis
    proof (rule sched_inv_same [OF inv])
      show "active s' d = active s d" for d
        using act [of d] by (cases "d = c") (simp_all add: s'(1) active_def)
    qed (use s' pend in \<open>auto simp: complete_def nth_update_if\<close>)
  next
    case None
    then have s': "s' = update_conn c (hasClosed_update (\<lambda>_. True)) ?t"
      using on by (simp add: on_read_error)
    have "newest s' = newest s" by (simp add: s' newest_def complete_def)
    moreover have "active s' d = active ?t d" for d by (simp add: s' active_def)
    then have e: "active s' d + (if d = c then 1 else 0) =
        (if d \<in> set (connectionsMade s) \<and> \<not> hasClosed (conns s ! d) then 1 else 0)" for d
      using act [of d] D(6) [of d] by simp
    have cl: "hasClosed (conns s' ! d) \<longleftrightarrow> d = c \<or> hasClosed (conns s ! d)"
      and md: "connectionsMade s' = connectionsMade s" for d
      using R(4) by (auto simp: s' complete_def nth_update_if)
    have "active s' d =
        (if d \<in> set (connectionsMade s') \<and> \<not> hasClosed (conns s' ! d) then 1 else 0)" for d
      using e [of d] R(1,2) unfolding cl md by (cases "d = c") auto
    ultimately show ?thesis
      unfolding sched_inv_def using D R(3) pend
      by (auto simp: s' complete_def nth_update_if)
  qed
qed

lemma count_map_ReadSome: "count (mset (map ReadSome cs)) (ReadSome c) = count (mset cs) c"
  by (induction cs) simp_all

lemma sched_inv_reschedule:
  assumes "sched_inv s" shows "sched_inv (HandleReschedule s)"
proof -
  have "active (HandleReschedule s) c = active s c" for c
    using count_map_ReadSome [of "connectionsAwaitingSchedule s" c]
    by (simp add: HandleReschedule_eq active_def)
  moreover have "filter is_accept (map ReadSome cs) = []" for cs by (induction cs) simp_all
  ultimately show ?thesis
    by (intro sched_inv_same [OF assms]) (simp_all add: HandleReschedule_eq)
qed

lemma sched_inv_cleanup:
  assumes "sched_inv s" shows "sched_inv (CleanupClosedConnections s)"
proof -
  have "active (CleanupClosedConnections s) c = active s c" for c
    by (simp add: CleanupClosedConnections_def active_def)
  then show ?thesis
    using assms unfolding sched_inv_def
    by (auto simp: CleanupClosedConnections_def cleanup_loop_filter newest_def)
qed

lemma server_step_sched:
  assumes "server_step debug s s'" and inv: "sched_inv s"
  shows "sched_inv s'"
  using assms(1)
proof (cases rule: server_step.cases)
  case (accepted c mem error ep)
  then show ?thesis using sched_inv_accepted [OF inv] by blast
next
  case (received c result)
  then show ?thesis using sched_inv_received [OF inv] by blast
next
  case (written c bs)
  then show ?thesis
    by (intro sched_inv_same [OF inv])
      (simp_all add: complete_def filter_remove1_other active_def)
next
  case reschedule
  then show ?thesis using sched_inv_reschedule [OF inv] by simp
next
  case cleanup
  then show ?thesis using sched_inv_cleanup [OF inv] by simp
next
  case (send c mem bp)
  then obtain bs where "s' = s\<lparr>pending := pending s @ [Write c bs]\<rparr>"
    using SendMessage_state by blast
  then show ?thesis by (intro sched_inv_same [OF inv]) (simp_all add: active_def)
next
  case (dequeue c)
  then show ?thesis
    using DequeMessage_state [of c s s']
    by (intro sched_inv_same [OF inv]) (auto simp: active_def nth_update_if split: if_splits)
qed

lemma server_step_ids:
  assumes "server_step debug s s'" and inv: "ids_inv s" and sch: "sched_inv s"
  shows "ids_inv s'"
  using assms(1)
proof (cases rule: server_step.cases)
  case (accepted c mem error ep)
  have "ids_inv (complete (Accept c) s)"
    by (rule ids_inv_same [OF inv]) (simp_all add: complete_def)
  then show ?thesis
    using accepted ids_inv_begin ids_inv_same
    by (cases error) (auto simp: NewConnectionAcceptedHandler_def RescheduleMe_def Let_def)
next
  case (received c result)
  let ?t = "complete (ReadSome c) s"
  have t: "ids_inv ?t" by (rule ids_inv_same [OF inv]) (simp_all add: complete_def)
  have c: "c < length (conns ?t)" using read_connection(4) [OF sch received(1)] by (simp add: complete_def)
  have len: "length (receiveBuffer (conns ?t ! c)) = max_length" using t c by (simp add: ids_inv_def)
  show ?thesis
  proof (cases result)
    case (Some bs)
    then obtain y f where "s' = ?t\<lparr>conns := (conns ?t)[c := y], packets := f,
        connectionsAwaitingSchedule := connectionsAwaitingSchedule ?t @ [c]\<rparr>"
      "conn_id y = conn_id (conns ?t ! c)" "length (receiveBuffer y) = max_length"
      using on_read_data [OF received(3) [unfolded Some] c] received(2) len by auto
    then show ?thesis by (intro ids_inv_update [OF t]) simp_all
  next
    case None
    then have "s' = update_conn c (hasClosed_update (\<lambda>_. True)) ?t"
      using received(3) by (simp add: on_read_error)
    then show ?thesis using len by (intro ids_inv_update [OF t]) simp_all
  qed
next
  case (dequeue c)
  then obtain f rest where
    "s' = (update_conn c (inwardPackets_update (\<lambda>_. rest)) s)\<lparr>packets := f\<rparr>"
    using DequeMessage_state by blast
  moreover have "length (receiveBuffer (conns s ! c)) = max_length"
    using inv dequeue(1) by (simp add: ids_inv_def)
  ultimately show ?thesis by (intro ids_inv_update [OF inv]) simp_all
next
  case (send c mem bp)
  then show ?thesis using SendMessage_state ids_inv_same [OF inv] by fastforce
qed (auto simp: complete_def HandleReschedule_eq CleanupClosedConnections_def
    intro: ids_inv_same [OF inv])

section \<open>Who owns the packets\<close>

text \<open>The objects that stand in the connections' queues.\<close>

definition queued :: "connection \<Rightarrow> addr list" where
  "queued conn = map the (inwardPackets conn)"

definition held_by :: "tcp_server \<Rightarrow> addr list" where
  "held_by s = concat (map queued (conns s))"

definition own_inv :: "tcp_server \<Rightarrow> bool" where
  "own_inv s \<longleftrightarrow> (\<forall>conn\<in>set (conns s). None \<notin> set (inwardPackets conn)) \<and>
     pool_inv (packets s) (held_by s)"

lemma own_invD:
  assumes "own_inv s"
  shows "pool_inv (packets s) (held_by s)"
    "c < length (conns s) \<Longrightarrow> None \<notin> set (inwardPackets (conns s ! c))"
  using assms unfolding own_inv_def by auto

lemma mset_concat_update:
  assumes "c < length xs"
  shows "mset (concat (map g (xs[c := y]))) + mset (g (xs ! c)) = mset (concat (map g xs)) + mset (g y)"
proof -
  have "xs = take c xs @ xs ! c # drop (Suc c) xs" by (rule id_take_nth_drop [OF assms])
  then have "mset (concat (map g xs)) =
      mset (concat (map g (take c xs @ xs ! c # drop (Suc c) xs)))" by simp
  then show ?thesis using assms by (simp add: upd_conv_take_nth_drop)
qed

lemma own_inv_update:
  assumes inv: "own_inv s" and c: "c < length (conns s)" and s': "conns s' = (conns s)[c := y]"
    and some: "None \<notin> set (inwardPackets y)"
    and pool: "pool_inv (packets s') held"
    and h: "mset held + mset (queued (conns s ! c)) = mset (held_by s) + mset (queued y)"
  shows "own_inv s'"
proof -
  have "mset (held_by s') + mset (queued (conns s ! c)) = mset (held_by s) + mset (queued y)"
    unfolding held_by_def s' by (rule mset_concat_update [OF c])
  then have "mset (held_by s') = mset held" using h by (metis add_right_cancel)
  then have "pool_inv (packets s') (held_by s')" using pool_inv_mset [OF pool] by blast
  then show ?thesis
    using inv some unfolding own_inv_def s' by (auto dest: set_update_subset_insert [THEN subsetD])
qed

lemma own_inv_same:
  "own_inv s \<Longrightarrow> packets s' = packets s \<Longrightarrow> map inwardPackets (conns s') = map inwardPackets (conns s) \<Longrightarrow>
     own_inv s'"
proof -
  assume a: "own_inv s" "packets s' = packets s"
    "map inwardPackets (conns s') = map inwardPackets (conns s)"
  have q: "queued = map the \<circ> inwardPackets" by (rule ext) (simp add: queued_def)
  have "held_by t = concat (map (map the) (map inwardPackets (conns t)))" for t
    by (simp add: held_by_def q)
  then have h: "held_by s' = held_by s" using a(3) by (simp only:)
  have "inwardPackets ` set (conns s') = inwardPackets ` set (conns s)"
    using a(3) by (metis set_map)
  then have "\<forall>conn\<in>set (conns s'). None \<notin> set (inwardPackets conn)"
    using a(1) unfolding own_inv_def by (metis imageE image_eqI)
  then show ?thesis using a(1,2) h unfolding own_inv_def by simp
qed

lemma own_inv_begin:
  assumes "own_inv s" shows "own_inv (BeginAcceptingNewConnections mem ep s)"
  using assms unfolding own_inv_def held_by_def
  by (auto simp: BeginAcceptingNewConnections_def Let_def TCPConnection_Create_def queued_def)

lemma map_the_Some [simp]: "map (the \<circ> Some) xs = xs"
  by (induction xs) simp_all

lemma server_step_own:
  assumes "server_step debug s s'" and inv: "own_inv s" and sch: "sched_inv s"
  shows "own_inv s'"
  using assms(1)
proof (cases rule: server_step.cases)
  case (accepted c mem error ep)
  have "own_inv (complete (Accept c) s)"
    by (rule own_inv_same [OF inv]) (simp_all add: complete_def)
  then show ?thesis
    using accepted own_inv_begin own_inv_same
    by (cases error) (auto simp: NewConnectionAcceptedHandler_def RescheduleMe_def Let_def)
next
  case (received c result)
  let ?t = "complete (ReadSome c) s"
  have t: "own_inv ?t" by (rule own_inv_same [OF inv]) (simp_all add: complete_def)
  have c: "c < length (conns ?t)" using read_connection(4) [OF sch received(1)] by (simp add: complete_def)
  note some = own_invD(2) [OF t c]
  show ?thesis
  proof (cases result)
    case (Some bs)
    obtain buffer inward off f where l: "receive_loop debug buffer (length bs) 0
        (inwardPackets (conns ?t ! c)) (packets ?t) = Inr (inward, off, f)"
      and s': "s' = ?t\<lparr>conns := (conns ?t)[c := (conns ?t ! c)
            \<lparr>receiveBuffer := buffer, inwardPackets := inward\<rparr>], packets := f,
          connectionsAwaitingSchedule := connectionsAwaitingSchedule ?t @ [c]\<rparr>"
      using on_read_data [OF received(3) [unfolded Some] c] by blast
    obtain as where as: "inward = inwardPackets (conns ?t ! c) @ map Some as"
      "pool_inv f (rev as @ held_by ?t)"
      using receive_loop_inv [OF l own_invD(1) [OF t]] by blast
    show ?thesis
    proof (rule own_inv_update [OF t c])
      show "conns s' = (conns ?t)[c := (conns ?t ! c)\<lparr>receiveBuffer := buffer, inwardPackets := inward\<rparr>]"
        by (simp add: s')
      show "pool_inv (packets s') (rev as @ held_by ?t)" using as(2) by (simp add: s')
    qed (use as some in \<open>auto simp: queued_def\<close>)
  next
    case None
    then have "s' = update_conn c (hasClosed_update (\<lambda>_. True)) ?t"
      using received(3) by (simp add: on_read_error)
    then show ?thesis
      by (intro own_inv_same [OF t]) (simp_all add: map_update_same)
  qed
next
  case (dequeue c)
  then obtain p rest b q f where d: "inwardPackets (conns s ! c) = p # rest"
    "Release p (packets s) = Inr (b, q, f)"
    "s' = (update_conn c (inwardPackets_update (\<lambda>_. rest)) s)\<lparr>packets := f\<rparr>"
    using DequeMessage_state by blast
  note some = own_invD(2) [OF inv dequeue(1)]
  then obtain a where a: "p = Some a" using d(1) by (cases p) auto
  have mem: "a \<in> set (held_by s)"
  proof -
    have "a \<in> set (queued (conns s ! c))" using d(1) a by (simp add: queued_def)
    then show ?thesis unfolding held_by_def using nth_mem [OF dequeue(1)] by auto
  qed
  obtain g where "Release (Some a) (packets s) = Inr (True, None, g)" "pool_inv g (remove1 a (held_by s))"
    using Release_inv [OF own_invD(1) [OF inv] mem] by blast
  then have pool: "pool_inv (packets s') (remove1 a (held_by s))" using d a by simp
  show ?thesis
    by (rule own_inv_update [OF inv dequeue(1) _ _ pool]) (use d a some mem in \<open>auto simp: queued_def\<close>)
next
  case (send c mem bp)
  then show ?thesis using SendMessage_state own_inv_same [OF inv] by fastforce
qed (auto simp: complete_def HandleReschedule_eq CleanupClosedConnections_def
    intro: own_inv_same [OF inv])

section \<open>Reachable states\<close>

lemma server_reach_inv: "server_reach debug junk s \<Longrightarrow> ids_inv s \<and> sched_inv s \<and> own_inv s"
proof (induction rule: server_reach.induct)
  case (start f mem ep)
  have "ids_inv (new_server f)" by (simp add: ids_inv_def new_server_def connectionIdStart_def)
  moreover have "own_inv (new_server f)"
    using pool_inv_start [OF start(1)] by (simp add: own_inv_def held_by_def new_server_def)
  moreover have "sched_inv (BeginAcceptingNewConnections mem ep (new_server f))"
    by (rule sched_inv_begin) (simp_all add: new_server_def active_def)
  ultimately show ?case using ids_inv_begin start(2) own_inv_begin by blast
next
  case (step s s')
  then show ?case using server_step_ids server_step_sched server_step_own by blast
qed

section \<open>What a read delivers\<close>

lemma on_read_delivers:
  assumes inv: "pool_inv (packets s) held" and c: "c < length (conns s)"
    and buf: "length (receiveBuffer (conns s ! c)) = max_length"
    and wt: "list_all well_typed ps"
    and space: "\<forall>c. held_of (packets s) held (class_key c) + count_of c ps \<le> numToCreate"
    and k: "k < length (enc_frame p)"
    and len: "length (enc_stream ps) + 3 \<le> max_length" "length (enc_stream ps) + k \<le> max_length"
  shows "\<exists>s' as. on_read debug c (Some (enc_stream ps @ take k (enc_frame p))) s = Inr s' \<and>
    inwardPackets (conns s' ! c) = inwardPackets (conns s ! c) @ map Some as \<and>
    map (\<lambda>a. heap (packets s') ! a) as = ps \<and> pool_inv (packets s') (rev as @ held) \<and>
    (\<forall>a\<in>set held. heap (packets s') ! a = heap (packets s) ! a)"
proof -
  let ?data = "enc_stream ps @ take k (enc_frame p)"
  let ?buf = "?data @ drop (length ?data) (receiveBuffer (conns s ! c))"
  have ld: "length ?data = length (enc_stream ps) + k" using k by simp
  have h: "holds_at ?buf 0 ?data" by (rule holds_at_prefix [of 0 "[]", simplified])
  have lb: "length (enc_stream ps) + 3 \<le> length ?buf" using len ld buf by simp
  obtain as g where g: "receive_loop debug ?buf (length ?data) 0 [] (packets s) =
        Inr (map Some as, length (enc_stream ps), g)"
      "pool_inv g (rev as @ held)" "map (\<lambda>a. heap g ! a) as = ps"
      "\<forall>a\<in>set held. heap g ! a = heap (packets s) ! a"
    using receive_frames_partial [OF inv wt space h k ld lb] by blast
  have "receive_loop debug ?buf (length ?data) 0 (inwardPackets (conns s ! c)) (packets s) =
      Inr (inwardPackets (conns s ! c) @ map Some as, length (enc_stream ps), g)"
    by (rule receive_loop_queue [where inward = "[]" and new = "map Some as",
          unfolded append_Nil append_Nil2, OF g(1)])
  then show ?thesis
    using g c by (intro exI [of _ "RescheduleMe c (update_conn c (inwardPackets_update (\<lambda>_.
        inwardPackets (conns s ! c) @ map Some as))
          ((update_conn c (receiveBuffer_update (\<lambda>_. ?buf)) s)\<lparr>packets := g\<rparr>))"] exI [of _ as])
      (simp add: on_read_def Let_def RescheduleMe_def)
qed

text \<open>
  Complete frames that fill the receive buffer to its last three bytes: the loop reads the
  size of a next frame behind the array.
\<close>

lemma on_read_overrun:
  assumes inv: "pool_inv (packets s) held" and c: "c < length (conns s)"
    and buf: "length (receiveBuffer (conns s ! c)) = max_length"
    and wt: "list_all well_typed ps"
    and space: "\<forall>c. held_of (packets s) held (class_key c) + count_of c ps \<le> numToCreate"
    and len: "max_length < length (enc_stream ps) + 3" "length (enc_stream ps) \<le> max_length"
  shows "on_read debug c (Some (enc_stream ps)) s = Inl OutOfBounds"
proof -
  let ?data = "enc_stream ps"
  let ?buf = "?data @ drop (length ?data) (receiveBuffer (conns s ! c))"
  have h: "holds_at ?buf 0 ?data" by (rule holds_at_prefix [of 0 "[]", simplified])
  have lb: "length ?buf = max_length" using len buf by simp
  obtain as g where "receive_loop debug ?buf (length ?data) 0 (inwardPackets (conns s ! c)) (packets s) =
      receive_loop debug ?buf (length ?data) (length ?data) (inwardPackets (conns s ! c) @ map Some as) g"
    using receive_frames [OF inv h _ wt space, where received = "length ?data" and debug = debug
      and inward = "inwardPackets (conns s ! c)"] by auto
  moreover have "IsRemainingBufferBigenough ?buf (length ?data) (length ?data) = None"
    using takes_None [OF s_U16.takes_inp, of ?buf "length ?data + 1"] lb len
    by (simp add: IsRemainingBufferBigenough_def)
  ultimately have "receive_loop debug ?buf (length ?data) 0 (inwardPackets (conns s ! c)) (packets s) =
      Inl OutOfBounds"
    by (subst (asm) (2) receive_loop.simps) simp
  then show ?thesis using c by (simp add: on_read_def Let_def)
qed

lemma SendMessage_frame:
  assumes a: "a < length (heap (packets s))" and mem: "length mem = 120"
  shows "SendMessage mem c (Some a) s =
    Inr (s\<lparr>pending := pending s @ [Write c (enc_frame (heap (packets s) ! a))]\<rparr>)"
proof -
  let ?e = "enc_frame (heap (packets s) ! a)"
  have "class_width (class_of (heap (packets s) ! a)) \<le> 29" by (cases "class_of (heap (packets s) ! a)") auto
  then have "length ?e \<le> length mem" using mem by simp
  then have "wr mem 0 ?e = Some (?e @ drop (length ?e) mem)" by (simp add: wr_def)
  then show ?thesis
    using SizePacket_Out_frame [OF a, of mem 0] by (simp add: SendMessage_def del: length_enc_frame)
qed

section \<open>TCPThreader\<close>

text \<open>
  The object that owns the server and its threads. \<open>work_guard\<close> is the executor work guard
  that keeps \<^verbatim>\<open>run()\<close> from returning.
\<close>

record threader =
  tcpServer :: "tcp_server option"
  portAddress :: U16
  isThreadRunning :: bool
  work_guard :: bool

definition new_TCPThreader :: "U16 \<Rightarrow> threader" where
  "new_TCPThreader portAddr =
     \<lparr>tcpServer = None, portAddress = portAddr, isThreadRunning = False, work_guard = True\<rparr>"

definition BeginService :: "bytes \<Rightarrow> U16 \<times> string \<Rightarrow> factory \<Rightarrow> threader \<Rightarrow> threader" where
  "BeginService mem ep f t =
     t\<lparr>tcpServer := Some (BeginAcceptingNewConnections mem ep (new_server f)),
       isThreadRunning := True\<rparr>"

definition Threader_IsConnected :: "threader \<Rightarrow> bool" where
  "Threader_IsConnected t = (case tcpServer t of None \<Rightarrow> False | Some s \<Rightarrow> isAccepting s)"

definition Threader_PrepareStop :: "threader \<Rightarrow> threader" where
  "Threader_PrepareStop t = t\<lparr>isThreadRunning := False\<rparr>"

definition Threader_Stop :: "threader \<Rightarrow> threader" where
  "Threader_Stop t = t\<lparr>work_guard := False\<rparr>"

definition Threader_GetPortAddr :: "threader \<Rightarrow> U16" where
  "Threader_GetPortAddr t =
     (case tcpServer t of None \<Rightarrow> portAddress t | Some s \<Rightarrow> boundPortAddress s)"

definition Threader_GetSocketAddr :: "threader \<Rightarrow> string" where
  "Threader_GetSocketAddr t =
     (case tcpServer t of None \<Rightarrow> ''0.0.0.0'' | Some s \<Rightarrow> boundIpAddress s)"

definition Threader_NumConnectedClients :: "threader \<Rightarrow> nat res" where
  "Threader_NumConnectedClients t =
     (case tcpServer t of None \<Rightarrow> Inl NullDeref | Some s \<Rightarrow> Inr (NumConnectedClients s))"

text \<open>
  One round of the loop of \<^verbatim>\<open>ThreadRun\<close>: \<open>run\<close> is what happens while \<^verbatim>\<open>run()\<close> and the sleep
  last, which may clear \<open>isThreadRunning\<close>. The result says whether the loop goes on.
\<close>

definition ThreadRun_round :: "(threader \<Rightarrow> threader) \<Rightarrow> threader \<Rightarrow> bool \<times> threader" where
  "ThreadRun_round run t =
     (if isThreadRunning t
      then let t = run t;
               t = (if isThreadRunning t
                    then t\<lparr>tcpServer := map_option CleanupClosedConnections (tcpServer t)\<rparr> else t);
               t = (if isThreadRunning t
                    then t\<lparr>tcpServer := map_option HandleReschedule (tcpServer t)\<rparr> else t)
           in (True, t)
      else (False, t))"

text \<open>One round starts a read on every open connection that waits for one.\<close>

lemma ThreadRun_round_running:
  assumes "isThreadRunning t" and "isThreadRunning (run t)" and "tcpServer (run t) = Some s"
  shows "ThreadRun_round run t = (True, (run t)\<lparr>tcpServer :=
    Some (HandleReschedule (CleanupClosedConnections s))\<rparr>)"
  using assms by (simp add: ThreadRun_round_def Let_def)

lemma reschedule_starts_all:
  assumes inv: "sched_inv s" and c: "c \<in> set (connectionsMade s)" and o: "\<not> hasClosed (conns s ! c)"
  shows "ReadSome c \<in> set (pending (HandleReschedule s))"
proof -
  have "active s c = 1" using sched_invD(6) [OF inv, of c] c o by simp
  then have "c \<in> set (connectionsAwaitingSchedule s) \<or> ReadSome c \<in> set (pending s)"
    unfolding active_def by (metis add_is_0 count_mset_0_iff one_neq_zero)
  then show ?thesis by (auto simp: HandleReschedule_eq)
qed

section \<open>UDPServer\<close>

text \<open>
  The daytime server. \<open>daytime\<close> is the text that \<^verbatim>\<open>ctime\<close> makes of the current time.
\<close>

datatype udp_op = UdpReceive | UdpSend string

definition Udp_start_receive :: "udp_op list \<Rightarrow> udp_op list" where
  "Udp_start_receive ops = ops @ [UdpReceive]"

definition new_UDPServer :: "udp_op list" where
  "new_UDPServer = Udp_start_receive []"

definition Udp_handle_receive :: "string \<Rightarrow> bool \<Rightarrow> udp_op list \<Rightarrow> udp_op list" where
  "Udp_handle_receive daytime error ops =
     (if \<not> error then Udp_start_receive (ops @ [UdpSend daytime]) else ops)"

definition Udp_handle_send :: "udp_op list \<Rightarrow> udp_op list" where
  "Udp_handle_send ops = ops"

inductive udp_step :: "udp_op list \<Rightarrow> udp_op list \<Rightarrow> bool" where
  udp_received: "UdpReceive \<in> set ops \<Longrightarrow>
     udp_step ops (Udp_handle_receive daytime error (remove1 UdpReceive ops))"
| udp_sent: "UdpSend msg \<in> set ops \<Longrightarrow> udp_step ops (Udp_handle_send (remove1 (UdpSend msg) ops))"

inductive udp_reach :: "udp_op list \<Rightarrow> bool" where
  udp_start: "udp_reach new_UDPServer"
| udp_more: "udp_reach ops \<Longrightarrow> udp_step ops ops' \<Longrightarrow> udp_reach ops'"

lemma udp_one_receive: "udp_reach ops \<Longrightarrow> count (mset ops) UdpReceive \<le> 1"
proof (induction rule: udp_reach.induct)
  case udp_start
  then show ?case by (simp add: new_UDPServer_def Udp_start_receive_def)
next
  case (udp_more ops ops')
  show ?case using udp_more(2,3)
    by (cases rule: udp_step.cases)
      (auto simp: Udp_handle_receive_def Udp_start_receive_def Udp_handle_send_def)
qed

text \<open>One receive error silences the server for good.\<close>

lemma udp_dead:
  "udp_step\<^sup>*\<^sup>* ops ops' \<Longrightarrow> UdpReceive \<notin> set ops \<Longrightarrow> mset ops' \<subseteq># mset ops"
proof (induction rule: rtranclp_induct)
  case base
  then show ?case by simp
next
  case (step y z)
  then have le: "mset y \<subseteq># mset ops" and no: "UdpReceive \<notin> set y"
    using set_mset_mono by fastforce+
  show ?case using step(2)
  proof (cases rule: udp_step.cases)
    case (udp_received daytime error)
    then show ?thesis using no by simp
  next
    case (udp_sent msg)
    then have "mset z \<subseteq># mset y" by (simp add: Udp_handle_send_def)
    then show ?thesis using le by (rule subset_mset.order_trans)
  qed
qed

end
