(* ===== verification/Tcp_Client.thy ===== *)
theory Tcp_Client
  imports Size_Packet
begin

text \<open>
  The TCP client of \<^verbatim>\<open>UDP01/OldCode/Socket/ClientSocket.h/.cpp\<close>. The asio operations in
  progress are the list \<open>ops\<close>; asio completes them in any order, and a completion handler is
  one step. A handler that asks for an operation appends it. Time is a natural number of
  seconds, and \<^term>\<open>None\<close> as a deadline is the maximal time point.
\<close>

section \<open>State\<close>

datatype client_op = Connect nat | ReadUntil | AsyncWrite bytes | DeadlineWait | HeartbeatWait

record tcp_client =
  stopped :: bool
  endpoints :: "string list"
  socket_open :: bool
  input_buffer :: bytes
  deadline :: "nat option"
  client_connected :: bool
  packetOutDeque :: "pointer list"
  packetInDeque :: "pointer list"
  ops :: "client_op list"
  client_packets :: factory

definition new_TCPClient :: "factory \<Rightarrow> tcp_client" where
  "new_TCPClient f = \<lparr>stopped = False, endpoints = [], socket_open = False, input_buffer = [],
     deadline = Some 0, client_connected = False, packetOutDeque = [], packetInDeque = [],
     ops = [], client_packets = f\<rparr>"

section \<open>Operations\<close>

definition Client_Write :: "pointer \<Rightarrow> tcp_client \<Rightarrow> tcp_client" where
  "Client_Write packet s = s\<lparr>packetOutDeque := packetOutDeque s @ [packet]\<rparr>"

definition Client_Read :: "bool \<Rightarrow> pointer list \<Rightarrow> tcp_client \<Rightarrow> pointer list \<times> tcp_client" where
  "Client_Read shouldClear packetDeque s =
     (packetDeque @ packetInDeque s, if shouldClear then s\<lparr>packetInDeque := []\<rparr> else s)"

definition GetNumPendingOutgoingPackets :: "tcp_client \<Rightarrow> nat" where
  "GetNumPendingOutgoingPackets s = length (packetOutDeque s)"

definition GetNumPendingInwardPackets :: "tcp_client \<Rightarrow> nat" where
  "GetNumPendingInwardPackets s = length (packetInDeque s)"

definition async :: "client_op \<Rightarrow> tcp_client \<Rightarrow> tcp_client" where
  "async oper s = s\<lparr>ops := ops s @ [oper]\<rparr>"

definition stop :: "tcp_client \<Rightarrow> tcp_client" where
  "stop s = s\<lparr>stopped := True, socket_open := False, client_connected := False\<rparr>"

text \<open>\<^verbatim>\<open>async_connect\<close> opens the socket; an iterator is a position of \<open>endpoints\<close>.\<close>

definition start_connect :: "nat \<Rightarrow> nat \<Rightarrow> tcp_client \<Rightarrow> tcp_client" where
  "start_connect now endpoint_iter s =
     (if endpoint_iter \<noteq> length (endpoints s)
      then async (Connect endpoint_iter) (s\<lparr>deadline := Some (now + 60), socket_open := True\<rparr>)
      else stop s)"

definition start :: "nat \<Rightarrow> string list \<Rightarrow> tcp_client \<Rightarrow> tcp_client" where
  "start now eps s =
     (let s = s\<lparr>endpoints := eps\<rparr>;
          s = start_connect now 0 s
      in async DeadlineWait s)"

definition start_read :: "nat \<Rightarrow> tcp_client \<Rightarrow> tcp_client" where
  "start_read now s = async ReadUntil (s\<lparr>deadline := Some (now + 30)\<rparr>)"

text \<open>
  The loop of \<^verbatim>\<open>start_write\<close>. Every \<^verbatim>\<open>async_write\<close> sends the first \<^verbatim>\<open>outOffset\<close> bytes of the
  one buffer, and \<^verbatim>\<open>outOffset\<close> is never set back.
\<close>

fun write_loop ::
  "bytes \<Rightarrow> nat \<Rightarrow> pointer list \<Rightarrow> client_op list \<Rightarrow> factory \<Rightarrow> (client_op list \<times> factory) res" where
  "write_loop buffer outOffset [] out f = Inr (out, f)"
| "write_loop buffer outOffset (bp # rest) out f =
     and_then (SizePacket_SerializeOut f buffer outOffset bp) (\<lambda>(buffer, outOffset).
     and_then (Release bp f) (\<lambda>(ok, bp, f).
     write_loop buffer outOffset rest (out @ [AsyncWrite (take outOffset buffer)]) f))"

text \<open>\<open>mem\<close> is the uninitialised array \<^verbatim>\<open>U8 buffer[120]\<close>.\<close>

definition start_write :: "bytes \<Rightarrow> tcp_client \<Rightarrow> tcp_client res" where
  "start_write mem s =
     (if stopped s then Inr s
      else and_then (write_loop mem 0 (packetOutDeque s) [] (client_packets s)) (\<lambda>(out, f).
        Inr (s\<lparr>ops := ops s @ out, client_packets := f, packetOutDeque := []\<rparr>)))"

definition handle_connect :: "nat \<Rightarrow> bytes \<Rightarrow> bool \<Rightarrow> nat \<Rightarrow> tcp_client \<Rightarrow> tcp_client res" where
  "handle_connect now mem ec endpoint_iter s =
     (if stopped s then Inr s
      else if \<not> socket_open s then Inr (start_connect now (endpoint_iter + 1) s)
      else if ec then
        let s = s\<lparr>socket_open := False\<rparr>
        in Inr (start_connect now (endpoint_iter + 1) s)
      else
        let s = s\<lparr>client_connected := True\<rparr>;
            s = start_read now s
        in start_write mem s)"

text \<open>
  \<^verbatim>\<open>handle_read\<close>: the line is what it prints; \<^verbatim>\<open>n - 1\<close> with \<open>n = 0\<close> wraps to the largest
  length, which takes the whole buffer.
\<close>

definition handle_read :: "nat \<Rightarrow> bool \<Rightarrow> nat \<Rightarrow> tcp_client \<Rightarrow> bytes option \<times> tcp_client" where
  "handle_read now ec n s =
     (if stopped s then (None, s)
      else if \<not> ec then
        let line = (if n = 0 then input_buffer s else take (n - 1) (input_buffer s));
            s = s\<lparr>input_buffer := drop n (input_buffer s)\<rparr>
        in (if line \<noteq> [] then Some line else None, start_read now s)
      else (None, stop s))"

definition handle_write :: "bool \<Rightarrow> tcp_client \<Rightarrow> tcp_client" where
  "handle_write ec s =
     (if stopped s then s
      else if \<not> ec then async HeartbeatWait s
      else stop s)"

definition check_deadline :: "nat \<Rightarrow> tcp_client \<Rightarrow> tcp_client" where
  "check_deadline now s =
     (if stopped s then s
      else let s = (if (case deadline s of None \<Rightarrow> False | Some t \<Rightarrow> t \<le> now)
                    then s\<lparr>socket_open := False, deadline := None\<rparr> else s)
           in async DeadlineWait s)"

section \<open>Runs of the client\<close>

definition finish :: "client_op \<Rightarrow> tcp_client \<Rightarrow> tcp_client" where
  "finish oper s = s\<lparr>ops := remove1 oper (ops s)\<rparr>"

text \<open>
  A read completes with the received bytes appended to the input buffer and \<open>n\<close> just behind
  the first newline.
\<close>

inductive client_step :: "tcp_client \<Rightarrow> tcp_client \<Rightarrow> bool" where
  connect: "Connect i \<in> set (ops s) \<Longrightarrow> length mem = 120 \<Longrightarrow>
     handle_connect now mem ec i (finish (Connect i) s) = Inr s' \<Longrightarrow> client_step s s'"
| read: "ReadUntil \<in> set (ops s) \<Longrightarrow>
     client_step s (snd (handle_read now ec n
       ((finish ReadUntil s)\<lparr>input_buffer := input_buffer s @ received\<rparr>)))"
| written: "AsyncWrite bs \<in> set (ops s) \<Longrightarrow>
     client_step s (handle_write ec (finish (AsyncWrite bs) s))"
| deadline: "DeadlineWait \<in> set (ops s) \<Longrightarrow>
     client_step s (check_deadline now (finish DeadlineWait s))"
| heartbeat: "HeartbeatWait \<in> set (ops s) \<Longrightarrow> length mem = 120 \<Longrightarrow>
     start_write mem (finish HeartbeatWait s) = Inr s' \<Longrightarrow> client_step s s'"
| queue: "client_step s (Client_Write packet s)"
| take_in: "client_step s (snd (Client_Read clear dest s))"
| user_stop: "client_step s (stop s)"

inductive client_reach :: "factory \<Rightarrow> tcp_client \<Rightarrow> bool" for f where
  begun: "client_reach f (start now eps (new_TCPClient f))"
| step: "client_reach f s \<Longrightarrow> client_step s s' \<Longrightarrow> client_reach f s'"

section \<open>The actors of a session\<close>

text \<open>
  The connect and input actors are one activity that is either connecting or reading; the
  deadline actor is another. Each is present exactly once until the client is stopped.
\<close>

fun is_session :: "client_op \<Rightarrow> bool" where
  "is_session (Connect i) = True"
| "is_session ReadUntil = True"
| "is_session (AsyncWrite bs) = False"
| "is_session DeadlineWait = False"
| "is_session HeartbeatWait = False"

definition sessions :: "tcp_client \<Rightarrow> client_op list" where
  "sessions s = filter is_session (ops s)"

definition deadlines :: "tcp_client \<Rightarrow> nat" where
  "deadlines s = length (filter (\<lambda>p. p = DeadlineWait) (ops s))"

text \<open>While the client runs, one session operation and one deadline wait are in progress.\<close>

definition client_inv :: "tcp_client \<Rightarrow> bool" where
  "client_inv s \<longleftrightarrow>
     (stopped s \<longrightarrow> \<not> client_connected s \<and> \<not> socket_open s) \<and>
     (if stopped s then length (sessions s) \<le> 1 else length (sessions s) = 1) \<and>
     (if stopped s then deadlines s \<le> 1 else deadlines s = 1) \<and>
     (\<forall>i. Connect i \<in> set (ops s) \<longrightarrow> i < length (endpoints s)) \<and>
     (client_connected s \<longrightarrow> sessions s = [ReadUntil])"

lemma write_loop_ops:
  "write_loop buf off ps out f = Inr (out', f') \<Longrightarrow>
     \<exists>bss. out' = out @ map AsyncWrite bss \<and> length bss = length ps"
proof (induction ps arbitrary: buf off out f)
  case (Cons p ps)
  then obtain b o' ok q g where
    "write_loop b o' ps (out @ [AsyncWrite (take o' b)]) g = Inr (out', f')"
    by auto
  from Cons.IH [OF this] obtain bss where
    "out' = (out @ [AsyncWrite (take o' b)]) @ map AsyncWrite bss" "length bss = length ps" by blast
  then show ?case by (intro exI [of _ "take o' b # bss"]) simp
qed simp

lemma start_write_ops:
  assumes "start_write mem s = Inr s'" and "\<not> stopped s"
  shows "\<exists>bss f. s' = s\<lparr>ops := ops s @ map AsyncWrite bss, client_packets := f, packetOutDeque := []\<rparr> \<and>
    length bss = length (packetOutDeque s)"
  using assms write_loop_ops [of mem 0 "packetOutDeque s" "[]" "client_packets s"]
  by (fastforce simp: start_write_def)

lemma filter_AsyncWrite [simp]:
  "filter is_session (map AsyncWrite bss) = []"
  "filter (\<lambda>p. p = DeadlineWait) (map AsyncWrite bss) = []"
  by (induction bss) simp_all

lemma sessions_finish:
  assumes "p \<in> set (ops s)" and "is_session p"
  shows "length (sessions (finish p s)) + 1 = length (sessions s)"
proof -
  have "p \<in> set (sessions s)" using assms by (simp add: sessions_def)
  moreover have "sessions (finish p s) = remove1 p (sessions s)"
    by (simp add: sessions_def finish_def filter_remove1)
  ultimately show ?thesis
    using length_pos_if_in_set [of p "sessions s"] by (simp add: length_remove1)
qed

lemma remove1_filter_other: "\<not> P x \<Longrightarrow> filter P (remove1 x xs) = filter P xs"
  by (induction xs) auto

lemma start_connect_cases:
  "start_connect now i s = (if i \<noteq> length (endpoints s)
     then s\<lparr>deadline := Some (now + 60), socket_open := True, ops := ops s @ [Connect i]\<rparr>
     else s\<lparr>stopped := True, socket_open := False, client_connected := False\<rparr>)"
  by (simp add: start_connect_def async_def stop_def)

lemma client_inv_start: "client_inv (start now eps (new_TCPClient f))"
  by (cases "eps = []") (simp_all add: start_def start_connect_cases new_TCPClient_def async_def
      client_inv_def sessions_def deadlines_def Let_def)

text \<open>The next endpoint is tried, or the client stops after the last one.\<close>

lemma client_inv_next:
  assumes s: "sessions s = []" "deadlines s = 1" "\<not> stopped s" "\<not> client_connected s"
    and i: "i < length (endpoints s)" and none: "\<And>j. Connect j \<notin> set (ops s)"
  shows "client_inv (start_connect now (i + 1) s)"
  using assms by (auto simp: start_connect_cases client_inv_def sessions_def deadlines_def)

lemma client_inv_read:
  assumes s: "sessions s = []" "deadlines s = 1" "\<not> stopped s" and none: "\<And>j. Connect j \<notin> set (ops s)"
  shows "client_inv (start_read now s)"
  using assms by (auto simp: start_read_def async_def client_inv_def sessions_def deadlines_def)

lemma client_inv_stop: "client_inv s \<Longrightarrow> client_inv (stop s)"
  by (auto simp: stop_def client_inv_def sessions_def deadlines_def split: if_splits)

lemma client_inv_writes:
  "client_inv s \<Longrightarrow> client_inv (s\<lparr>ops := ops s @ map AsyncWrite bss, client_packets := f, packetOutDeque := []\<rparr>)"
  by (auto simp: client_inv_def sessions_def deadlines_def)

lemma client_inv_start_write:
  assumes "client_inv s" and "start_write mem s = Inr s'"
  shows "client_inv s'"
proof (cases "stopped s")
  case True
  then show ?thesis using assms by (simp add: start_write_def)
next
  case False
  then show ?thesis using start_write_ops [OF assms(2)] client_inv_writes [OF assms(1)] by auto
qed

text \<open>Completing the session operation leaves a client without one.\<close>

lemma finish_session:
  assumes inv: "client_inv s" and p: "p \<in> set (ops s)" "is_session p"
  shows "sessions (finish p s) = []" "deadlines (finish p s) = deadlines s"
    "Connect j \<notin> set (ops (finish p s))"
proof -
  have "length (sessions s) \<le> 1" using inv by (auto simp: client_inv_def split: if_splits)
  then have "length (sessions (finish p s)) = 0" using sessions_finish [OF p] by linarith
  then show e: "sessions (finish p s) = []" by simp
  show "deadlines (finish p s) = deadlines s"
    using p(2) by (cases p) (simp_all add: deadlines_def finish_def remove1_filter_other)
  show "Connect j \<notin> set (ops (finish p s))"
    using e by (metis filter_empty_conv is_session.simps(1) sessions_def)
qed

lemma finish_fields [simp]:
  "stopped (finish p s) = stopped s" "client_connected (finish p s) = client_connected s"
  "socket_open (finish p s) = socket_open s" "endpoints (finish p s) = endpoints s"
  "input_buffer (finish p s) = input_buffer s" "packetOutDeque (finish p s) = packetOutDeque s"
  "deadline (finish p s) = deadline s" "client_packets (finish p s) = client_packets s"
  "ops (finish p s) = remove1 p (ops s)"
  by (simp_all add: finish_def)

lemma client_invD:
  assumes "client_inv s"
  shows "stopped s \<Longrightarrow> \<not> client_connected s" "stopped s \<Longrightarrow> \<not> socket_open s"
    "\<not> stopped s \<Longrightarrow> deadlines s = 1"
    "Connect i \<in> set (ops s) \<Longrightarrow> i < length (endpoints s)"
    "client_connected s \<Longrightarrow> sessions s = [ReadUntil]"
  using assms unfolding client_inv_def by auto

text \<open>An operation that is neither a session nor a deadline operation comes or goes unnoticed.\<close>

lemma client_inv_finish_other:
  assumes "client_inv s" and "\<not> is_session p" and "p \<noteq> DeadlineWait"
  shows "client_inv (finish p s)"
  using assms set_remove1_subset [of p "ops s"]
  unfolding client_inv_def sessions_def deadlines_def
  by (auto simp: remove1_filter_other)

lemma finish_stopped:
  assumes "client_inv s" and "stopped s" shows "client_inv (finish p s)"
proof -
  have "length (filter P (remove1 p (ops s))) \<le> length (filter P (ops s))" for P
    by (metis filter_remove1 le_add2 length_remove1 diff_le_self order_refl)
  then have "length (sessions (finish p s)) \<le> length (sessions s)"
    "deadlines (finish p s) \<le> deadlines s"
    by (simp_all add: sessions_def deadlines_def finish_def)
  then show ?thesis
    using assms set_remove1_subset [of p "ops s"] unfolding client_inv_def by auto
qed

lemma client_inv_handle_connect:
  assumes inv: "client_inv s" and i: "Connect i \<in> set (ops s)"
    and h: "handle_connect now mem ec i (finish (Connect i) s) = Inr s'"
  shows "client_inv s'"
proof (cases "stopped s")
  case True
  then show ?thesis using h finish_stopped [OF inv True] by (auto simp: handle_connect_def)
next
  case False
  let ?t = "finish (Connect i) s"
  note f = finish_session [OF inv i is_session.simps(1) [THEN iffD2, OF TrueI]]
  have d: "deadlines ?t = 1" using f(2) client_invD(3) [OF inv False] by simp
  have nc: "\<not> client_connected s"
  proof -
    have "Connect i \<in> set (sessions s)" using i by (simp add: sessions_def)
    then show ?thesis using client_invD(5) [OF inv] by auto
  qed
  have lt: "i < length (endpoints s)" using client_invD(4) [OF inv i] .
  show ?thesis
  proof (cases "socket_open s \<and> \<not> ec")
    case True
    let ?u = "start_read now (?t\<lparr>client_connected := True\<rparr>)"
    have "client_inv ?u"
      by (rule client_inv_read)
        (use f d False in \<open>simp_all add: sessions_def deadlines_def del: finish_fields(9)\<close>)
    moreover have "start_write mem ?u = Inr s'" using h True False by (simp add: handle_connect_def Let_def)
    ultimately show ?thesis by (rule client_inv_start_write)
  next
    case no: False
    have "client_inv (start_connect now (i + 1) ?t)"
      by (rule client_inv_next) (use f d False nc lt in \<open>simp_all del: finish_fields(9)\<close>)
    moreover have "client_inv (start_connect now (i + 1) (?t\<lparr>socket_open := False\<rparr>))"
      by (rule client_inv_next)
        (use f d False nc lt in \<open>simp_all add: sessions_def deadlines_def del: finish_fields(9)\<close>)
    ultimately show ?thesis
      using h False no by (auto simp: handle_connect_def Let_def split: if_splits)
  qed
qed

lemma client_inv_handle_read:
  assumes inv: "client_inv s" and r: "ReadUntil \<in> set (ops s)"
  shows "client_inv (snd (handle_read now ec n ((finish ReadUntil s)\<lparr>input_buffer := ib\<rparr>)))"
proof (cases "stopped s")
  case True
  then have "client_inv ((finish ReadUntil s)\<lparr>input_buffer := ib\<rparr>)"
    using finish_stopped [OF inv True, of ReadUntil]
    by (simp add: client_inv_def sessions_def deadlines_def)
  then show ?thesis using True by (simp add: handle_read_def)
next
  case False
  note f = finish_session [OF inv r is_session.simps(2) [THEN iffD2, OF TrueI]]
  have d: "deadlines (finish ReadUntil s) = 1" using f(2) client_invD(3) [OF inv False] by simp
  show ?thesis
  proof (cases ec)
    case False
    have "client_inv (start_read now ((finish ReadUntil s)\<lparr>input_buffer := drop n ib\<rparr>))"
      by (rule client_inv_read)
        (use f d \<open>\<not> stopped s\<close> in \<open>simp_all add: sessions_def deadlines_def del: finish_fields(9)\<close>)
    then show ?thesis using False \<open>\<not> stopped s\<close> by (simp add: handle_read_def Let_def)
  next
    case True
    have "client_inv (stop ((finish ReadUntil s)\<lparr>input_buffer := ib\<rparr>))"
      unfolding client_inv_def stop_def sessions_def deadlines_def
      using f d by (auto simp: sessions_def deadlines_def)
    then show ?thesis using True \<open>\<not> stopped s\<close> by (simp add: handle_read_def)
  qed
qed

lemma client_inv_deadline:
  assumes inv: "client_inv s" and d: "DeadlineWait \<in> set (ops s)"
  shows "client_inv (check_deadline now (finish DeadlineWait s))"
proof (cases "stopped s")
  case True
  then show ?thesis using finish_stopped [OF inv True] by (simp add: check_deadline_def)
next
  case False
  have "deadlines s = 1" using client_invD(3) [OF inv False] .
  then have "deadlines (finish DeadlineWait s) = 0"
    using d by (simp add: deadlines_def finish_def filter_remove1 length_remove1)
  moreover have "sessions (finish DeadlineWait s) = sessions s"
    by (simp add: sessions_def finish_def remove1_filter_other)
  ultimately show ?thesis
    using inv False set_remove1_subset [of DeadlineWait "ops s"]
    unfolding client_inv_def check_deadline_def async_def Let_def sessions_def deadlines_def
    by (auto split: if_splits option.splits)
qed

lemma client_step_inv:
  assumes "client_step s s'" and inv: "client_inv s"
  shows "client_inv s'"
  using assms(1)
proof (cases rule: client_step.cases)
  case (connect i mem now ec)
  then show ?thesis using client_inv_handle_connect [OF inv] by blast
next
  case (read now ec n received)
  then show ?thesis using client_inv_handle_read [OF inv] by simp
next
  case (written bs ec)
  have "client_inv (finish (AsyncWrite bs) s)" by (rule client_inv_finish_other [OF inv]) simp_all
  moreover have "client_inv (async HeartbeatWait t)" if "client_inv t" for t
    using that by (auto simp: client_inv_def async_def sessions_def deadlines_def split: if_splits)
  ultimately show ?thesis using written client_inv_stop by (simp add: handle_write_def)
next
  case (deadline now)
  then show ?thesis using client_inv_deadline [OF inv] by simp
next
  case (heartbeat mem)
  have "client_inv (finish HeartbeatWait s)" by (rule client_inv_finish_other [OF inv]) simp_all
  then show ?thesis using heartbeat client_inv_start_write by blast
next
  case (queue packet)
  then show ?thesis using inv
    by (auto simp: Client_Write_def client_inv_def sessions_def deadlines_def split: if_splits)
next
  case (take_in clear dest)
  then show ?thesis using inv
    by (auto simp: Client_Read_def client_inv_def sessions_def deadlines_def split: if_splits)
next
  case user_stop
  then show ?thesis using client_inv_stop [OF inv] by simp
qed

lemma client_reach_inv: "client_reach f s \<Longrightarrow> client_inv s"
  by (induction rule: client_reach.induct) (auto intro: client_inv_start client_step_inv)

section \<open>A client without a heartbeat\<close>

text \<open>
  Only \<^verbatim>\<open>handle_connect\<close> and the heartbeat timer start a write, and only a finished write
  arms the timer. A client that has neither in progress never writes again.
\<close>

definition mute :: "tcp_client \<Rightarrow> bool" where
  "mute s \<longleftrightarrow> (\<forall>p\<in>set (ops s). p = ReadUntil \<or> p = DeadlineWait)"

lemma mute_step:
  assumes "client_step s s'" and m: "mute s"
  shows "mute s' \<and> (\<exists>new. packetOutDeque s' = packetOutDeque s @ new) \<and>
    client_packets s' = client_packets s"
  using assms(1)
proof (cases rule: client_step.cases)
  case (read now ec n received)
  then show ?thesis using m set_remove1_subset [of ReadUntil "ops s"]
    by (auto simp: handle_read_def start_read_def async_def stop_def mute_def Let_def)
next
  case (deadline now)
  then show ?thesis using m set_remove1_subset [of DeadlineWait "ops s"]
    by (auto simp: check_deadline_def async_def mute_def Let_def)
next
  case (connect i mem now ec)
  then show ?thesis using m by (auto simp: mute_def)
next
  case (written bs ec)
  then show ?thesis using m by (auto simp: mute_def)
next
  case (heartbeat mem)
  then show ?thesis using m by (auto simp: mute_def)
qed (use m in \<open>auto simp: Client_Write_def Client_Read_def stop_def mute_def\<close>)

lemma mute_forever:
  "client_step\<^sup>*\<^sup>* s s' \<Longrightarrow> mute s \<Longrightarrow> mute s' \<and> (\<exists>new. packetOutDeque s' = packetOutDeque s @ new) \<and>
     client_packets s' = client_packets s"
proof (induction rule: rtranclp_induct)
  case (step y z)
  then show ?case using mute_step [OF step(2)] by auto
qed simp

text \<open>Connecting with nothing queued makes the client mute.\<close>

lemma connect_empty_mute:
  assumes inv: "client_inv s" and i: "Connect i \<in> set (ops s)" and e: "packetOutDeque s = []"
    and w: "\<forall>p\<in>set (ops s). p \<noteq> HeartbeatWait \<and> (\<forall>bs. p \<noteq> AsyncWrite bs)"
    and o: "\<not> stopped s" "socket_open s"
  shows "\<exists>s'. handle_connect now mem False i (finish (Connect i) s) = Inr s' \<and> mute s' \<and> client_connected s'"
proof -
  note f = finish_session [OF inv i is_session.simps(1) [THEN iffD2, OF TrueI]]
  have "p = ReadUntil \<or> p = DeadlineWait" if "p \<in> set (ops (finish (Connect i) s))" for p
  proof -
    have "p \<in> set (ops s)" using that set_remove1_subset [of "Connect i" "ops s"] by auto
    then have "p \<noteq> HeartbeatWait" "\<And>bs. p \<noteq> AsyncWrite bs" using w by blast+
    then show ?thesis using f(3) that by (cases p) (auto simp del: finish_fields(9))
  qed
  then show ?thesis
    using o e by (simp add: handle_connect_def Let_def start_read_def async_def start_write_def mute_def)
qed

section \<open>What the client writes\<close>

lemma Release_heap: "Release p f = Inr (b, q, g) \<Longrightarrow> heap g = heap f"
  by (auto simp: Release_def split: option.splits)

text \<open>
  The payload of the \<open>i\<close>-th write is the stream of all packets up to the \<open>i\<close>-th, behind what
  was in the buffer already.
\<close>

fun payloads :: "packet list \<Rightarrow> packet list \<Rightarrow> bytes list" where
  "payloads sent [] = []"
| "payloads sent (p # ps) = enc_stream (sent @ [p]) # payloads (sent @ [p]) ps"

lemma enc_stream_append: "enc_stream (ps @ qs) = enc_stream ps @ enc_stream qs"
  by (induction ps) simp_all

lemma write_loop_payloads:
  "pool_inv f (as @ held) \<Longrightarrow> length buf = 120 \<Longrightarrow> holds_at buf 0 (enc_stream sent) \<Longrightarrow>
   length (enc_stream (sent @ map (\<lambda>a. heap f ! a) as)) \<le> 120 \<Longrightarrow>
   \<exists>g. write_loop buf (length (enc_stream sent)) (map Some as) out f =
       Inr (out @ map AsyncWrite (payloads sent (map (\<lambda>a. heap f ! a) as)), g) \<and> pool_inv g held"
proof (induction as arbitrary: f buf sent out)
  case Nil
  then show ?case by simp
next
  case (Cons a as)
  let ?p = "heap f ! a"
  let ?n = "length (enc_stream sent)"
  have a: "a < length (heap f)" using pool_inv_held [OF Cons.prems(1), of a] by simp
  have fit: "?n + length (enc_frame ?p) \<le> length buf"
    using Cons.prems(2,4) by (simp add: enc_stream_append)
  then obtain b where b: "wr buf ?n (enc_frame ?p) = Some b" by (auto simp: wr_def)
  have out1: "SizePacket_SerializeOut f buf ?n (Some a) = Inr (b, ?n + length (enc_frame ?p))"
    using SizePacket_Out_frame [OF a, of buf ?n] b by simp
  obtain g where g: "Release (Some a) f = Inr (True, None, g)" "pool_inv g (as @ held)"
    using Release_inv [OF Cons.prems(1), of a] by auto
  have hg: "heap g = heap f" using Release_heap [OF g(1)] .
  have n: "?n + length (enc_frame ?p) = length (enc_stream (sent @ [?p]))"
    by (simp add: enc_stream_append)
  have "holds_at b 0 (enc_stream sent)"
    by (rule holds_at_wr_disjoint [OF b Cons.prems(3)]) simp
  then have hb: "holds_at b 0 (enc_stream (sent @ [?p]))"
    using wr_holds_at [OF b] by (simp add: enc_stream_append holds_at_append)
  then have tk: "take (length (enc_stream (sent @ [?p]))) b = enc_stream (sent @ [?p])"
    by (auto simp: holds_at_def rd_def split: if_splits)
  have "length (enc_stream ((sent @ [?p]) @ map (\<lambda>a. heap g ! a) as)) \<le> 120"
    using Cons.prems(4) hg by simp
  moreover have "length b = 120" using length_wr [OF b] Cons.prems(2) by simp
  ultimately obtain g' where
    "write_loop b (length (enc_stream (sent @ [?p]))) (map Some as)
        (out @ [AsyncWrite (enc_stream (sent @ [?p]))]) g =
      Inr ((out @ [AsyncWrite (enc_stream (sent @ [?p]))]) @
        map AsyncWrite (payloads (sent @ [?p]) (map (\<lambda>a. heap g ! a) as)), g')" "pool_inv g' held"
    using Cons.IH [OF g(2) _ hb, where out = "out @ [AsyncWrite (enc_stream (sent @ [?p]))]"] by blast
  then show ?case using out1 g(1) hg tk by (simp add: n del: length_enc_frame)
qed

lemma concat_payloads:
  "concat (payloads sent ps) =
     enc_stream (concat (map (\<lambda>i. sent @ take (Suc i) ps) [0..<length ps]))"
proof (induction ps arbitrary: sent)
  case (Cons p ps)
  have "concat (payloads sent (p # ps)) =
      enc_stream (sent @ [p]) @ enc_stream (concat (map (\<lambda>i. (sent @ [p]) @ take (Suc i) ps) [0..<length ps]))"
    using Cons.IH [of "sent @ [p]"] by simp
  also have "\<dots> = enc_stream (concat ((sent @ [p]) #
      map (\<lambda>i. sent @ take (Suc (Suc i)) (p # ps)) [0..<length ps]))"
    by (simp add: enc_stream_append)
  also have "(sent @ [p]) # map (\<lambda>i. sent @ take (Suc (Suc i)) (p # ps)) [0..<length ps] =
      map (\<lambda>i. sent @ take (Suc i) (p # ps)) [0..<length (p # ps)]"
    by (simp add: map_upt_Suc del: upt_Suc)
  finally show ?case .
qed (simp add: enc_stream_def enc_list_def)

text \<open>Packets whose frames are together longer than the buffer are written behind its end.\<close>

lemma write_loop_overflow:
  "pool_inv f (as @ held) \<Longrightarrow> length buf = 120 \<Longrightarrow> off \<le> 120 \<Longrightarrow>
   120 < off + length (enc_stream (map (\<lambda>a. heap f ! a) as)) \<Longrightarrow>
   write_loop buf off (map Some as) out f = Inl OutOfBounds"
proof (induction as arbitrary: f buf off out)
  case Nil
  then show ?case by simp
next
  case (Cons a as)
  let ?p = "heap f ! a"
  have a: "a < length (heap f)" using pool_inv_held [OF Cons.prems(1), of a] by simp
  show ?case
  proof (cases "wr buf off (enc_frame ?p)")
    case None
    then show ?thesis using SizePacket_Out_frame [OF a, of buf off] by simp
  next
    case (Some b)
    then have "off + length (enc_frame ?p) \<le> 120" using Cons.prems(2) by (auto simp: wr_def split: if_splits)
    obtain g where g: "Release (Some a) f = Inr (True, None, g)" "pool_inv g (as @ held)"
      using Release_inv [OF Cons.prems(1), of a] by auto
    have hg: "heap g = heap f" using Release_heap [OF g(1)] .
    have "write_loop b (off + length (enc_frame ?p)) (map Some as) out' g = Inl OutOfBounds" for out'
      by (rule Cons.IH [OF g(2)])
        (use Cons.prems(2,4) length_wr [OF Some] hg \<open>off + length (enc_frame ?p) \<le> 120\<close> in simp_all)
    then show ?thesis
      using SizePacket_Out_frame [OF a, of buf off] Some g(1) by (simp del: length_enc_frame)
  qed
qed

section \<open>ThreadedTcpClient\<close>

text \<open>
  \<^verbatim>\<open>BeginService\<close> starts a client that is a local variable of the function; the member
  \<^verbatim>\<open>tcpCient\<close>, which \<^verbatim>\<open>IsConnected\<close> asks, is never started. \<open>resolve\<close> is the resolver.
\<close>

record threaded_client =
  tcpCient :: "tcp_client option"
  tc_ipAddress :: string
  tc_portAddress :: U16
  tc_isThreadRunning :: bool
  tc_work :: bool

definition new_ThreadedTcpClient :: "string \<Rightarrow> U16 \<Rightarrow> factory \<Rightarrow> threaded_client" where
  "new_ThreadedTcpClient ipAddr portAddr f =
     \<lparr>tcpCient = Some (new_TCPClient f), tc_ipAddress = ipAddr, tc_portAddress = portAddr,
      tc_isThreadRunning = False, tc_work = True\<rparr>"

definition ThreadedClient_BeginService ::
  "(string \<Rightarrow> U16 \<Rightarrow> string list) \<Rightarrow> nat \<Rightarrow> factory \<Rightarrow> threaded_client \<Rightarrow> tcp_client \<times> threaded_client"
where
  "ThreadedClient_BeginService resolve now f t =
     (let testClient = new_TCPClient f
      in (start now (resolve (tc_ipAddress t) (tc_portAddress t)) testClient, t))"

definition ThreadedClient_IsConnected :: "threaded_client \<Rightarrow> bool" where
  "ThreadedClient_IsConnected t =
     (case tcpCient t of None \<Rightarrow> False | Some c \<Rightarrow> client_connected c)"

definition ThreadedClient_PrepareStop :: "threaded_client \<Rightarrow> threaded_client" where
  "ThreadedClient_PrepareStop t = t\<lparr>tc_isThreadRunning := False\<rparr>"

definition ThreadedClient_Stop :: "threaded_client \<Rightarrow> threaded_client" where
  "ThreadedClient_Stop t = t\<lparr>tc_work := False\<rparr>"

lemma ThreadedClient_never_connected:
  "\<not> ThreadedClient_IsConnected (snd (ThreadedClient_BeginService resolve now f
     (new_ThreadedTcpClient ip port g)))"
  by (simp add: ThreadedClient_BeginService_def ThreadedClient_IsConnected_def
      new_ThreadedTcpClient_def new_TCPClient_def Let_def)

end
