(* ===== verification/Session.thy ===== *)
theory Session
  imports Tcp_Server Tcp_Client
begin

text \<open>
  A client and a server together: what \<^verbatim>\<open>TCPClient::start_write\<close> puts on the wire, and what
  \<^verbatim>\<open>TCPConnection::Start\<close>'s handler makes of it when the bytes arrive in several reads. Between two
  reads the service thread restarts the read (\<^verbatim>\<open>HandleReschedule\<close>). Client and server are two
  processes, each with a factory of its own.
\<close>

section \<open>Counting objects\<close>

lemma held_of_mset: "mset h = mset h' \<Longrightarrow> held_of f h k = held_of f h' k"
  unfolding held_of_def by (rule mset_eq_length) (simp only: mset_filter)

lemma held_of_append: "held_of f (h @ h') k = held_of f h k + held_of f h' k"
  by (simp add: held_of_def)

lemma held_of_same: "\<forall>a\<in>set h. heap g ! a = heap f ! a \<Longrightarrow> held_of g h k = held_of f h k"
  unfolding held_of_def by (intro arg_cong [where f = length] filter_cong) auto

lemma held_of_contents: "held_of f as (class_key t) = count_of t (map (\<lambda>a. heap f ! a) as)"
proof (induction as)
  case (Cons a as)
  then show ?case using class_key_inj [of "class_of (heap f ! a)" t]
    by (simp add: held_of_def count_of_def key_of_class)
qed (simp add: held_of_def count_of_def)

section \<open>Reads that end between two frames\<close>

text \<open>One read and the restart of the next one, for each element of \<open>segs\<close>.\<close>

fun receive_reads :: "bool \<Rightarrow> nat \<Rightarrow> bytes list \<Rightarrow> tcp_server \<Rightarrow> tcp_server res" where
  "receive_reads debug c [] s = Inr s"
| "receive_reads debug c (seg # segs) s =
     and_then (on_read debug c (Some seg) (complete (ReadSome c) s)) (\<lambda>s.
       receive_reads debug c segs (HandleReschedule s))"

lemma complete_simps [simp]:
  "conns (complete oper s) = conns s" "packets (complete oper s) = packets s"
  "held_by (complete oper s) = held_by s"
  by (simp_all add: complete_def held_by_def)

lemma HandleReschedule_simps [simp]:
  "conns (HandleReschedule s) = conns s" "packets (HandleReschedule s) = packets s"
  "held_by (HandleReschedule s) = held_by s"
  by (simp_all add: HandleReschedule_eq held_by_def)

lemma one_read:
  assumes reach: "server_reach debug junk s" and c: "c < length (conns s)" "ReadSome c \<in> set (pending s)"
    and wt: "list_all well_typed ps" and fits: "length (enc_stream ps) + 3 \<le> max_length"
    and space: "\<forall>t. held_of (packets s) (held_by s) (class_key t) + count_of t ps \<le> numToCreate"
  shows "\<exists>s' as. on_read debug c (Some (enc_stream ps)) (complete (ReadSome c) s) = Inr s' \<and>
    server_reach debug junk (HandleReschedule s') \<and> ReadSome c \<in> set (pending (HandleReschedule s')) \<and>
    length (conns s') = length (conns s) \<and>
    inwardPackets (conns s' ! c) = inwardPackets (conns s ! c) @ map Some as \<and>
    map (\<lambda>a. heap (packets s') ! a) as = ps \<and>
    (\<forall>a\<in>set (held_by s). heap (packets s') ! a = heap (packets s) ! a) \<and>
    mset (held_by s') = mset (held_by s) + mset as"
proof -
  let ?s = "complete (ReadSome c) s"
  have inv: "pool_inv (packets ?s) (held_by s)" "length (receiveBuffer (conns ?s ! c)) = max_length"
    using server_reach_inv [OF reach] own_invD(1) c(1) by (auto simp: ids_inv_def)
  obtain s' as where s': "on_read debug c (Some (enc_stream ps)) ?s = Inr s'"
    "inwardPackets (conns s' ! c) = inwardPackets (conns s ! c) @ map Some as"
    "map (\<lambda>a. heap (packets s') ! a) as = ps"
    "\<forall>a\<in>set (held_by s). heap (packets s') ! a = heap (packets s) ! a"
    using on_read_delivers [OF inv(1) _ inv(2) wt _ _ fits, of 0 undefined debug] c(1) space fits by auto
  obtain buffer inward f where d: "s' = ?s\<lparr>conns := (conns s)[c := (conns s ! c)\<lparr>receiveBuffer := buffer,
      inwardPackets := inward\<rparr>], packets := f,
      connectionsAwaitingSchedule := connectionsAwaitingSchedule ?s @ [c]\<rparr>"
    using on_read_data [OF s'(1)] c(1) by auto
  have "server_step debug s s'"
    by (rule server_step.received [OF c(2) _ s'(1)]) (use fits in simp)
  then have "server_reach debug junk (HandleReschedule s')"
    using server_reach.step [OF server_reach.step [OF reach]] server_step.reschedule by blast
  moreover have "ReadSome c \<in> set (pending (HandleReschedule s'))"
    by (simp add: HandleReschedule_eq d)
  moreover have "mset (held_by s') + mset (queued (conns s ! c)) =
      mset (held_by s) + mset (queued (conns s' ! c))"
    using mset_concat_update [OF c(1), of queued "conns s' ! c"] c(1) by (simp add: held_by_def d)
  then have "mset (held_by s') = mset (held_by s) + mset as"
    using s'(2) by (simp add: queued_def)
  ultimately show ?thesis using s' d by auto
qed

lemma receive_reads_deliver:
  "server_reach debug junk s \<Longrightarrow> c < length (conns s) \<Longrightarrow> ReadSome c \<in> set (pending s) \<Longrightarrow>
   \<forall>ps\<in>set pss. list_all well_typed ps \<and> length (enc_stream ps) + 3 \<le> max_length \<Longrightarrow>
   \<forall>t. held_of (packets s) (held_by s) (class_key t) + count_of t (concat pss) \<le> numToCreate \<Longrightarrow>
   \<exists>s' as. receive_reads debug c (map enc_stream pss) s = Inr s' \<and> server_reach debug junk s' \<and>
     inwardPackets (conns s' ! c) = inwardPackets (conns s ! c) @ map Some as \<and>
     map (\<lambda>a. heap (packets s') ! a) as = concat pss \<and>
     (\<forall>a\<in>set (held_by s). heap (packets s') ! a = heap (packets s) ! a)"
proof (induction pss arbitrary: s)
  case Nil
  then show ?case by (intro exI [of _ s] exI [of _ "[]"]) simp
next
  case (Cons ps pss)
  have cnt: "count_of t (concat (ps # pss)) = count_of t ps + count_of t (concat pss)" for t
    by (simp add: count_of_def)
  have "\<forall>t. held_of (packets s) (held_by s) (class_key t) + count_of t ps \<le> numToCreate"
    using Cons.prems(5) cnt by (metis add.assoc add_leE)
  then obtain s1 as where s1: "on_read debug c (Some (enc_stream ps)) (complete (ReadSome c) s) = Inr s1"
    "server_reach debug junk (HandleReschedule s1)" "ReadSome c \<in> set (pending (HandleReschedule s1))"
    "length (conns s1) = length (conns s)"
    "inwardPackets (conns s1 ! c) = inwardPackets (conns s ! c) @ map Some as"
    "map (\<lambda>a. heap (packets s1) ! a) as = ps"
    "\<forall>a\<in>set (held_by s). heap (packets s1) ! a = heap (packets s) ! a"
    "mset (held_by s1) = mset (held_by s) + mset as"
    using one_read [OF Cons.prems(1-3), of ps] Cons.prems(4) by auto
  have "held_of (packets s1) (held_by s1) (class_key t) =
      held_of (packets s) (held_by s) (class_key t) + count_of t ps" for t
    using held_of_mset [of "held_by s1" "held_by s @ as" "packets s1" "class_key t"] s1(8)
      held_of_same [OF s1(7)] held_of_contents [of "packets s1" as t] s1(6)
    by (simp add: held_of_append)
  then have "\<forall>t. held_of (packets (HandleReschedule s1)) (held_by (HandleReschedule s1)) (class_key t) +
      count_of t (concat pss) \<le> numToCreate"
    using Cons.prems(5) cnt by (simp add: add.assoc)
  then obtain s' bs where s': "receive_reads debug c (map enc_stream pss) (HandleReschedule s1) = Inr s'"
    "server_reach debug junk s'" "inwardPackets (conns s' ! c) = inwardPackets (conns s1 ! c) @ map Some bs"
    "map (\<lambda>a. heap (packets s') ! a) bs = concat pss"
    "\<forall>a\<in>set (held_by s1). heap (packets s') ! a = heap (packets s1) ! a"
    using Cons.IH [OF s1(2) _ s1(3)] Cons.prems(2,4) s1(4) by auto
  have held: "set (held_by s1) = set (held_by s) \<union> set as"
    using arg_cong [OF s1(8), of set_mset] by simp
  then have "map (\<lambda>a. heap (packets s') ! a) as = ps" using s'(5) s1(6) by (auto cong: map_cong)
  then show ?case
    using s1(1,5,7) s' held by (intro exI [of _ s'] exI [of _ "as @ bs"]) auto
qed

section \<open>From the client's queue to the server's\<close>

text \<open>What \<^verbatim>\<open>start_write\<close> sends for a queue: every packet again with each packet behind it.\<close>

definition prefixes_of :: "packet list \<Rightarrow> packet list" where
  "prefixes_of ps = concat (map (\<lambda>i. take (Suc i) ps) [0..<length ps])"

lemma start_write_sends:
  assumes inv: "pool_inv (client_packets s) (as @ held)" and q: "packetOutDeque s = map Some as"
    and o: "\<not> stopped s" and mem: "length mem = 120"
    and fits: "length (enc_stream (map (\<lambda>a. heap (client_packets s) ! a) as)) \<le> 120"
  shows "\<exists>s' bss. start_write mem s = Inr s' \<and> packetOutDeque s' = [] \<and> ops s' = ops s @ map AsyncWrite bss \<and>
    length bss = length as \<and>
    concat bss = enc_stream (prefixes_of (map (\<lambda>a. heap (client_packets s) ! a) as))"
proof -
  let ?ps = "map (\<lambda>a. heap (client_packets s) ! a) as"
  have len: "length (payloads sent qs) = length qs" for sent qs
    by (induction qs arbitrary: sent) simp_all
  obtain g where "write_loop mem 0 (map Some as) [] (client_packets s) =
      Inr (map AsyncWrite (payloads [] ?ps), g)"
    using write_loop_payloads [OF inv mem, of "[]" "[]"] fits by (auto simp: holds_at_def rd_def)
  then show ?thesis
    using o concat_payloads [of "[]" ?ps] len [of "[]" ?ps]
    by (simp add: start_write_def q prefixes_of_def) (metis length_map)
qed

lemma enc_stream_concat: "enc_stream (concat pss) = concat (map enc_stream pss)"
  by (induction pss) (simp_all add: enc_stream_append)

end
