(* ===== verification/Handshake.thy ===== *)
theory Handshake
  imports Serialize
begin

text \<open>
  The connection handshake of \<^verbatim>\<open>Common/Connection.h\<close> (\<^verbatim>\<open>CommsStateMachine\<close>) and the client
  loop of \<^verbatim>\<open>UDP01 - Client.cpp\<close> that drives it. A handshake datagram is a sentinel byte, the
  role of its sender and the library id.
\<close>

section \<open>State machine\<close>

datatype states =
    SendHandshake
  | SendConnectionId
  | SendConnectionPolicies
  | SendChannels
  | SendTopology
  | NormalSend
  | ConnectionFailed

record comms =
  currentState :: states
  iniates :: bool
  hasSentState :: bool

definition serverId :: U8 where "serverId = 0x08"
definition clientId :: U8 where "clientId = 0x04"
definition sentinel :: U8 where "sentinel = 0xAA"

text \<open>\<^verbatim>\<open>"IOIC"\<close>\<close>

definition uniqueLibraryId :: bytes where "uniqueLibraryId = [0x49, 0x4F, 0x49, 0x43]"

text \<open>The member \<^verbatim>\<open>connId\<close> is never read or written and has no field.\<close>

definition new_CommsStateMachine :: "bool \<Rightarrow> comms" where
  "new_CommsStateMachine isServer =
     \<lparr>currentState = SendHandshake, iniates = \<not> isServer, hasSentState = False\<rparr>"

definition ReadyToSend :: "comms \<Rightarrow> bool" where "ReadyToSend sm = (\<not> hasSentState sm)"
definition IsExpectingReceive :: "comms \<Rightarrow> bool" where "IsExpectingReceive sm = True"
definition Comms_Update :: "comms \<Rightarrow> comms" where "Comms_Update sm = sm"

text \<open>Both protocol helpers advance the buffer pointer, here the offset, by two.\<close>

definition WriteProtocolSentinel :: "comms \<Rightarrow> bytes \<Rightarrow> nat \<Rightarrow> (bytes \<times> nat) option" where
  "WriteProtocolSentinel sm buffer off = do {
     buffer \<leftarrow> wr buffer off [sentinel];
     buffer \<leftarrow> wr buffer (off + 1) [if iniates sm then clientId else serverId];
     Some (buffer, off + 2) }"

text \<open>
  \<^verbatim>\<open>strcpy_s(dest, size, src)\<close>: copies the string with its terminating zero; a size that is
  too small is a runtime-constraint violation.
\<close>

definition strcpy_s :: "bytes \<Rightarrow> nat \<Rightarrow> int \<Rightarrow> bytes \<Rightarrow> bytes res" where
  "strcpy_s buffer off sz src =
     (if sz < int (length src) + 1 then Inl ConstraintViolation
      else from_option OutOfBounds (wr buffer off (src @ [0])))"

definition DataSend :: "bytes \<Rightarrow> int \<Rightarrow> comms \<Rightarrow> (bool \<times> nat \<times> bytes \<times> comms) res" where
  "DataSend buffer numBytes sm =
     (if currentState sm = SendHandshake then
        if numBytes < 6 then Inr (False, 0, buffer, sm\<lparr>currentState := ConnectionFailed\<rparr>)
        else
          and_then (from_option OutOfBounds (WriteProtocolSentinel sm buffer 0)) (\<lambda>(buffer, off).
          and_then (strcpy_s buffer off (numBytes - 2) uniqueLibraryId) (\<lambda>buffer.
          Inr (True, 6, buffer, sm\<lparr>hasSentState := True\<rparr>)))
      else Inr (True, 0, buffer, sm))"

definition ReadProtocolSentinel :: "comms \<Rightarrow> bytes \<Rightarrow> nat \<Rightarrow> (bool \<times> nat \<times> comms) option" where
  "ReadProtocolSentinel sm buffer off = do {
     val1 \<leftarrow> rd buffer off 1;
     val2 \<leftarrow> rd buffer (off + 1) 1;
     if hd val1 \<noteq> sentinel then Some (False, off + 2, sm\<lparr>currentState := ConnectionFailed\<rparr>)
     else if iniates sm then
       if hd val2 \<noteq> serverId then Some (False, off + 2, sm\<lparr>currentState := ConnectionFailed\<rparr>)
       else Some (True, off + 2, sm)
     else
       if hd val2 \<noteq> clientId then Some (False, off + 2, sm\<lparr>currentState := ConnectionFailed\<rparr>)
       else Some (True, off + 2, sm) }"

text \<open>
  \<^verbatim>\<open>strncmp(id, buffer, strlen(id)) == 0\<close> for an \<open>id\<close> without zero bytes: the comparison
  stops at the first byte that differs.
\<close>

fun strncmp_equal :: "bytes \<Rightarrow> bytes \<Rightarrow> nat \<Rightarrow> bool option" where
  "strncmp_equal [] buffer off = Some True"
| "strncmp_equal (c # cs) buffer off = do {
     b \<leftarrow> rd buffer off 1;
     if hd b \<noteq> c then Some False else strncmp_equal cs buffer (off + 1) }"

definition DataReceive :: "bytes \<Rightarrow> int \<Rightarrow> comms \<Rightarrow> (bool \<times> comms) res" where
  "DataReceive buffer numBytes sm =
     (if currentState sm = SendHandshake then
        if numBytes < 6 then Inr (False, sm\<lparr>currentState := ConnectionFailed\<rparr>)
        else
          and_then (from_option OutOfBounds (ReadProtocolSentinel sm buffer 0)) (\<lambda>(ok, off, sm).
          if \<not> ok then Inr (False, sm)
          else and_then (from_option OutOfBounds (strncmp_equal uniqueLibraryId buffer off)) (\<lambda>same.
            if \<not> same then Inr (False, sm\<lparr>currentState := ConnectionFailed\<rparr>)
            else if iniates sm then Inr (True, sm\<lparr>currentState := SendConnectionId\<rparr>)
            else Inr (True, sm\<lparr>currentState := SendConnectionId, hasSentState := False\<rparr>)))
      else Inr (True, sm))"

section \<open>The handshake datagram\<close>

definition handshake :: "bool \<Rightarrow> bytes" where
  "handshake from_client = [sentinel, if from_client then clientId else serverId] @ uniqueLibraryId"

lemma length_handshake [simp]: "length (handshake c) = 6"
  by (simp add: handshake_def uniqueLibraryId_def)

lemma DataSend_handshake:
  assumes "currentState sm = SendHandshake" and "7 \<le> numBytes" and "7 \<le> length buffer"
  shows "\<exists>b. wr buffer 0 (handshake (iniates sm) @ [0]) = Some b \<and>
    DataSend buffer numBytes sm = Inr (True, 6, b, sm\<lparr>hasSentState := True\<rparr>)"
proof -
  let ?id = "if iniates sm then clientId else serverId"
  obtain b1 where b1: "wr buffer 0 [sentinel] = Some b1"
    using wr_defined_iff [of buffer 0 "[sentinel]"] assms(3) by auto
  obtain b2 where b2: "wr b1 1 [?id] = Some b2"
    using wr_defined_iff [of b1 1 "[?id]"] assms(3) length_wr [OF b1] by auto
  obtain b3 where b3: "wr b2 2 (uniqueLibraryId @ [0]) = Some b3"
    using wr_defined_iff [of b2 2 "uniqueLibraryId @ [0]"] assms(3) length_wr [OF b1] length_wr [OF b2]
    by (auto simp: uniqueLibraryId_def)
  have "wr buffer 0 ([sentinel] @ [?id] @ uniqueLibraryId @ [0]) = Some b3"
    using b1 b2 b3 by (simp only: wr_append) (simp add: numeral_2_eq_2)
  then have "wr buffer 0 (handshake (iniates sm) @ [0]) = Some b3"
    by (simp add: handshake_def)
  moreover have "DataSend buffer numBytes sm = Inr (True, 6, b3, sm\<lparr>hasSentState := True\<rparr>)"
    using assms(1,2) b1 b2 b3 [unfolded numeral_2_eq_2]
    by (simp add: DataSend_def WriteProtocolSentinel_def strcpy_s_def uniqueLibraryId_def)
  ultimately show ?thesis by blast
qed

lemma strncmp_equal_holds: "holds_at buf off cs \<Longrightarrow> strncmp_equal cs buf off = Some True"
proof (induction cs arbitrary: off)
  case (Cons c cs)
  have "holds_at buf off ([c] @ cs)" using Cons.prems by simp
  then have "holds_at buf off [c]" and "holds_at buf (off + 1) cs"
    unfolding holds_at_append by simp_all
  then show ?case using Cons.IH [of "off + 1"] rd_1_hd by simp
qed simp

lemma strncmp_equal_total:
  "off + length cs \<le> length buf \<Longrightarrow> \<exists>e. strncmp_equal cs buf off = Some e \<and> (e \<longrightarrow> holds_at buf off cs)"
proof (induction cs arbitrary: off)
  case Nil
  then show ?case by (intro exI [of _ True]) (simp add: holds_at_Nil)
next
  case (Cons c cs)
  have one: "rd buf off 1 = Some [buf ! off]"
    using Cons.prems by (simp add: rd_def take_Suc_conv_app_nth hd_drop_conv_nth take_Suc)
  obtain e where e: "strncmp_equal cs buf (off + 1) = Some e" "e \<longrightarrow> holds_at buf (off + 1) cs"
    using Cons.IH [of "off + 1"] Cons.prems by auto
  have "holds_at buf off (c # cs)" if "buf ! off = c" "holds_at buf (off + 1) cs"
  proof -
    have "holds_at buf off [c]" using one that(1) by (simp add: holds_at_def)
    then have "holds_at buf off ([c] @ cs)" using that(2) unfolding holds_at_append by simp
    then show ?thesis by simp
  qed
  then show ?case using one e by auto
qed

lemma rd_nth: "off < length buf \<Longrightarrow> rd buf off 1 = Some [buf ! off]"
  by (simp add: rd_def take_Suc_conv_app_nth hd_drop_conv_nth take_Suc)

lemma holds_at_byte: "off < length buf \<Longrightarrow> holds_at buf off [c] \<longleftrightarrow> buf ! off = c"
  using rd_nth [of off buf] by (simp add: holds_at_def)

text \<open>
  A receiver that waits for a handshake accepts exactly the handshake of the other role;
  everything else makes the connection fail.
\<close>

lemma DataReceive_handshake:
  assumes st: "currentState sm = SendHandshake" and n: "6 \<le> numBytes" and len: "6 \<le> length buffer"
  shows "DataReceive buffer numBytes sm =
    (if holds_at buffer 0 (handshake (\<not> iniates sm))
     then Inr (True, if iniates sm then sm\<lparr>currentState := SendConnectionId\<rparr>
                     else sm\<lparr>currentState := SendConnectionId, hasSentState := False\<rparr>)
     else Inr (False, sm\<lparr>currentState := ConnectionFailed\<rparr>))"
proof -
  let ?id = "if \<not> iniates sm then clientId else serverId"
  have hb: "holds_at buffer 0 [c] \<longleftrightarrow> buffer ! 0 = c" "holds_at buffer 1 [c] \<longleftrightarrow> buffer ! 1 = c" for c
    by (rule holds_at_byte, use len in linarith)+
  have "holds_at buffer 0 ([sentinel] @ [?id] @ uniqueLibraryId) \<longleftrightarrow>
      buffer ! 0 = sentinel \<and> buffer ! 1 = ?id \<and> holds_at buffer 2 uniqueLibraryId"
    unfolding holds_at_append using hb by (simp add: numeral_2_eq_2)
  then have h: "holds_at buffer 0 (handshake (\<not> iniates sm)) \<longleftrightarrow>
      buffer ! 0 = sentinel \<and> buffer ! 1 = ?id \<and> holds_at buffer 2 uniqueLibraryId"
    by (simp add: handshake_def)
  have "rd buffer 0 1 = Some [buffer ! 0]" "rd buffer 1 1 = Some [buffer ! 1]"
    by (rule rd_nth, use len in linarith)+
  then have r: "ReadProtocolSentinel sm buffer 0 =
      Some (if buffer ! 0 = sentinel \<and> buffer ! 1 = ?id then (True, 2, sm)
            else (False, 2, sm\<lparr>currentState := ConnectionFailed\<rparr>))"
    by (simp add: ReadProtocolSentinel_def)
  have "length uniqueLibraryId = 4" by (simp add: uniqueLibraryId_def)
  then obtain e where e: "strncmp_equal uniqueLibraryId buffer 2 = Some e"
    "e \<longrightarrow> holds_at buffer 2 uniqueLibraryId"
    using strncmp_equal_total [of 2 uniqueLibraryId buffer] len by auto
  then have "e \<longleftrightarrow> holds_at buffer 2 uniqueLibraryId" using strncmp_equal_holds by fastforce
  then show ?thesis using st n r e(1) by (simp add: DataReceive_def h)
qed

section \<open>Reachable states\<close>

inductive comms_step :: "comms \<Rightarrow> comms \<Rightarrow> bool" where
  send: "DataSend buffer numBytes sm = Inr (ok, used, buffer', sm') \<Longrightarrow> comms_step sm sm'"
| receive: "DataReceive buffer numBytes sm = Inr (ok, sm') \<Longrightarrow> comms_step sm sm'"

inductive comms_reach :: "bool \<Rightarrow> comms \<Rightarrow> bool" for isServer where
  new: "comms_reach isServer (new_CommsStateMachine isServer)"
| step: "comms_reach isServer sm \<Longrightarrow> comms_step sm sm' \<Longrightarrow> comms_reach isServer sm'"

text \<open>
  What a machine can reach: it leaves the handshake once, for good, and a server that has
  left it still has its state to send.
\<close>

definition comms_inv :: "bool \<Rightarrow> comms \<Rightarrow> bool" where
  "comms_inv isServer sm \<longleftrightarrow> iniates sm = (\<not> isServer) \<and>
     currentState sm \<in> {SendHandshake, SendConnectionId, ConnectionFailed} \<and>
     (isServer \<longrightarrow> currentState sm = SendConnectionId \<longrightarrow> \<not> hasSentState sm)"

lemma DataSend_state:
  "DataSend buffer n sm = Inr (ok, used, b, sm') \<Longrightarrow>
     (currentState sm \<noteq> SendHandshake \<and> sm' = sm \<and> used = 0 \<and> b = buffer) \<or>
     (currentState sm = SendHandshake \<and>
        (sm' = sm\<lparr>currentState := ConnectionFailed\<rparr> \<or> sm' = sm\<lparr>hasSentState := True\<rparr>))"
  by (auto simp: DataSend_def split: if_splits)

lemma ReadProtocolSentinel_state:
  "ReadProtocolSentinel sm buffer off = Some (ok, off', sm') \<Longrightarrow>
     sm' = (if ok then sm else sm\<lparr>currentState := ConnectionFailed\<rparr>)"
  by (auto simp: ReadProtocolSentinel_def bind_eq_Some_conv split: if_splits)

lemma DataReceive_state:
  assumes "DataReceive buffer n sm = Inr (ok, sm')"
  shows "(currentState sm \<noteq> SendHandshake \<and> sm' = sm) \<or>
    (currentState sm = SendHandshake \<and>
       (sm' = sm\<lparr>currentState := ConnectionFailed\<rparr> \<or>
        (iniates sm \<and> sm' = sm\<lparr>currentState := SendConnectionId\<rparr>) \<or>
        (\<not> iniates sm \<and> sm' = sm\<lparr>currentState := SendConnectionId, hasSentState := False\<rparr>)))"
proof (cases "currentState sm = SendHandshake \<and> 6 \<le> n")
  case False
  then show ?thesis using assms by (auto simp: DataReceive_def split: if_splits)
next
  case True
  then obtain ok1 off sm1 where r: "ReadProtocolSentinel sm buffer 0 = Some (ok1, off, sm1)"
    using assms by (auto simp: DataReceive_def)
  show ?thesis
    using True assms r ReadProtocolSentinel_state [OF r]
    by (auto simp: DataReceive_def split: if_splits)
qed

lemma comms_step_inv: "comms_step sm sm' \<Longrightarrow> comms_inv isServer sm \<Longrightarrow> comms_inv isServer sm'"
  by (erule comms_step.cases) (auto dest!: DataSend_state DataReceive_state simp: comms_inv_def)

lemma comms_reach_inv: "comms_reach isServer sm \<Longrightarrow> comms_inv isServer sm"
proof (induction rule: comms_reach.induct)
  case new
  then show ?case by (simp add: comms_inv_def new_CommsStateMachine_def)
next
  case (step sm sm')
  then show ?case using comms_step_inv by blast
qed

text \<open>Once a machine has left the handshake it never changes again.\<close>

lemma comms_stuck: "comms_step\<^sup>*\<^sup>* sm sm' \<Longrightarrow> currentState sm \<noteq> SendHandshake \<Longrightarrow> sm' = sm"
proof (induction rule: rtranclp_induct)
  case (step y z)
  then have "y = sm" by simp
  with step(2) step.prems show ?case
    by (auto elim!: comms_step.cases dest!: DataSend_state DataReceive_state)
qed simp

section \<open>The client program\<close>

text \<open>
  One round of the loop of \<^verbatim>\<open>main\<close>: \<^term>\<open>None\<close> when it waits for \<^verbatim>\<open>ReadyToSend\<close> (nothing
  in the program changes the machine meanwhile, so it waits for ever). \<open>reply\<close> is the
  datagram received, \<open>addr_len\<close> the length of the sender's address, which is what the
  program passes on as the number of bytes. The result has the datagram that was sent.
\<close>

definition client_round ::
  "bytes \<Rightarrow> bytes \<Rightarrow> int \<Rightarrow> comms \<Rightarrow> (bytes \<times> bytes \<times> comms) res option" where
  "client_round buffer reply addr_len sm =
     (if \<not> ReadyToSend sm then None
      else Some (and_then (DataSend buffer 1024 sm) (\<lambda>(success, bytesUsed, buffer, sm).
        let sent = take bytesUsed buffer
        in if IsExpectingReceive sm
           then let buffer = reply @ drop (length reply) buffer
                in and_then (DataReceive buffer addr_len sm) (\<lambda>(ok, sm). Inr (sent, buffer, sm))
           else Inr (sent, buffer, sm))))"

lemma client_first_round:
  assumes b: "length buffer = 1024" and r: "length reply \<le> 1024" and a: "6 \<le> addr_len"
  shows "\<exists>buffer' sm. client_round buffer reply addr_len (new_CommsStateMachine False) =
      Some (Inr (handshake True, buffer', sm)) \<and> length buffer' = 1024 \<and> \<not> ReadyToSend sm \<and>
      currentState sm \<in> {SendConnectionId, ConnectionFailed}"
proof -
  let ?sm = "new_CommsStateMachine False"
  obtain b1 where b1: "wr buffer 0 (handshake (iniates ?sm) @ [0]) = Some b1"
    "DataSend buffer 1024 ?sm = Inr (True, 6, b1, ?sm\<lparr>hasSentState := True\<rparr>)"
    using DataSend_handshake [of ?sm 1024 buffer] b by (auto simp: new_CommsStateMachine_def)
  have i: "iniates ?sm" by (simp add: new_CommsStateMachine_def)
  have "holds_at b1 0 (handshake True)" using wr_holds_at [OF b1(1)] i by (simp add: holds_at_append)
  then have sent: "take 6 b1 = handshake True" by (auto simp: holds_at_def rd_def split: if_splits)
  let ?b = "reply @ drop (length reply) b1"
  have l: "length ?b = 1024" using length_wr [OF b1(1)] b r by simp
  have "\<exists>ok sm. DataReceive ?b addr_len (?sm\<lparr>hasSentState := True\<rparr>) = Inr (ok, sm) \<and> hasSentState sm \<and>
      currentState sm \<in> {SendConnectionId, ConnectionFailed}"
    using DataReceive_handshake [of "?sm\<lparr>hasSentState := True\<rparr>" addr_len ?b] a l
    by (auto simp: new_CommsStateMachine_def)
  then show ?thesis
    using b1(2) sent l
    by (auto simp: client_round_def ReadyToSend_def IsExpectingReceive_def Let_def
        new_CommsStateMachine_def)
qed

end
