(* ===== verification/Udp_Server.thy ===== *)
theory Udp_Server
  imports Handshake Std_Map
begin

text \<open>
  The threaded UDP server: \<^verbatim>\<open>Connection\<close> of \<^verbatim>\<open>Common/Connection.h\<close> and \<^verbatim>\<open>UDPServer\<close> of
  \<^verbatim>\<open>UDP01-ThreadedServer.cpp\<close>. What the operating system answers is an argument: the
  result of \<^verbatim>\<open>select\<close>, the datagrams that \<^verbatim>\<open>recvfrom\<close> returns, in order, and the address
  that \<^verbatim>\<open>getpeername\<close> leaves. A \<^verbatim>\<open>Connection*\<close> in the map is the value stored under its
  key. Printing is left out.
\<close>

section \<open>Connection\<close>

type_synonym socket_pair = "U32 \<times> U16"

record udp_connection =
  SenderAddr :: socket_pair
  stateMachine :: comms

definition new_Connection :: "socket_pair \<Rightarrow> udp_connection" where
  "new_Connection a = \<lparr>SenderAddr = a, stateMachine = new_CommsStateMachine True\<rparr>"

definition HandleDataIn :: "bytes \<Rightarrow> int \<Rightarrow> udp_connection \<Rightarrow> udp_connection res" where
  "HandleDataIn dataIn bufferLen c =
     and_then (DataReceive dataIn bufferLen (stateMachine c)) (\<lambda>(ok, sm).
       Inr (c\<lparr>stateMachine := sm\<rparr>))"

definition NeedsService :: "udp_connection \<Rightarrow> bool" where
  "NeedsService c = (ReadyToSend (stateMachine c) \<or> IsExpectingReceive (stateMachine c))"

text \<open>
  \<open>mem\<close> is the uninitialised local buffer of 1024 bytes. The result has the datagram that
  is sent to \<open>SenderAddr\<close>, which is always the whole buffer.
\<close>

definition RunService :: "bytes \<Rightarrow> udp_connection \<Rightarrow> (bytes option \<times> udp_connection) res" where
  "RunService mem c =
     (if ReadyToSend (stateMachine c)
      then and_then (DataSend mem 1024 (stateMachine c)) (\<lambda>(ok, bytesUsed, buffer, sm).
             Inr (Some (take 1024 buffer), c\<lparr>stateMachine := sm\<rparr>))
      else Inr (None, c))"

definition HasExpired :: "udp_connection \<Rightarrow> bool" where "HasExpired c = False"

section \<open>The server\<close>

text \<open>The system calls whose effect outlives them; an uninitialised \<^verbatim>\<open>SOCKET\<close> is \<^term>\<open>None\<close>.\<close>

datatype udp_call =
    Sys_WSAStartup
  | Sys_WSACleanup
  | Sys_socket nat
  | Sys_bind nat U16
  | Sys_closesocket "nat option"

text \<open>
  \<open>ReceivingPort\<close> is the port of \<^verbatim>\<open>ReceiverAddr\<close> in network byte order, \<open>deleted\<close> the keys whose
  \<^verbatim>\<open>Connection\<close> has been deleted.
\<close>

record udp_server =
  isValid :: bool
  extraLogging :: bool
  ReceivingSocket :: "nat option"
  ReceivingPort :: "U16 option"
  connections :: "(socket_pair, udp_connection) std_map"
  deleted :: "socket_pair list"
  datagrams :: "(socket_pair \<times> bytes) list"
  sys_calls :: "udp_call list"

definition new_udp_server :: udp_server where
  "new_udp_server = \<lparr>isValid = False, extraLogging = False, ReceivingSocket = None, ReceivingPort = None,
     connections = [], deleted = [], datagrams = [], sys_calls = []\<rparr>"

record os_results =
  wsa_startup_ok :: bool
  socket_handle :: "nat option"
  setsockopt_ok :: bool
  bind_ok :: bool

definition called :: "udp_call list \<Rightarrow> udp_server \<Rightarrow> udp_server" where
  "called cs s = s\<lparr>sys_calls := sys_calls s @ cs\<rparr>"

text \<open>The connections are deleted and stay in the map.\<close>

definition CleanupAndExit :: "udp_server \<Rightarrow> udp_server" where
  "CleanupAndExit s =
     (let s = called [Sys_closesocket (ReceivingSocket s), Sys_WSACleanup] s
      in s\<lparr>deleted := deleted s @ map fst (connections s), isValid := False\<rparr>)"

definition UdpServer_NetworkingInit :: "os_results \<Rightarrow> udp_server \<Rightarrow> bool \<times> udp_server" where
  "UdpServer_NetworkingInit os s =
     (if \<not> wsa_startup_ok os then (False, s) else (True, called [Sys_WSAStartup] s))"

text \<open>The local variable \<^verbatim>\<open>ReceivingSocket\<close> hides the member, which \<^verbatim>\<open>CleanupAndExit\<close> closes.\<close>

definition OpenDGramSocket :: "os_results \<Rightarrow> udp_server \<Rightarrow> nat \<times> udp_server" where
  "OpenDGramSocket os s =
     (case socket_handle os of
        None \<Rightarrow> (0, CleanupAndExit s)
      | Some h \<Rightarrow>
          let s = called [Sys_socket h] s
          in if \<not> setsockopt_ok os then (0, CleanupAndExit s) else (h, s))"

definition UdpServer_SetupSocketDetails :: "U16 \<Rightarrow> udp_server \<Rightarrow> udp_server" where
  "UdpServer_SetupSocketDetails port s = s\<lparr>ReceivingPort := Some (htons port)\<rparr>"

definition BindSocket :: "os_results \<Rightarrow> udp_server \<Rightarrow> bool \<times> udp_server" where
  "BindSocket os s =
     (if \<not> bind_ok os then (False, s)
      else (True, case (ReceivingSocket s, ReceivingPort s) of
                    (Some h, Some port) \<Rightarrow> called [Sys_bind h port] s
                  | _ \<Rightarrow> s))"

text \<open>\<^verbatim>\<open>GetLocalSocketInfo\<close> prints what \<^verbatim>\<open>getsockname\<close> says and changes nothing else.\<close>

definition UdpServer_Init :: "os_results \<Rightarrow> udp_server \<Rightarrow> udp_server" where
  "UdpServer_Init os s =
     (let (ok, s) = UdpServer_NetworkingInit os s
      in if \<not> ok then s\<lparr>isValid := False\<rparr>
         else let (h, s) = OpenDGramSocket os s;
                  s = s\<lparr>ReceivingSocket := Some h\<rparr>
              in if h = 0 then s\<lparr>isValid := False\<rparr>
                 else let s = UdpServer_SetupSocketDetails 5150 s;
                          (bound, s) = BindSocket os s;
                          s = s\<lparr>isValid := bound\<rparr>
                      in if \<not> isValid s then s else s\<lparr>isValid := True\<rparr>)"

definition PassBufferToConnection ::
  "(socket_pair \<Rightarrow> socket_pair) \<Rightarrow> socket_pair \<Rightarrow> bytes \<Rightarrow> int \<Rightarrow> udp_server \<Rightarrow> udp_server res" where
  "PassBufferToConnection getpeername sender buffer bufferLen s =
     (let deets = getpeername sender;
          connPtr = (case map_find (connections s) deets of
                       Some c \<Rightarrow> c
                     | None \<Rightarrow> new_Connection deets)
      in and_then (HandleDataIn buffer bufferLen connPtr) (\<lambda>c.
           Inr (s\<lparr>connections := map_set deets c (connections s)\<rparr>)))"

datatype recv_result = Recv_error | Recv bytes socket_pair

definition BufLength :: nat where "BufLength = 1024"

text \<open>
  The receive loop, over the answers of \<^verbatim>\<open>recvfrom\<close>; \<^term>\<open>None\<close> when it blocks because there
  are no more. \<open>mem\<close> is the receive buffer before the call.
\<close>

fun ReceiveAllDataFromEndpoint ::
  "(socket_pair \<Rightarrow> socket_pair) \<Rightarrow> bytes \<Rightarrow> recv_result list \<Rightarrow> udp_server \<Rightarrow> udp_server res option"
where
  "ReceiveAllDataFromEndpoint getpeername mem [] s = None"
| "ReceiveAllDataFromEndpoint getpeername mem (Recv_error # rs) s = Some (Inr s)"
| "ReceiveAllDataFromEndpoint getpeername mem (Recv received sender # rs) s =
     (if length received = 0 then Some (Inr s)
      else let ReceiveBuf = received @ drop (length received) mem
           in case PassBufferToConnection getpeername sender ReceiveBuf (int BufLength) s of
                Inl e \<Rightarrow> Some (Inl e)
              | Inr s \<Rightarrow>
                  if length received > BufLength
                  then ReceiveAllDataFromEndpoint getpeername ReceiveBuf rs s
                  else Some (Inr s))"

definition Receive ::
  "int \<Rightarrow> (socket_pair \<Rightarrow> socket_pair) \<Rightarrow> bytes \<Rightarrow> recv_result list \<Rightarrow> udp_server \<Rightarrow> udp_server res option"
where
  "Receive SelectTiming getpeername mem rs s =
     (if SelectTiming = 0 then Some (Inr s)
      else if SelectTiming = -1 then Some (Inr s)
      else ReceiveAllDataFromEndpoint getpeername mem rs s)"

text \<open>\<open>mem k\<close> is the memory that \<^verbatim>\<open>RunService\<close> finds in its buffer for connection \<open>k\<close>.\<close>

fun service_loop ::
  "(socket_pair \<Rightarrow> bytes) \<Rightarrow> (socket_pair, udp_connection) std_map \<Rightarrow> udp_server \<Rightarrow> udp_server res"
where
  "service_loop mem [] s = Inr s"
| "service_loop mem ((key, c) # it) s =
     and_then (if NeedsService c then RunService (mem key) c else Inr (None, c)) (\<lambda>(sent, c).
       let s = s\<lparr>connections := map_set key c (connections s),
                 datagrams := datagrams s @ (case sent of None \<Rightarrow> [] | Some d \<Rightarrow> [(SenderAddr c, d)])\<rparr>;
           s = (if HasExpired c
                then s\<lparr>deleted := deleted s @ [key],
                       connections := filter (\<lambda>(k, _). k \<noteq> key) (connections s)\<rparr> else s)
       in service_loop mem it s)"

definition ServiceOutgoingConnections :: "(socket_pair \<Rightarrow> bytes) \<Rightarrow> udp_server \<Rightarrow> udp_server res" where
  "ServiceOutgoingConnections mem s = service_loop mem (connections s) s"

section \<open>What the server does\<close>

lemmas UdpServer_Init_defs = UdpServer_Init_def UdpServer_NetworkingInit_def OpenDGramSocket_def
  UdpServer_SetupSocketDetails_def BindSocket_def CleanupAndExit_def called_def Let_def

lemma UdpServer_Init_valid:
  "isValid (UdpServer_Init os s) \<longleftrightarrow>
     wsa_startup_ok os \<and> (\<exists>h. socket_handle os = Some h \<and> h \<noteq> 0) \<and> setsockopt_ok os \<and> bind_ok os"
  by (auto simp: UdpServer_Init_defs split: option.splits)

lemma UdpServer_Init_connections [simp]:
  "connections (UdpServer_Init os s) = connections s" "datagrams (UdpServer_Init os s) = datagrams s"
  by (simp_all add: UdpServer_Init_defs split: option.split)

text \<open>
  What a first \<^verbatim>\<open>Init\<close> leaves behind: \<^verbatim>\<open>closesocket\<close> only ever gets the uninitialised member, so a
  socket that was opened is never closed, whether \<^verbatim>\<open>setsockopt\<close> or \<^verbatim>\<open>bind\<close> fails; after a failure
  of \<^verbatim>\<open>bind\<close> the Winsock library is not released either.
\<close>

lemma UdpServer_Init_calls:
  "sys_calls (UdpServer_Init os new_udp_server) =
     (if \<not> wsa_startup_ok os then []
      else Sys_WSAStartup #
        (case socket_handle os of
           None \<Rightarrow> [Sys_closesocket None, Sys_WSACleanup]
         | Some h \<Rightarrow> Sys_socket h #
             (if \<not> setsockopt_ok os then [Sys_closesocket None, Sys_WSACleanup]
              else if h = 0 \<or> \<not> bind_ok os then [] else [Sys_bind h (htons 5150)])))"
  by (simp add: UdpServer_Init_defs new_udp_server_def split: option.split)

lemma map_set_same: "map_ok m \<Longrightarrow> map_find m k = Some v \<Longrightarrow> map_set k v m = m"
proof (induction k v m rule: map_set.induct)
  case (2 k v j w m)
  then show ?case
    using map_find_keys [of m k] by (fastforce simp: map_find_Cons split: if_splits)
qed simp

text \<open>
  The invariant: every connection has left the handshake, and still has its state to send.
\<close>

definition udp_inv :: "udp_server \<Rightarrow> bool" where
  "udp_inv s \<longleftrightarrow> map_ok (connections s) \<and>
     (\<forall>k c. map_find (connections s) k = Some c \<longrightarrow>
        SenderAddr c = k \<and> \<not> iniates (stateMachine c) \<and> \<not> hasSentState (stateMachine c) \<and>
        currentState (stateMachine c) \<in> {SendConnectionId, ConnectionFailed})"

lemma HandleDataIn_new:
  assumes "6 \<le> n" and "6 \<le> length buffer"
  shows "\<exists>c. HandleDataIn buffer n (new_Connection k) = Inr c \<and> SenderAddr c = k \<and>
    \<not> iniates (stateMachine c) \<and> \<not> hasSentState (stateMachine c) \<and>
    currentState (stateMachine c) =
      (if holds_at buffer 0 (handshake True) then SendConnectionId else ConnectionFailed)"
  using DataReceive_handshake [of "new_CommsStateMachine True" n buffer] assms
  by (auto simp: HandleDataIn_def new_Connection_def new_CommsStateMachine_def)

lemma HandleDataIn_later:
  "currentState (stateMachine c) \<noteq> SendHandshake \<Longrightarrow> HandleDataIn buffer n c = Inr c"
  by (simp add: HandleDataIn_def DataReceive_def)

lemma PassBuffer_inv:
  assumes inv: "udp_inv s" and b: "length buffer = BufLength"
  shows "\<exists>s'. PassBufferToConnection getpeername sender buffer (int BufLength) s = Inr s' \<and> udp_inv s' \<and>
    datagrams s' = datagrams s"
proof -
  let ?k = "getpeername sender"
  have b6: "6 \<le> int BufLength" "6 \<le> length buffer" using b by (simp_all add: BufLength_def)
  let ?c = "case map_find (connections s) ?k of Some c \<Rightarrow> c | None \<Rightarrow> new_Connection ?k"
  have "\<exists>c. HandleDataIn buffer (int BufLength) ?c = Inr c \<and> SenderAddr c = ?k \<and>
      \<not> iniates (stateMachine c) \<and> \<not> hasSentState (stateMachine c) \<and>
      currentState (stateMachine c) \<in> {SendConnectionId, ConnectionFailed}"
  proof (cases "map_find (connections s) ?k")
    case None
    then show ?thesis using HandleDataIn_new [OF b6, of ?k] by auto
  next
    case (Some c)
    then have c: "SenderAddr c = ?k \<and> \<not> iniates (stateMachine c) \<and> \<not> hasSentState (stateMachine c) \<and>
        currentState (stateMachine c) \<in> {SendConnectionId, ConnectionFailed}"
      using inv unfolding udp_inv_def by blast
    then have "HandleDataIn buffer (int BufLength) c = Inr c" by (intro HandleDataIn_later) auto
    then show ?thesis using c Some by simp
  qed
  then obtain c where c: "HandleDataIn buffer (int BufLength) ?c = Inr c" "SenderAddr c = ?k"
      "\<not> iniates (stateMachine c)" "\<not> hasSentState (stateMachine c)"
      "currentState (stateMachine c) \<in> {SendConnectionId, ConnectionFailed}" by blast
  have "PassBufferToConnection getpeername sender buffer (int BufLength) s =
      Inr (s\<lparr>connections := map_set ?k c (connections s)\<rparr>)"
    using c(1) by (simp add: PassBufferToConnection_def Let_def)
  moreover have "udp_inv (s\<lparr>connections := map_set ?k c (connections s)\<rparr>)"
    using inv c unfolding udp_inv_def by (simp add: map_find_set map_set_ok)
  ultimately show ?thesis
    by (intro exI [of _ "s\<lparr>connections := map_set ?k c (connections s)\<rparr>"]) simp
qed

text \<open>\<^verbatim>\<open>recvfrom\<close> never returns more than the buffer holds, so the loop runs once.\<close>

lemma Receive_once:
  assumes "rs = Recv received sender # rest" and "length received \<le> BufLength" and "received \<noteq> []"
  shows "ReceiveAllDataFromEndpoint getpeername mem rs s =
    Some (PassBufferToConnection getpeername sender (received @ drop (length received) mem)
      (int BufLength) s)"
  using assms
  by (cases "PassBufferToConnection getpeername sender (received @ drop (length received) mem)
      (int BufLength) s") (auto simp: Let_def)

lemma Receive_inv:
  assumes inv: "udp_inv s" and mem: "length mem = BufLength"
    and rs: "\<forall>r\<in>set rs. case r of Recv_error \<Rightarrow> True | Recv d a \<Rightarrow> length d \<le> BufLength"
    and r: "Receive SelectTiming getpeername mem rs s = Some (Inr s')"
  shows "udp_inv s' \<and> datagrams s' = datagrams s"
proof (cases rs)
  case Nil
  then show ?thesis using r inv by (auto simp: Receive_def split: if_splits)
next
  case (Cons x rest)
  show ?thesis
  proof (cases x)
    case Recv_error
    then show ?thesis using r inv Cons by (auto simp: Receive_def split: if_splits)
  next
    case (Recv d a)
    have d: "length d \<le> BufLength" using rs Cons Recv by auto
    then have "length (d @ drop (length d) mem) = BufLength" using mem by simp
    from PassBuffer_inv [OF inv this, of getpeername a] show ?thesis
      using r inv Cons Recv d Receive_once [OF Cons [unfolded Recv] d, of getpeername mem s]
      by (cases "d = []") (auto simp: Receive_def split: if_splits)
  qed
qed

text \<open>
  Servicing never sends a handshake or anything else the program has written: every
  connection is sent 1024 bytes of the uninitialised buffer, and its state stays as it is.
\<close>

lemma service_loop_sends:
  "udp_inv s \<Longrightarrow> set it \<subseteq> set (connections s) \<Longrightarrow> (\<forall>k. length (mem k) = 1024) \<Longrightarrow>
     service_loop mem it s =
       Inr (s\<lparr>datagrams := datagrams s @ map (\<lambda>(k, c). (k, mem k)) it\<rparr>)"
proof (induction it arbitrary: s)
  case Nil
  then show ?case by simp
next
  case (Cons kc it)
  obtain k c where kc: "kc = (k, c)" by (cases kc)
  have ok: "map_ok (connections s)" using Cons.prems(1) by (simp add: udp_inv_def)
  have f: "map_find (connections s) k = Some c"
    using map_find_mem [OF ok] Cons.prems(2) kc by auto
  then have c: "SenderAddr c = k" "\<not> hasSentState (stateMachine c)"
    "currentState (stateMachine c) \<in> {SendConnectionId, ConnectionFailed}"
    using Cons.prems(1) unfolding udp_inv_def by blast+
  then have "RunService (mem k) c = Inr (Some (mem k), c)"
    using spec [OF Cons.prems(3), of k] by (auto simp: RunService_def ReadyToSend_def DataSend_def)
  moreover have "map_set k c (connections s) = connections s" by (rule map_set_same [OF ok f])
  moreover have "NeedsService c" "\<not> HasExpired c"
    by (simp_all add: NeedsService_def IsExpectingReceive_def HasExpired_def)
  moreover have "service_loop mem it (s\<lparr>datagrams := datagrams s @ [(k, mem k)]\<rparr>) =
      Inr (s\<lparr>datagrams := (datagrams s @ [(k, mem k)]) @ map (\<lambda>(k, c). (k, mem k)) it\<rparr>)"
    using Cons.IH [of "s\<lparr>datagrams := datagrams s @ [(k, mem k)]\<rparr>"] Cons.prems
    by (simp add: udp_inv_def)
  ultimately show ?case by (simp add: kc c(1) Let_def)
qed

section \<open>Runs of the server\<close>

inductive udp_server_step :: "udp_server \<Rightarrow> udp_server \<Rightarrow> bool" where
  receive: "length mem = BufLength \<Longrightarrow>
     \<forall>r\<in>set rs. (case r of Recv_error \<Rightarrow> True | Recv d a \<Rightarrow> length d \<le> BufLength) \<Longrightarrow>
     Receive SelectTiming getpeername mem rs s = Some (Inr s') \<Longrightarrow> udp_server_step s s'"
| service: "\<forall>k. length (mem k) = 1024 \<Longrightarrow> ServiceOutgoingConnections mem s = Inr s' \<Longrightarrow>
     udp_server_step s s'"

inductive udp_server_reach :: "udp_server \<Rightarrow> bool" where
  init: "udp_server_reach (UdpServer_Init os new_udp_server)"
| step: "udp_server_reach s \<Longrightarrow> udp_server_step s s' \<Longrightarrow> udp_server_reach s'"

lemma udp_server_step_inv: "udp_server_step s s' \<Longrightarrow> udp_inv s \<Longrightarrow> udp_inv s'"
proof (erule udp_server_step.cases)
  fix mem :: bytes and rs SelectTiming getpeername t t'
  assume "s = t" "s' = t'" "length mem = BufLength"
    "\<forall>r\<in>set rs. case r of Recv_error \<Rightarrow> True | Recv d a \<Rightarrow> length d \<le> BufLength"
    "Receive SelectTiming getpeername mem rs t = Some (Inr t')" "udp_inv s"
  then show "udp_inv s'" using Receive_inv by blast
next
  fix mem t t'
  assume a: "s = t" "s' = t'" "\<forall>k::socket_pair. length (mem k :: bytes) = 1024"
    "ServiceOutgoingConnections mem t = Inr t'" "udp_inv s"
  then show "udp_inv s'"
    using service_loop_sends [of t "connections t" mem]
    by (auto simp: ServiceOutgoingConnections_def udp_inv_def)
qed

lemma udp_server_reach_inv: "udp_server_reach s \<Longrightarrow> udp_inv s"
proof (induction rule: udp_server_reach.induct)
  case (init os)
  have "connections (UdpServer_Init os new_udp_server) = []" by (simp add: new_udp_server_def)
  then show ?case by (simp add: udp_inv_def)
next
  case (step s s')
  then show ?case using udp_server_step_inv by blast
qed

end
