(* ===== verification/Udp_Programs.thy ===== *)
theory Udp_Programs
  imports Udp_Server
begin

text \<open>
  The two UDP programs as a whole: \<^verbatim>\<open>UDPServer::operator()\<close> of \<^verbatim>\<open>UDP01-ThreadedServer.cpp\<close>, which the
  server's thread runs on a copy of the object that \<^verbatim>\<open>main\<close> made, and \<^verbatim>\<open>main\<close> of \<^verbatim>\<open>UDP01 - Client.cpp\<close>.
  What the operating system answers in each round of a loop is an argument, one record per round. A
  run is cut off after the rounds that are given, so a loop that goes on for ever is one that has
  not returned after any number of rounds.
\<close>

section \<open>The server's thread\<close>

record udp_round =
  select_result :: int
  peer_name :: "socket_pair \<Rightarrow> socket_pair"
  receive_memory :: bytes
  received_now :: "recv_result list"
  send_memory :: "socket_pair \<Rightarrow> bytes"

text \<open>The result says whether \<^verbatim>\<open>operator()\<close> has returned; \<^term>\<open>None\<close> is a call of \<^verbatim>\<open>recvfrom\<close> that blocks.\<close>

fun udp_loop :: "udp_round list \<Rightarrow> udp_server \<Rightarrow> (bool \<times> udp_server) res option" where
  "udp_loop [] s = Some (Inr (\<not> isValid s, s))"
| "udp_loop (r # rs) s =
     (if \<not> isValid s then Some (Inr (True, s))
      else case Receive (select_result r) (peer_name r) (receive_memory r) (received_now r) s of
             None \<Rightarrow> None
           | Some (Inl e) \<Rightarrow> Some (Inl e)
           | Some (Inr s) \<Rightarrow>
               (case ServiceOutgoingConnections (send_memory r) s of
                  Inl e \<Rightarrow> Some (Inl e)
                | Inr s \<Rightarrow> udp_loop rs s))"

definition udp_server_call :: "os_results \<Rightarrow> udp_round list \<Rightarrow> udp_server \<Rightarrow> (bool \<times> udp_server) res option" where
  "udp_server_call os rs s =
     (let s = (if \<not> isValid s then UdpServer_Init os s else s)
      in if \<not> isValid s then Some (Inr (True, s)) else udp_loop rs s)"

text \<open>
  \<^verbatim>\<open>main\<close>: \<^verbatim>\<open>std::thread\<close> copies the server, so the object of \<^verbatim>\<open>main\<close> stays as it is; \<^verbatim>\<open>join\<close> returns
  when the thread has. The result has the thread's copy.
\<close>

definition udp_threaded_main :: "os_results \<Rightarrow> udp_round list \<Rightarrow> (bool \<times> udp_server \<times> udp_server) res option" where
  "udp_threaded_main os rs =
     (let server = new_udp_server
      in case udp_server_call os rs server of
           None \<Rightarrow> None
         | Some (Inl e) \<Rightarrow> Some (Inl e)
         | Some (Inr (returned, t2)) \<Rightarrow> Some (Inr (returned, server, t2)))"

section \<open>The client\<close>

datatype client_end = Exited | Waiting

record client_answer =
  sendto_ok :: bool
  recvfrom_reply :: "bytes option"

text \<open>
  The loop of \<^verbatim>\<open>main\<close>. \<^const>\<open>Exited\<close> is \<^verbatim>\<open>exit(EXIT_FAILURE)\<close>, \<^const>\<open>Waiting\<close> the inner loop that sleeps
  until \<^verbatim>\<open>ReadyToSend\<close>, which nothing changes meanwhile; \<^term>\<open>None\<close> if it goes on after the answers
  that are given. The result has the datagrams that were sent.
\<close>

fun client_loop ::
  "client_answer list \<Rightarrow> int \<Rightarrow> bytes \<Rightarrow> comms \<Rightarrow> bytes list \<Rightarrow> (client_end \<times> bytes list \<times> comms) res option"
where
  "client_loop [] slen buffer sm sent = (if \<not> ReadyToSend sm then Some (Inr (Waiting, sent, sm)) else None)"
| "client_loop (a # as) slen buffer sm sent =
     (if \<not> ReadyToSend sm then Some (Inr (Waiting, sent, sm))
      else case DataSend buffer 1024 sm of
             Inl e \<Rightarrow> Some (Inl e)
           | Inr (success, bytesUsed, buffer, sm) \<Rightarrow>
               if \<not> sendto_ok a then Some (Inr (Exited, sent, sm))
               else let sent = sent @ [take bytesUsed buffer]
                    in if IsExpectingReceive sm
                       then (case recvfrom_reply a of
                               None \<Rightarrow> Some (Inr (Exited, sent, sm))
                             | Some reply \<Rightarrow>
                                 let buffer = reply @ drop (length reply) buffer
                                 in case DataReceive buffer slen sm of
                                      Inl e \<Rightarrow> Some (Inl e)
                                    | Inr (ok, sm) \<Rightarrow> client_loop as slen buffer sm sent)
                       else client_loop as slen buffer sm sent)"

definition udp_client_main ::
  "bool \<Rightarrow> bool \<Rightarrow> client_answer list \<Rightarrow> int \<Rightarrow> bytes \<Rightarrow> (client_end \<times> bytes list \<times> comms) res option" where
  "udp_client_main wsa_ok socket_ok as slen buffer =
     (let sm = new_CommsStateMachine False
      in if \<not> wsa_ok then Some (Inr (Exited, [], sm))
         else if \<not> socket_ok then Some (Inr (Exited, [], sm))
         else client_loop as slen buffer sm [])"

section \<open>What the server's thread does\<close>

definition round_ok :: "udp_round \<Rightarrow> bool" where
  "round_ok r \<longleftrightarrow> length (receive_memory r) = BufLength \<and> (\<forall>k. length (send_memory r k) = 1024) \<and>
     (\<forall>x\<in>set (received_now r). case x of Recv_error \<Rightarrow> True | Recv d a \<Rightarrow> length d \<le> BufLength)"

definition sent_to :: "socket_pair \<Rightarrow> udp_server \<Rightarrow> bytes list" where
  "sent_to k s = map snd (filter (\<lambda>d. fst d = k) (datagrams s))"

lemma PassBuffer_keeps:
  assumes "map_ok (connections s)" and "PassBufferToConnection peer a buf n s = Inr s'"
  shows "isValid s' = isValid s \<and>
    (\<forall>k. map_find (connections s) k \<noteq> None \<longrightarrow> map_find (connections s') k \<noteq> None)"
proof -
  obtain c where "s' = s\<lparr>connections := map_set (peer a) c (connections s)\<rparr>"
    using assms(2) by (auto simp: PassBufferToConnection_def Let_def)
  then show ?thesis using assms(1) by (simp add: map_find_set)
qed

lemma Receive_keeps:
  assumes inv: "udp_inv s" and ok: "round_ok r"
    and R: "Receive (select_result r) (peer_name r) (receive_memory r) (received_now r) s = Some res"
  shows "\<exists>s'. res = Inr s' \<and> udp_inv s' \<and> isValid s' = isValid s \<and> datagrams s' = datagrams s \<and>
    (\<forall>k. map_find (connections s) k \<noteq> None \<longrightarrow> map_find (connections s') k \<noteq> None)"
proof -
  have same: ?thesis if "res = Inr s" using that inv by auto
  consider "res = Inr s" | d a rest where "received_now r = Recv d a # rest" "d \<noteq> []"
    "res = PassBufferToConnection (peer_name r) a (d @ drop (length d) (receive_memory r)) (int BufLength) s"
  proof (cases "received_now r")
    case Nil
    then show ?thesis using R that(1) by (auto simp: Receive_def split: if_splits)
  next
    case (Cons x rest)
    show ?thesis
    proof (cases x)
      case Recv_error
      then show ?thesis using R that(1) Cons by (auto simp: Receive_def split: if_splits)
    next
      case (Recv d a)
      have d: "length d \<le> BufLength" using ok Cons Recv by (auto simp: round_ok_def)
      show ?thesis
        using R that Cons Recv Receive_once [OF Cons [unfolded Recv] d, of "peer_name r" "receive_memory r" s]
        by (cases "d = []") (auto simp: Receive_def split: if_splits)
    qed
  qed
  then show ?thesis
  proof cases
    case 1
    then show ?thesis by (rule same)
  next
    case 2
    have "length (d @ drop (length d) (receive_memory r)) = BufLength"
      using ok 2(1) by (auto simp: round_ok_def)
    from PassBuffer_inv [OF inv this, of "peer_name r" a] 2(3) obtain s' where
      s': "res = Inr s'" "udp_inv s'" "datagrams s' = datagrams s" by auto
    moreover have "isValid s' = isValid s"
      "\<forall>k. map_find (connections s) k \<noteq> None \<longrightarrow> map_find (connections s') k \<noteq> None"
      using PassBuffer_keeps [OF _ 2(3) [symmetric, unfolded s'(1)]] inv by (auto simp: udp_inv_def)
    ultimately show ?thesis by blast
  qed
qed

lemma Service_sends:
  assumes inv: "udp_inv s" and ok: "round_ok r"
  shows "ServiceOutgoingConnections (send_memory r) s =
    Inr (s\<lparr>datagrams := datagrams s @ map (\<lambda>(k, c). (k, send_memory r k)) (connections s)\<rparr>)"
  using service_loop_sends [OF inv, of "connections s" "send_memory r"] ok
  by (simp add: ServiceOutgoingConnections_def round_ok_def)

lemma filter_unique_key:
  assumes "map_ok m" and "map_find m k = Some c"
  shows "filter (\<lambda>d. fst d = k) (map (\<lambda>(k, c). (k, h k)) m) = [(k, h k)]"
  using assms
proof (induction m)
  case (Cons x m)
  obtain j v where x: "x = (j, v)" by (cases x)
  have ok: "map_ok m" "\<forall>i\<in>fst ` set m. j < i" using Cons.prems(1) by (auto simp: map_ok_def x)
  show ?case
  proof (cases "j = k")
    case True
    then have "filter (\<lambda>d. fst d = k) (map (\<lambda>(k, c). (k, h k)) m) = []"
      using ok(2) by (force simp: filter_empty_conv)
    then show ?thesis using True x by simp
  next
    case False
    then have "map_find m k = Some c" using Cons.prems(2) by (simp add: map_find_Cons x)
    then show ?thesis using Cons.IH ok(1) False x by simp
  qed
qed (simp add: map_find_def)

text \<open>A server that is valid goes on for ever, and sends one datagram to each connection per round.\<close>

lemma udp_loop_runs:
  "udp_inv s \<Longrightarrow> isValid s \<Longrightarrow> \<forall>r\<in>set rs. round_ok r \<Longrightarrow> udp_loop rs s = Some res \<Longrightarrow>
   \<exists>s'. res = Inr (False, s') \<and> isValid s' \<and> udp_inv s' \<and>
     (\<forall>k. map_find (connections s) k \<noteq> None \<longrightarrow>
        map_find (connections s') k \<noteq> None \<and> sent_to k s' = sent_to k s @ map (\<lambda>r. send_memory r k) rs)"
proof (induction rs arbitrary: s)
  case Nil
  then show ?case by auto
next
  case (Cons r rs)
  have ok: "round_ok r" using Cons.prems(3) by simp
  obtain res1 where R: "Receive (select_result r) (peer_name r) (receive_memory r) (received_now r) s = Some res1"
    using Cons.prems(2,4) by (auto split: option.splits)
  obtain s1 where s1: "res1 = Inr s1" "udp_inv s1" "isValid s1" "datagrams s1 = datagrams s"
    "\<And>k. map_find (connections s) k \<noteq> None \<Longrightarrow> map_find (connections s1) k \<noteq> None"
    using Receive_keeps [OF Cons.prems(1) ok R] Cons.prems(2) by auto
  let ?s = "s1\<lparr>datagrams := datagrams s1 @ map (\<lambda>(k, c). (k, send_memory r k)) (connections s1)\<rparr>"
  have "udp_loop rs ?s = Some res"
    using Cons.prems(2,4) R s1(1) Service_sends [OF s1(2) ok] by simp
  moreover have "udp_inv ?s" "isValid ?s" using s1(2,3) by (simp_all add: udp_inv_def)
  ultimately obtain s' where s': "res = Inr (False, s')" "isValid s'" "udp_inv s'"
    "\<forall>k. map_find (connections ?s) k \<noteq> None \<longrightarrow>
       map_find (connections s') k \<noteq> None \<and> sent_to k s' = sent_to k ?s @ map (\<lambda>r. send_memory r k) rs"
    using Cons.IH Cons.prems(3) by fastforce
  have "sent_to k ?s = sent_to k s @ [send_memory r k]" if k: "map_find (connections s) k \<noteq> None" for k
  proof -
    obtain c where "map_find (connections s1) k = Some c" using s1(5) [OF k] by blast
    with filter_unique_key [of "connections s1" k c "send_memory r"] s1(2,4) show ?thesis
      by (simp add: sent_to_def udp_inv_def)
  qed
  then show ?case using s' s1(5) by simp
qed

text \<open>
  The program ends exactly when its socket could not be set up, and then its own copy of the
  server has never been touched.
\<close>

lemma udp_threaded_main_ends:
  assumes "\<forall>r\<in>set rs. round_ok r" and "udp_threaded_main os rs = Some res"
  shows "\<exists>t. res = Inr (\<not> isValid (UdpServer_Init os new_udp_server), new_udp_server, t) \<and>
    (\<not> isValid (UdpServer_Init os new_udp_server) \<longrightarrow> t = UdpServer_Init os new_udp_server)"
proof -
  let ?s = "UdpServer_Init os new_udp_server"
  have new: "\<not> isValid new_udp_server" by (simp add: new_udp_server_def)
  show ?thesis
  proof (cases "isValid ?s")
    case False
    then show ?thesis using assms(2) new by (auto simp: udp_threaded_main_def udp_server_call_def)
  next
    case True
    have inv: "udp_inv ?s" using udp_server_reach_inv [OF udp_server_reach.init] .
    obtain r where r: "udp_loop rs ?s = Some r"
      using True assms(2) new by (auto simp: udp_threaded_main_def udp_server_call_def split: option.splits)
    then obtain s' where "r = Inr (False, s')" using udp_loop_runs [OF inv True assms(1)] by blast
    then show ?thesis using True assms(2) new r by (auto simp: udp_threaded_main_def udp_server_call_def)
  qed
qed

section \<open>What the client does\<close>

lemma udp_client_main_ends:
  assumes b: "length buffer = 1024" and slen: "6 \<le> slen"
    and r: "\<forall>reply. recvfrom_reply a = Some reply \<longrightarrow> length reply \<le> 1024"
  shows "\<exists>sm. udp_client_main wsa_ok socket_ok (a # as) slen buffer =
    Some (Inr (if wsa_ok \<and> socket_ok \<and> sendto_ok a \<and> recvfrom_reply a \<noteq> None then Waiting else Exited,
      if wsa_ok \<and> socket_ok \<and> sendto_ok a then [handshake True] else [], sm)) \<and>
    (\<forall>reply. wsa_ok \<and> socket_ok \<and> sendto_ok a \<and> recvfrom_reply a = Some reply \<and> length reply = 1024 \<longrightarrow>
       currentState sm = (if holds_at reply 0 (handshake False) then SendConnectionId else ConnectionFailed))"
proof -
  let ?sm = "new_CommsStateMachine False"
  let ?sm' = "?sm\<lparr>hasSentState := True\<rparr>"
  obtain b1 where b1: "wr buffer 0 (handshake (iniates ?sm) @ [0]) = Some b1"
    "DataSend buffer 1024 ?sm = Inr (True, 6, b1, ?sm')"
    using DataSend_handshake [of ?sm 1024 buffer] b by (auto simp: new_CommsStateMachine_def)
  have i: "iniates ?sm" "ReadyToSend ?sm" by (simp_all add: new_CommsStateMachine_def ReadyToSend_def)
  have "holds_at b1 0 (handshake True)" using wr_holds_at [OF b1(1)] i(1) by (simp add: holds_at_append)
  then have sent: "take 6 b1 = handshake True" by (auto simp: holds_at_def rd_def split: if_splits)
  show ?thesis
  proof (cases "wsa_ok \<and> socket_ok \<and> sendto_ok a \<and> recvfrom_reply a \<noteq> None")
    case False
    then show ?thesis using b1(2) sent i
      by (auto simp: udp_client_main_def Let_def IsExpectingReceive_def)
  next
    case True
    then obtain reply where reply: "recvfrom_reply a = Some reply" by blast
    let ?b = "reply @ drop (length reply) b1"
    have l: "length ?b = 1024" using length_wr [OF b1(1)] b r reply by simp
    have full: "?b = reply" if "length reply = 1024" using that length_wr [OF b1(1)] b by simp
    have D: "DataReceive ?b slen ?sm' =
        (if holds_at ?b 0 (handshake False) then Inr (True, ?sm'\<lparr>currentState := SendConnectionId\<rparr>)
         else Inr (False, ?sm'\<lparr>currentState := ConnectionFailed\<rparr>))"
      using DataReceive_handshake [of ?sm' slen ?b] slen l i(1) by (simp add: new_CommsStateMachine_def)
    obtain ok sm where sm: "DataReceive ?b slen ?sm' = Inr (ok, sm)" "hasSentState sm"
      "currentState sm = (if holds_at ?b 0 (handshake False) then SendConnectionId else ConnectionFailed)"
    proof (cases "holds_at ?b 0 (handshake False)")
      case True
      with D show ?thesis by (intro that [of True "?sm'\<lparr>currentState := SendConnectionId\<rparr>"]) simp_all
    next
      case False
      with D show ?thesis by (intro that [of False "?sm'\<lparr>currentState := ConnectionFailed\<rparr>"]) simp_all
    qed
    have "client_loop as slen ?b sm [handshake True] = Some (Inr (Waiting, [handshake True], sm))"
      using sm(2) by (cases as) (simp_all add: ReadyToSend_def)
    then show ?thesis using True reply b1(2) sent i sm full
      by (auto simp: udp_client_main_def Let_def IsExpectingReceive_def)
  qed
qed

end
