(* ===== verification/Network_Utils.thy ===== *)
theory Network_Utils
  imports Machine_Words "HOL-Library.Signed_Division"
begin

text \<open>
  The programs' dealings with the operating system: \<^verbatim>\<open>NetworkUtils.cpp\<close>, the UDP receiver
  \<^verbatim>\<open>UDP01.cpp\<close> and the class \<^verbatim>\<open>udpServer\<close>. What a system call returns is an argument; the
  calls that acquire and release something are recorded in the order in which they are made.
\<close>

section \<open>System calls\<close>

definition SOCKET_ERROR :: int where "SOCKET_ERROR = -1"

datatype os_call =
    Call_startup | Call_cleanup
  | Call_getaddrinfo | Call_freeaddrinfo
  | Call_socket | Call_setsockopt | Call_bind | Call_listen | Call_closesocket
  | Call_getsockname | Call_select | Call_recv

record os_answers =
  ans_startup :: int
  ans_getaddrinfo :: int
  ans_socket :: int
  ans_setsockopt :: int
  ans_bind :: int
  ans_listen :: int
  ans_select :: int
  ans_ioctl :: int

section \<open>NetworkUtils.cpp (the Windows branches)\<close>

definition SetSocketToNonblock :: "os_answers \<Rightarrow> bool" where
  "SetSocketToNonblock os = (if ans_ioctl os \<noteq> 0 then False else True)"

record sockaddr_in =
  sin_family :: U16
  sin_port :: U16
  sin_addr :: U32

definition AF_INET :: U16 where "AF_INET = 2"
definition INADDR_ANY :: U32 where "INADDR_ANY = 0"

definition SetupListenAddress :: "U16 \<Rightarrow> sockaddr_in" where
  "SetupListenAddress ServerPort =
     \<lparr>sin_family = AF_INET, sin_port = htons ServerPort, sin_addr = INADDR_ANY\<rparr>"

definition InitializeSockets :: "os_answers \<Rightarrow> bool" where
  "InitializeSockets os = (ans_startup os = 0)"

text \<open>
  \<^verbatim>\<open>GetLocalIpAddress\<close>: \<open>addrs\<close> is what \<^verbatim>\<open>gethostbyname\<close> returns, as dotted strings; a null
  result is logged and then dereferenced. \<^verbatim>\<open>strncpy\<close> pads with zeros, and does not terminate
  a text that fills the buffer.
\<close>

definition strncpy :: "bytes \<Rightarrow> nat \<Rightarrow> bytes" where
  "strncpy src n = take n src @ replicate (n - length src) 0"

definition GetLocalIpAddress :: "bytes list option \<Rightarrow> nat \<Rightarrow> bytes res" where
  "GetLocalIpAddress addrs buflen =
     (if buflen < 16 then Inl AssertFailed
      else case addrs of
             None \<Rightarrow> Inl NullDeref
           | Some [] \<Rightarrow> Inl NullDeref
           | Some (a # as) \<Rightarrow> Inr (strncpy a buflen))"

definition IsPortBusy :: "os_answers \<Rightarrow> bool \<times> os_call list" where
  "IsPortBusy os =
     (let calls = [Call_getaddrinfo]
      in if ans_getaddrinfo os \<noteq> 0 then (True, calls)
         else let calls = calls @ [Call_socket]
         in if ans_socket os = SOCKET_ERROR then (True, calls @ [Call_freeaddrinfo])
         else let calls = calls @ [Call_setsockopt]
         in if ans_setsockopt os = SOCKET_ERROR
            then (True, calls @ [Call_freeaddrinfo, Call_closesocket])
         else let calls = calls @ [Call_bind]
         in if ans_bind os = SOCKET_ERROR
            then (True, calls @ [Call_freeaddrinfo, Call_closesocket])
         else let calls = calls @ [Call_freeaddrinfo, Call_listen]
         in if ans_listen os = SOCKET_ERROR then (True, calls @ [Call_closesocket])
         else (False, calls @ [Call_closesocket]))"

text \<open>How often a call was made.\<close>

definition calls_of :: "os_call \<Rightarrow> os_call list \<Rightarrow> nat" where
  "calls_of c cs = length (filter (\<lambda>d. d = c) cs)"

lemma IsPortBusy_answer:
  "\<not> fst (IsPortBusy os) \<longleftrightarrow> ans_getaddrinfo os = 0 \<and> ans_socket os \<noteq> SOCKET_ERROR \<and>
     ans_setsockopt os \<noteq> SOCKET_ERROR \<and> ans_bind os \<noteq> SOCKET_ERROR \<and> ans_listen os \<noteq> SOCKET_ERROR"
  by (simp add: IsPortBusy_def Let_def)

lemma IsPortBusy_balanced:
  "calls_of Call_closesocket (snd (IsPortBusy os)) =
     (if ans_getaddrinfo os = 0 \<and> ans_socket os \<noteq> SOCKET_ERROR then 1 else 0)"
  "calls_of Call_freeaddrinfo (snd (IsPortBusy os)) = (if ans_getaddrinfo os = 0 then 1 else 0)"
  by (simp_all add: IsPortBusy_def Let_def calls_of_def)

section \<open>UDP01.cpp\<close>

definition NetworkingInit :: "os_answers \<Rightarrow> bool \<times> os_call list" where
  "NetworkingInit os = (ans_startup os = 0, [Call_startup])"

definition SetupSocketDetails :: "U16 \<Rightarrow> sockaddr_in" where
  "SetupSocketDetails port =
     \<lparr>sin_family = AF_INET, sin_port = htons port, sin_addr = htonl INADDR_ANY\<rparr>"

definition UDP01_OpenDGramSocket :: "os_answers \<Rightarrow> int \<times> os_call list" where
  "UDP01_OpenDGramSocket os =
     (if ans_socket os = SOCKET_ERROR then (0, [Call_socket, Call_cleanup])
      else if ans_setsockopt os < 0
           then (0, [Call_socket, Call_setsockopt, Call_closesocket, Call_cleanup])
      else (ans_socket os, [Call_socket, Call_setsockopt]))"

text \<open>
  \<^verbatim>\<open>main\<close>: it returns an exit code, or, when \<^verbatim>\<open>select\<close> reports a datagram, goes into its
  receive loop, which has no exit.
\<close>

datatype outcome = Exit int | Receives_forever

definition UDP01_main :: "os_answers \<Rightarrow> outcome \<times> os_call list" where
  "UDP01_main os =
     (let (ok, calls) = NetworkingInit os
      in if \<not> ok then (Exit (-1), calls)
         else let (ReceivingSocket, c) = UDP01_OpenDGramSocket os;
                  calls = calls @ c
         in if ReceivingSocket = 0 then (Exit (-1), calls)
         else let calls = calls @ [Call_bind]
         in if ans_bind os = SOCKET_ERROR
            then (Exit (-1), calls @ [Call_closesocket, Call_cleanup])
         else let calls = calls @ [Call_getsockname, Call_select]
         in if ans_select os \<noteq> 0 \<and> ans_select os \<noteq> -1 then (Receives_forever, calls)
         else (Exit 0, calls @ [Call_closesocket, Call_cleanup]))"

text \<open>Every exit has closed the socket and undone the startup.\<close>

lemma UDP01_main_balanced:
  assumes "fst (UDP01_main os) = Exit code" and "ans_socket os \<noteq> 0"
  shows "calls_of Call_closesocket (snd (UDP01_main os)) =
      (if ans_startup os = 0 \<and> ans_socket os \<noteq> SOCKET_ERROR then 1 else 0)"
    and "calls_of Call_cleanup (snd (UDP01_main os)) = (if ans_startup os = 0 then 1 else 0)"
  using assms
  by (auto simp: UDP01_main_def NetworkingInit_def UDP01_OpenDGramSocket_def Let_def calls_of_def
      split: if_splits)

section \<open>udpServer.cpp\<close>

record udp_socket =
  f_socket :: int
  f_port :: int
  f_addr :: string

text \<open>
  The constructor, which throws on failure: the result is the object or nothing, with the
  calls made. \<open>found\<close> says whether \<^verbatim>\<open>getaddrinfo\<close> returned an address.
\<close>

definition udpServer_new :: "os_answers \<Rightarrow> bool \<Rightarrow> string \<Rightarrow> int \<Rightarrow> udp_socket option \<times> os_call list" where
  "udpServer_new os found addr port =
     (if ans_getaddrinfo os \<noteq> 0 \<or> \<not> found then (None, [Call_getaddrinfo])
      else if ans_socket os = -1
           then (None, [Call_getaddrinfo, Call_socket, Call_freeaddrinfo])
      else if ans_bind os \<noteq> 0
           then (None, [Call_getaddrinfo, Call_socket, Call_bind, Call_freeaddrinfo, Call_closesocket])
      else (Some \<lparr>f_socket = ans_socket os, f_port = port, f_addr = addr\<rparr>,
            [Call_getaddrinfo, Call_socket, Call_bind]))"

definition udpServer_delete :: "udp_socket \<Rightarrow> os_call list" where
  "udpServer_delete srv = [Call_freeaddrinfo, Call_closesocket]"

definition get_socket :: "udp_socket \<Rightarrow> int" where "get_socket srv = f_socket srv"
definition get_port :: "udp_socket \<Rightarrow> int" where "get_port srv = f_port srv"
definition get_addr :: "udp_socket \<Rightarrow> string" where "get_addr srv = f_addr srv"

text \<open>
  \<^verbatim>\<open>timed_recv\<close>. The socket is in the read, the write and the exception set of \<^verbatim>\<open>select\<close>,
  which returns how many of them are ready (or \<open>-1\<close>); \<^verbatim>\<open>recv\<close> on a socket without data
  blocks. \<open>data\<close> is what \<^verbatim>\<open>recv\<close> would return.
\<close>

record ready =
  readable :: bool
  writable :: bool
  in_error :: bool

definition select_count :: "ready \<Rightarrow> int" where
  "select_count r = (if readable r then 1 else 0) + (if writable r then 1 else 0) +
     (if in_error r then 1 else 0)"

datatype recv_outcome = Returns int | Blocks

definition select_timeout :: "int \<Rightarrow> int \<times> int" where
  "select_timeout max_wait_ms = (max_wait_ms sdiv 1000, (max_wait_ms smod 1000) * 1000)"

definition udp_recv :: "ready \<Rightarrow> int \<Rightarrow> recv_outcome" where
  "udp_recv r data = (if readable r then Returns data else Blocks)"

definition timed_recv :: "bool \<Rightarrow> ready \<Rightarrow> int \<Rightarrow> recv_outcome" where
  "timed_recv select_fails r data =
     (let retval = (if select_fails then -1 else select_count r)
      in if retval = -1 then Returns (-1)
         else if retval > 0 then udp_recv r data
         else Returns (-1))"

lemma udpServer_balanced:
  "calls_of Call_freeaddrinfo (snd (udpServer_new os found addr port)) +
     (case fst (udpServer_new os found addr port) of None \<Rightarrow> 0
      | Some srv \<Rightarrow> calls_of Call_freeaddrinfo (udpServer_delete srv)) =
     (if ans_getaddrinfo os = 0 \<and> found then 1 else 0)"
  "calls_of Call_closesocket (snd (udpServer_new os found addr port)) +
     (case fst (udpServer_new os found addr port) of None \<Rightarrow> 0
      | Some srv \<Rightarrow> calls_of Call_closesocket (udpServer_delete srv)) =
     (if ans_getaddrinfo os = 0 \<and> found \<and> ans_socket os \<noteq> -1 then 1 else 0)"
  by (auto simp: udpServer_new_def udpServer_delete_def calls_of_def)

lemma select_timeout_exact:
  "0 \<le> ms \<Longrightarrow> fst (select_timeout ms) * 1000000 + snd (select_timeout ms) = ms * 1000 \<and>
     0 \<le> snd (select_timeout ms) \<and> snd (select_timeout ms) < 1000000"
proof -
  assume "0 \<le> ms"
  then have t: "select_timeout ms = (ms div 1000, ms mod 1000 * 1000)"
    by (cases "ms = 0") (simp_all add: select_timeout_def signed_divide_int_def signed_modulo_int_def)
  have "ms div 1000 * 1000 + ms mod 1000 = ms" by simp
  then have "ms div 1000 * 1000000 + ms mod 1000 * 1000 = ms * 1000" by linarith
  then show ?thesis using pos_mod_bound [of 1000 ms] by (simp add: t)
qed

text \<open>A writable socket without data makes \<^verbatim>\<open>timed_recv\<close> block instead of timing out.\<close>

lemma timed_recv_blocks:
  "writable r \<Longrightarrow> \<not> readable r \<Longrightarrow> timed_recv False r data = Blocks"
  by (simp add: timed_recv_def select_count_def udp_recv_def)

end
