(* ===== verification/Fixed_Strings.thy ===== *)
theory Fixed_Strings
  imports Serialize
begin

text \<open>
  \<^verbatim>\<open>FixedLengthString<N>\<close> and \<^verbatim>\<open>BoundedLengthString<N>\<close> of
  \<^verbatim>\<open>UDP01/OldCode/General/FixedLengthString.h/.inl\<close>. The template parameter is the argument
  \<open>N\<close>, an object's array \<^verbatim>\<open>char buffer[N + 1]\<close> a list of that length, and a \<^verbatim>\<open>const char*\<close>
  argument the characters before its terminating zero, or \<^term>\<open>None\<close> for a null pointer.
\<close>

section \<open>C strings\<close>

text \<open>The characters up to the first zero.\<close>

definition cstr :: "bytes \<Rightarrow> bytes" where
  "cstr b = takeWhile (\<lambda>c. c \<noteq> 0) b"

definition strlen :: "bytes \<Rightarrow> nat" where
  "strlen b = length (cstr b)"

text \<open>\<^verbatim>\<open>strstr\<close>: the first position at which \<open>sub\<close> stands in \<open>s\<close>.\<close>

fun strstr :: "'a list \<Rightarrow> 'a list \<Rightarrow> nat option" where
  "strstr [] sub = (if sub = [] then Some 0 else None)"
| "strstr (c # cs) sub =
     (if take (length sub) (c # cs) = sub then Some 0 else map_option Suc (strstr cs sub))"

definition to_lower :: "U8 \<Rightarrow> U8" where
  "to_lower c = (if 65 \<le> c \<and> c \<le> 90 then c + 32 else c)"

text \<open>\<^verbatim>\<open>strncpy(dest, src, n)\<close> writes \<open>n\<close> bytes, the copied text and zeros behind it.\<close>

definition padded :: "nat \<Rightarrow> bytes \<Rightarrow> bytes" where
  "padded n s = take n s @ replicate (n - length s) 0"

text \<open>It reads until a zero or \<open>n\<close> characters; \<^term>\<open>None\<close> when it runs off the source first.\<close>

definition strncpy_from :: "bytes \<Rightarrow> nat \<Rightarrow> nat \<Rightarrow> bytes option" where
  "strncpy_from src off n =
     (let t = cstr (take n (drop off src))
      in if length t < n \<and> length src \<le> off + length t then None else Some (padded n t))"

lemma length_padded [simp]: "length (padded n s) = n"
  by (simp add: padded_def)

lemma cstr_append_zero: "0 \<notin> set s \<Longrightarrow> cstr (s @ 0 # t) = s"
  unfolding cstr_def by (rule takeWhile_append_stop) auto

lemma cstr_no_zero: "0 \<notin> set (cstr b)"
  unfolding cstr_def by (auto dest: set_takeWhileD)

lemma cstr_id: "0 \<notin> set s \<Longrightarrow> cstr s = s"
  unfolding cstr_def by (rule takeWhile_id) auto

lemma cstr_padded: "0 \<notin> set s \<Longrightarrow> length s \<le> n \<Longrightarrow> cstr (padded n s @ [0]) = s"
proof -
  assume "0 \<notin> set s" "length s \<le> n"
  moreover have "padded n s @ [0] = s @ 0 # replicate (n - length s) 0"
    using \<open>length s \<le> n\<close> by (simp add: padded_def replicate_append_same)
  ultimately show ?thesis using cstr_append_zero by simp
qed

lemma length_cstr_less: "0 \<in> set b \<Longrightarrow> length (cstr b) < length b"
  unfolding cstr_def
  by (metis (mono_tags, lifting) length_takeWhile_le nat_less_le takeWhile_eq_all_conv
      takeWhile_eq_take take_all order_refl)

lemma cstr_split: "0 \<in> set b \<Longrightarrow> \<exists>t. b = cstr b @ 0 # t"
  unfolding cstr_def
proof (induction b)
  case (Cons c b)
  then show ?case by (cases "c = 0") auto
qed simp

text \<open>\<^verbatim>\<open>strstr\<close> finds the first occurrence and nothing else.\<close>

lemma strstr_None: "strstr s sub = None \<longleftrightarrow> (\<forall>i\<le>length s. take (length sub) (drop i s) \<noteq> sub)"
proof (induction s)
  case (Cons c cs)
  have "(\<forall>i\<le>length (c # cs). take (length sub) (drop i (c # cs)) \<noteq> sub) \<longleftrightarrow>
      take (length sub) (c # cs) \<noteq> sub \<and> (\<forall>i\<le>length cs. take (length sub) (drop i cs) \<noteq> sub)"
    by (metis (no_types, lifting) Suc_le_mono drop0 drop_Suc_Cons le0 length_Cons not0_implies_Suc)
  then show ?case using Cons by simp
qed simp

lemma strstr_Some:
  "strstr s sub = Some i \<Longrightarrow> i \<le> length s \<and> take (length sub) (drop i s) = sub \<and>
     (\<forall>j<i. take (length sub) (drop j s) \<noteq> sub)"
proof (induction s arbitrary: i)
  case Nil
  then show ?case by (auto split: if_splits)
next
  case (Cons c cs)
  show ?case
  proof (cases "take (length sub) (c # cs) = sub")
    case True
    then show ?thesis using Cons.prems by simp
  next
    case False
    then obtain k where k: "strstr cs sub = Some k" "i = Suc k" using Cons.prems by auto
    have "take (length sub) (drop j (c # cs)) \<noteq> sub" if "j < Suc k" for j
      using that False Cons.IH [OF k(1)] by (cases j) auto
    then show ?thesis using Cons.IH [OF k(1)] k(2) by auto
  qed
qed

section \<open>FixedLengthString\<close>

definition maxLength :: "nat \<Rightarrow> nat" where "maxLength N = N + 1"

definition Fixed_new :: "bytes \<Rightarrow> bytes" where "Fixed_new mem = mem[0 := 0]"
definition Fixed_clear :: "bytes \<Rightarrow> bytes" where "Fixed_clear b = b[0 := 0]"

definition Fixed_length :: "bytes \<Rightarrow> nat" where
  "Fixed_length b = (if b ! 0 = 0 then 0 else strlen b)"

definition Fixed_empty :: "bytes \<Rightarrow> bool" where "Fixed_empty b = (Fixed_length b = 0)"

definition Fixed_find :: "nat \<Rightarrow> bytes \<Rightarrow> bytes \<Rightarrow> nat" where
  "Fixed_find N b subString =
     (if b ! 0 = 0 then maxLength N
      else case strstr (cstr b) subString of None \<Rightarrow> maxLength N | Some i \<Rightarrow> i)"

definition Fixed_copy :: "nat \<Rightarrow> bytes option \<Rightarrow> bytes \<Rightarrow> bytes option" where
  "Fixed_copy N str b =
     (case str of
        None \<Rightarrow> Some (b[0 := 0])
      | Some s \<Rightarrow>
          if length s > N
          then do { b \<leftarrow> wr b 0 (padded N s); wr b N [0] }
          else wr b 0 (s @ [0]))"

definition Fixed_isEqual :: "nat \<Rightarrow> bytes \<Rightarrow> bytes option \<Rightarrow> bool \<Rightarrow> bool" where
  "Fixed_isEqual N b str compareCaseless =
     (case str of
        None \<Rightarrow> b ! 0 = 0
      | Some s \<Rightarrow>
          if length s > N then False
          else if \<not> compareCaseless then cstr b = s
          else map to_lower (cstr b) = map to_lower s)"

definition Fixed_SerializeIn :: "nat \<Rightarrow> bytes \<Rightarrow> nat \<Rightarrow> bytes \<Rightarrow> (bytes \<times> nat) option" where
  "Fixed_SerializeIn N inputBuffer off b = do {
     t \<leftarrow> strncpy_from inputBuffer off N;
     b \<leftarrow> wr b 0 t;
     b \<leftarrow> wr b N [0];
     Some (b, off + N) }"

definition Fixed_SerializeOut :: "nat \<Rightarrow> bytes \<Rightarrow> nat \<Rightarrow> bytes \<Rightarrow> (bytes \<times> nat) option" where
  "Fixed_SerializeOut N outputBuffer off b = do {
     t \<leftarrow> strncpy_from b 0 N;
     out \<leftarrow> wr outputBuffer off t;
     Some (out, off + N) }"

text \<open>An object that holds a string: \<open>N + 1\<close> characters with a zero among them.\<close>

definition fixed_ok :: "nat \<Rightarrow> bytes \<Rightarrow> bool" where
  "fixed_ok N b \<longleftrightarrow> length b = N + 1 \<and> 0 \<in> set b"

lemma fixed_ok_length: "fixed_ok N b \<Longrightarrow> length (cstr b) \<le> N"
  unfolding fixed_ok_def using length_cstr_less [of b] by simp

lemma Fixed_length_cstr: "fixed_ok N b \<Longrightarrow> Fixed_length b = length (cstr b)"
  by (cases b) (simp_all add: fixed_ok_def Fixed_length_def strlen_def cstr_def)

lemma wr_all: "length bs = length b \<Longrightarrow> wr b 0 bs = Some bs"
  by (simp add: wr_def)

text \<open>Assigning a text stores its first \<open>N\<close> characters.\<close>

lemma Fixed_copy_result:
  assumes "length b = N + 1" and "0 \<notin> set s"
  shows "\<exists>b'. Fixed_copy N (Some s) b = Some b' \<and> fixed_ok N b' \<and> cstr b' = take N s"
proof (cases "length s > N")
  case True
  then have p: "padded N s = take N s" by (simp add: padded_def)
  have "Fixed_copy N (Some s) b = Some (take N s @ [0])"
    using assms(1) True by (simp add: Fixed_copy_def p wr_def)
  moreover have "cstr (take N s @ [0]) = take N s"
    using assms(2) by (intro cstr_append_zero) (auto dest: in_set_takeD)
  ultimately show ?thesis using True by (simp add: fixed_ok_def)
next
  case False
  then have "Fixed_copy N (Some s) b = Some (s @ 0 # drop (length s + 1) b)"
    using assms(1) by (simp add: Fixed_copy_def wr_def)
  then show ?thesis
    using cstr_append_zero [OF assms(2)] False assms(1) by (simp add: fixed_ok_def)
qed

lemma Fixed_copy_null:
  "length b = N + 1 \<Longrightarrow> \<exists>b'. Fixed_copy N None b = Some b' \<and> fixed_ok N b' \<and> cstr b' = []"
  by (cases b) (simp_all add: Fixed_copy_def fixed_ok_def cstr_def)

lemma Fixed_isEqual_iff:
  "fixed_ok N b \<Longrightarrow> Fixed_isEqual N b (Some s) False \<longleftrightarrow> cstr b = s"
  using fixed_ok_length [of N b] by (auto simp: Fixed_isEqual_def)

lemma Fixed_isEqual_null: "fixed_ok N b \<Longrightarrow> Fixed_isEqual N b None cl \<longleftrightarrow> cstr b = []"
  by (cases b) (auto simp: Fixed_isEqual_def fixed_ok_def cstr_def)

lemma strncpy_from_ok:
  assumes "fixed_ok N b"
  shows "strncpy_from b 0 N = Some (padded N (cstr b))"
proof -
  obtain t where t: "b = cstr b @ 0 # t" using cstr_split assms unfolding fixed_ok_def by blast
  have le: "length (cstr b) \<le> N" using fixed_ok_length [OF assms] .
  have "cstr (take N b) = cstr b"
  proof (cases "length (cstr b) = N")
    case True
    then have "take N b = cstr b" by (subst t) simp
    then show ?thesis using cstr_id [OF cstr_no_zero] by simp
  next
    case False
    then have "take N b = cstr b @ 0 # take (N - length (cstr b) - 1) t"
      using le by (subst t) (simp add: take_Cons')
    then show ?thesis using cstr_append_zero [OF cstr_no_zero] by simp
  qed
  then show ?thesis using assms le by (simp add: strncpy_from_def fixed_ok_def)
qed

lemma strncpy_from_padded:
  assumes h: "holds_at src off (padded n s)" and s: "0 \<notin> set s" "length s \<le> n"
  shows "strncpy_from src off n = Some (padded n s)"
proof -
  have t: "take n (drop off src) = padded n s" and len: "off + n \<le> length src"
    using h by (auto simp: holds_at_def rd_def split: if_splits)
  have "cstr (padded n s) = s"
  proof (cases "length s = n")
    case True
    then show ?thesis using s by (simp add: padded_def cstr_id)
  next
    case False
    then have "padded n s = s @ 0 # replicate (n - length s - 1) 0"
      using s(2) by (simp add: padded_def replicate_Suc [symmetric] del: replicate_Suc)
    then show ?thesis using cstr_append_zero [OF s(1)] by simp
  qed
  then show ?thesis using t len s by (auto simp: strncpy_from_def Let_def)
qed

text \<open>Whatever comes over the wire, the object holds a string afterwards.\<close>

lemma Fixed_SerializeIn_ok:
  assumes "length b = N + 1" and "Fixed_SerializeIn N src off b = Some (b', off')"
  shows "fixed_ok N b' \<and> off' = off + N"
proof -
  obtain t where t: "strncpy_from src off N = Some t" "length t = N"
    using assms(2) by (auto simp: Fixed_SerializeIn_def strncpy_from_def Let_def bind_eq_Some_conv
        split: if_splits)
  then have "Fixed_SerializeIn N src off b = Some (t @ [0], off + N)"
    using assms(1) by (simp add: Fixed_SerializeIn_def wr_def)
  then show ?thesis using assms(2) t by (auto simp: fixed_ok_def)
qed

lemma Fixed_roundtrip:
  assumes b: "fixed_ok N b" and out: "Fixed_SerializeOut N buf off b = Some (buf', off')"
    and b0: "length b0 = N + 1"
  shows "\<exists>b'. Fixed_SerializeIn N buf' off b0 = Some (b', off') \<and> fixed_ok N b' \<and> cstr b' = cstr b"
proof -
  let ?s = "cstr b"
  have w: "wr buf off (padded N ?s) = Some buf'" "off' = off + N"
    using out strncpy_from_ok [OF b] by (auto simp: Fixed_SerializeOut_def bind_eq_Some_conv)
  have "strncpy_from buf' off N = Some (padded N ?s)"
    by (rule strncpy_from_padded [OF wr_holds_at [OF w(1)] cstr_no_zero fixed_ok_length [OF b]])
  then have "Fixed_SerializeIn N buf' off b0 = Some (padded N ?s @ [0], off + N)"
    using b0 by (simp add: Fixed_SerializeIn_def wr_def)
  then show ?thesis
    using cstr_padded [OF cstr_no_zero fixed_ok_length [OF b]] w(2) by (simp add: fixed_ok_def)
qed

lemma Fixed_find_result:
  assumes b: "fixed_ok N b"
  shows "if Fixed_find N b sub \<noteq> maxLength N
    then take (length sub) (drop (Fixed_find N b sub) (cstr b)) = sub \<and>
         (\<forall>j<Fixed_find N b sub. take (length sub) (drop j (cstr b)) \<noteq> sub)
    else cstr b = [] \<or> (\<forall>i\<le>length (cstr b). take (length sub) (drop i (cstr b)) \<noteq> sub)"
proof (cases "b ! 0 = 0")
  case True
  then have "cstr b = []" using b by (cases b) (auto simp: fixed_ok_def cstr_def)
  then show ?thesis using True by (simp add: Fixed_find_def)
next
  case False
  then show ?thesis
  proof (cases "strstr (cstr b) sub")
    case None
    then show ?thesis using False by (simp add: Fixed_find_def strstr_None [THEN iffD1])
  next
    case (Some i)
    then have "i \<noteq> maxLength N"
      using strstr_Some [OF Some] fixed_ok_length [OF b] by (simp add: maxLength_def)
    then show ?thesis using False Some strstr_Some [OF Some] by (simp add: Fixed_find_def)
  qed
qed

section \<open>BoundedLengthString\<close>

record bounded_string =
  bs_buffer :: bytes
  m_length :: nat

definition Bounded_new :: "bytes \<Rightarrow> bounded_string" where
  "Bounded_new mem = \<lparr>bs_buffer = mem[0 := 0], m_length = 0\<rparr>"

definition Bounded_clear :: "bounded_string \<Rightarrow> bounded_string" where
  "Bounded_clear s = \<lparr>bs_buffer = (bs_buffer s)[0 := 0], m_length = 0\<rparr>"

definition Bounded_length :: "bounded_string \<Rightarrow> nat" where
  "Bounded_length s = (if bs_buffer s ! 0 = 0 then 0 else strlen (bs_buffer s))"

definition Bounded_find :: "nat \<Rightarrow> bounded_string \<Rightarrow> bytes \<Rightarrow> nat" where
  "Bounded_find N s subString = Fixed_find N (bs_buffer s) subString"

definition Bounded_copy :: "nat \<Rightarrow> bytes option \<Rightarrow> bounded_string \<Rightarrow> bounded_string option" where
  "Bounded_copy N str b =
     (case str of
        None \<Rightarrow> Some \<lparr>bs_buffer = (bs_buffer b)[0 := 0], m_length = 0\<rparr>
      | Some s \<Rightarrow> do {
          let n = (if length s > N then N else length s);
          buf \<leftarrow> (if length s > N then wr (bs_buffer b) 0 (padded N s)
                  else wr (bs_buffer b) 0 (s @ [0]));
          buf \<leftarrow> wr buf n [0];
          Some \<lparr>bs_buffer = buf, m_length = n\<rparr> })"

definition Bounded_isEqual :: "nat \<Rightarrow> bounded_string \<Rightarrow> bytes option \<Rightarrow> bool \<Rightarrow> bool" where
  "Bounded_isEqual N s str compareCaseless = Fixed_isEqual N (bs_buffer s) str compareCaseless"

definition Bounded_SerializeIn ::
  "nat \<Rightarrow> bytes \<Rightarrow> nat \<Rightarrow> bounded_string \<Rightarrow> (bounded_string \<times> nat) option" where
  "Bounded_SerializeIn N inputBuffer off s = do {
     (sz, off) \<leftarrow> In_U16 inputBuffer off;
     if sz = 0 then Some (\<lparr>bs_buffer = (bs_buffer s)[0 := 0], m_length = 0\<rparr>, off)
     else do {
       let n = (if unat sz > N then N else unat sz);
       t \<leftarrow> rd inputBuffer off n;
       buf \<leftarrow> wr (bs_buffer s) 0 t;
       buf \<leftarrow> wr buf n [0];
       Some (\<lparr>bs_buffer = buf, m_length = n\<rparr>, off + n) } }"

definition Bounded_SerializeOut ::
  "bytes \<Rightarrow> nat \<Rightarrow> bounded_string \<Rightarrow> (bytes \<times> nat) option" where
  "Bounded_SerializeOut outputBuffer off s = do {
     (out, off) \<leftarrow> Out_U16 outputBuffer off (of_nat (m_length s));
     if m_length s > 0 then do {
       t \<leftarrow> rd (bs_buffer s) 0 (m_length s);
       out \<leftarrow> wr out off t;
       Some (out, off + m_length s) }
     else Some (out, off) }"

text \<open>
  A bounded string in order: its length is that of the text it holds. A text with an
  embedded zero that is read from the wire breaks this.
\<close>

definition bounded_ok :: "nat \<Rightarrow> bounded_string \<Rightarrow> bool" where
  "bounded_ok N s \<longleftrightarrow> length (bs_buffer s) = N + 1 \<and> m_length s \<le> N \<and>
     0 \<notin> set (take (m_length s) (bs_buffer s)) \<and> bs_buffer s ! m_length s = 0"

definition bounded_text :: "bounded_string \<Rightarrow> bytes" where
  "bounded_text s = take (m_length s) (bs_buffer s)"

lemma bounded_ok_cstr:
  assumes "bounded_ok N s" shows "cstr (bs_buffer s) = bounded_text s" "Bounded_length s = m_length s"
proof -
  have "bs_buffer s = take (m_length s) (bs_buffer s) @ bs_buffer s ! m_length s # drop (Suc (m_length s)) (bs_buffer s)"
    using assms unfolding bounded_ok_def by (intro id_take_nth_drop) simp
  then have "bs_buffer s = bounded_text s @ 0 # drop (Suc (m_length s)) (bs_buffer s)"
    using assms by (simp add: bounded_ok_def bounded_text_def)
  then show c: "cstr (bs_buffer s) = bounded_text s"
    using cstr_append_zero assms unfolding bounded_ok_def bounded_text_def by metis
  have l: "length (bounded_text s) = m_length s"
    using assms by (simp add: bounded_ok_def bounded_text_def)
  show "Bounded_length s = m_length s"
  proof (cases "bs_buffer s ! 0 = 0")
    case True
    then have "cstr (bs_buffer s) = []"
      using assms by (cases "bs_buffer s") (auto simp: bounded_ok_def cstr_def)
    then show ?thesis using True c l by (simp add: Bounded_length_def)
  next
    case False
    then show ?thesis using c l by (simp add: Bounded_length_def strlen_def)
  qed
qed

lemma bounded_make:
  assumes "length buf = N + 1" and "n \<le> N" and "length t = n" and "0 \<notin> set t"
  shows "\<exists>b1 b2. wr buf 0 t = Some b1 \<and> wr b1 n [0] = Some b2 \<and>
    bounded_ok N \<lparr>bs_buffer = b2, m_length = n\<rparr> \<and> bounded_text \<lparr>bs_buffer = b2, m_length = n\<rparr> = t"
proof -
  have b1: "wr buf 0 t = Some (t @ drop n buf)" using assms by (simp add: wr_def)
  have "wr (t @ drop n buf) n [0] = Some (t @ 0 # drop (n + 1) buf)"
    using assms by (simp add: wr_def)
  then show ?thesis
    using b1 assms by (intro exI conjI) (auto simp: bounded_ok_def bounded_text_def)
qed

lemma Bounded_copy_result:
  assumes "length (bs_buffer b) = N + 1" and "0 \<notin> set s"
  shows "\<exists>b'. Bounded_copy N (Some s) b = Some b' \<and> bounded_ok N b' \<and> bounded_text b' = take N s"
proof (cases "length s > N")
  case True
  then have p: "padded N s = take N s" by (simp add: padded_def)
  have "0 \<notin> set (take N s)" using assms(2) by (auto dest: in_set_takeD)
  then show ?thesis
    using bounded_make [OF assms(1), of N "take N s"] True
    by (auto simp: Bounded_copy_def p Let_def)
next
  case False
  have w: "wr (bs_buffer b) 0 (s @ [0]) = Some (s @ 0 # drop (length s + 1) (bs_buffer b))"
    using False assms(1) by (simp add: wr_def)
  moreover have "wr (s @ 0 # drop (length s + 1) (bs_buffer b)) (length s) [0] =
      Some (s @ 0 # drop (length s + 1) (bs_buffer b))"
    by (simp add: wr_def)
  ultimately show ?thesis
    using False assms by (simp add: Bounded_copy_def Let_def bounded_ok_def bounded_text_def)
qed

lemma Bounded_roundtrip:
  assumes s: "bounded_ok N s" "N \<le> 65535" and s0: "length (bs_buffer s0) = N + 1"
    and out: "Bounded_SerializeOut buf off s = Some (buf', off')"
  shows "\<exists>s'. Bounded_SerializeIn N buf' off s0 = Some (s', off') \<and> bounded_ok N s' \<and>
    bounded_text s' = bounded_text s"
proof -
  let ?n = "m_length s"
  have n: "?n \<le> N" "?n < 65536" using s by (auto simp: bounded_ok_def)
  then have u: "unat (of_nat ?n :: U16) = ?n" by (simp add: unat_of_nat)
  have z: "(of_nat ?n :: U16) = 0 \<longleftrightarrow> ?n = 0" by (simp add: u flip: unat_eq_0)
  have t: "rd (bs_buffer s) 0 ?n = Some (bounded_text s)" "length (bounded_text s) = ?n"
    using s by (auto simp: rd_def bounded_ok_def bounded_text_def)
  have out': "Bounded_SerializeOut buf off s =
      Out_U16 buf off (of_nat ?n) \<bind> (\<lambda>(out, off). map_option (\<lambda>b. (b, off + ?n)) (wr out off (bounded_text s)))"
    if "0 < ?n" using that t by (simp add: Bounded_SerializeOut_def bind_Some_map)
  show ?thesis
  proof (cases "?n = 0")
    case True
    then have "Out_U16 buf off 0 = Some (buf', off')"
      using out by (auto simp: Bounded_SerializeOut_def bind_eq_Some_conv)
    then have "In_U16 buf' off = Some (0, off')" using s_U16.roundtrip by blast
    then show ?thesis
      using True s0 by (cases "bs_buffer s0")
        (auto simp: Bounded_SerializeIn_def bounded_ok_def bounded_text_def)
  next
    case False
    then obtain b1 o1 where o: "Out_U16 buf off (of_nat ?n) = Some (b1, o1)"
      "map_option (\<lambda>b. (b, o1 + ?n)) (wr b1 o1 (bounded_text s)) = Some (buf', off')"
      using out out' by (cases "Out_U16 buf off (of_nat ?n)") auto
    have "o1 = off + 2" using s_U16.outp_advance [OF o(1)] .
    then have b1: "Out_U16 buf off (of_nat ?n) = Some (b1, off + 2)"
      "wr b1 (off + 2) (bounded_text s) = Some buf'" "off' = off + 2 + ?n"
      using o by auto
    have "holds_at b1 off (be_bytes (of_nat ?n :: U16))"
      using s_U16.outp_SomeD [OF b1(1)] wr_holds_at by blast
    then have "holds_at buf' off (be_bytes (of_nat ?n :: U16))"
      by (rule holds_at_wr_disjoint [OF b1(2)]) simp
    then have i: "In_U16 buf' off = Some (of_nat ?n, off + 2)"
      using s_U16.inp_enc [of buf' off "of_nat ?n"] by simp
    have r: "rd buf' (off + 2) ?n = Some (bounded_text s)"
      using holds_at_rd [OF wr_holds_at [OF b1(2)]] t(2) by simp
    have "0 \<notin> set (bounded_text s)" using s(1) by (simp add: bounded_ok_def bounded_text_def)
    from bounded_make [OF s0 n(1) t(2) this] show ?thesis
      using i r z False n b1(3) by (auto simp: Bounded_SerializeIn_def u Let_def)
  qed
qed

text \<open>A longer text is cut to \<open>N\<close> characters, but the offset stops behind those \<open>N\<close>.\<close>

lemma Bounded_SerializeIn_desync:
  assumes "In_U16 buf off = Some (sz, off + 2)" and "N < unat sz" and "off + 2 + N \<le> length buf"
    and "length (bs_buffer s0) = N + 1"
  shows "\<exists>s'. Bounded_SerializeIn N buf off s0 = Some (s', off + 2 + N) \<and> m_length s' = N"
proof -
  have "sz \<noteq> 0" using assms(2) by (auto simp: unat_eq_0)
  moreover have r: "rd buf (off + 2) N = Some (take N (drop (off + 2) buf))"
    using assms(3) by (simp add: rd_def)
  ultimately show ?thesis
    using assms by (simp add: Bounded_SerializeIn_def Let_def wr_def)
qed

section \<open>Constructors and operators\<close>

text \<open>
  The constructors run \<^verbatim>\<open>copy\<close> on fresh memory \<open>mem\<close>; an argument that is another object or a
  \<^verbatim>\<open>std::string\<close> is passed as its characters up to the first zero.
\<close>

definition Fixed_from_fixed :: "nat \<Rightarrow> bytes \<Rightarrow> bytes \<Rightarrow> bytes option" where
  "Fixed_from_fixed N mem rhs = Fixed_copy N (Some (cstr rhs)) mem"

definition Fixed_from_chars :: "nat \<Rightarrow> bytes \<Rightarrow> bytes option \<Rightarrow> bytes option" where
  "Fixed_from_chars N mem str = Fixed_copy N str mem"

definition Fixed_from_string :: "nat \<Rightarrow> bytes \<Rightarrow> bytes \<Rightarrow> bytes option" where
  "Fixed_from_string N mem str = Fixed_copy N (Some (cstr str)) mem"

definition Fixed_size :: "bytes \<Rightarrow> nat" where "Fixed_size b = Fixed_length b"

definition Fixed_eq_chars :: "nat \<Rightarrow> bytes \<Rightarrow> bytes option \<Rightarrow> bool" where
  "Fixed_eq_chars N b str = Fixed_isEqual N b str False"

definition Fixed_eq :: "nat \<Rightarrow> bytes \<Rightarrow> bytes \<Rightarrow> bool" where
  "Fixed_eq N b rhs = Fixed_isEqual N b (Some (cstr rhs)) False"

definition Fixed_assign :: "nat \<Rightarrow> bytes option \<Rightarrow> bytes \<Rightarrow> bytes option" where
  "Fixed_assign N str b = Fixed_copy N str b"

definition string_eq_Fixed :: "nat \<Rightarrow> bytes \<Rightarrow> bytes \<Rightarrow> bool" where
  "string_eq_Fixed N lhs rhs = Fixed_eq_chars N rhs (Some (cstr lhs))"

definition chars_eq_Fixed :: "nat \<Rightarrow> bytes option \<Rightarrow> bytes \<Rightarrow> bool" where
  "chars_eq_Fixed N lhs rhs = Fixed_eq_chars N rhs lhs"

definition Fixed_to_string :: "bytes \<Rightarrow> bytes" where "Fixed_to_string b = cstr b"

text \<open>\<^verbatim>\<open>operator<<\<close> on what the stream \<open>os\<close> and the console have printed so far.\<close>

definition Fixed_print :: "bytes \<times> bytes \<Rightarrow> bytes \<Rightarrow> bytes \<times> bytes" where
  "Fixed_print streams str = (let (os, console) = streams in (os, console @ cstr str))"

definition Bounded_from_bounded :: "nat \<Rightarrow> bounded_string \<Rightarrow> bounded_string \<Rightarrow> bounded_string option" where
  "Bounded_from_bounded N mem rhs = Bounded_copy N (Some (cstr (bs_buffer rhs))) mem"

definition Bounded_from_chars :: "nat \<Rightarrow> bounded_string \<Rightarrow> bytes option \<Rightarrow> bounded_string option" where
  "Bounded_from_chars N mem str = Bounded_copy N str mem"

definition Bounded_from_string :: "nat \<Rightarrow> bounded_string \<Rightarrow> bytes \<Rightarrow> bounded_string option" where
  "Bounded_from_string N mem str = Bounded_copy N (Some (cstr str)) mem"

definition Bounded_size :: "bounded_string \<Rightarrow> nat" where "Bounded_size s = Bounded_length s"
definition Bounded_empty :: "bounded_string \<Rightarrow> bool" where "Bounded_empty s = (Bounded_size s = 0)"

definition Bounded_eq_chars :: "nat \<Rightarrow> bounded_string \<Rightarrow> bytes option \<Rightarrow> bool" where
  "Bounded_eq_chars N s str = Bounded_isEqual N s str False"

definition Bounded_eq :: "nat \<Rightarrow> bounded_string \<Rightarrow> bounded_string \<Rightarrow> bool" where
  "Bounded_eq N s rhs = Bounded_isEqual N s (Some (cstr (bs_buffer rhs))) False"

definition Bounded_assign :: "nat \<Rightarrow> bytes option \<Rightarrow> bounded_string \<Rightarrow> bounded_string option" where
  "Bounded_assign N str s = Bounded_copy N str s"

definition string_eq_Bounded :: "nat \<Rightarrow> bytes \<Rightarrow> bounded_string \<Rightarrow> bool" where
  "string_eq_Bounded N lhs rhs = Bounded_eq_chars N rhs (Some (cstr lhs))"

definition chars_eq_Bounded :: "nat \<Rightarrow> bytes option \<Rightarrow> bounded_string \<Rightarrow> bool" where
  "chars_eq_Bounded N lhs rhs = Bounded_eq_chars N rhs lhs"

definition Bounded_to_string :: "bounded_string \<Rightarrow> bytes" where
  "Bounded_to_string s = cstr (bs_buffer s)"

definition Bounded_print :: "bytes \<times> bytes \<Rightarrow> bounded_string \<Rightarrow> bytes \<times> bytes" where
  "Bounded_print streams str = (let (os, console) = streams in (os, console @ cstr (bs_buffer str)))"

text \<open>Two objects in order compare equal when they hold the same text, whatever lies behind it.\<close>

lemma Fixed_eq_iff:
  "fixed_ok N a \<Longrightarrow> Fixed_eq N a b \<longleftrightarrow> cstr a = cstr b"
  by (simp add: Fixed_eq_def Fixed_isEqual_iff)

lemma Fixed_eq_equivalence:
  "equiv {b. fixed_ok N b} {(a, b). fixed_ok N a \<and> fixed_ok N b \<and> Fixed_eq N a b}"
  by (auto simp: equiv_def refl_on_def sym_def trans_def Fixed_eq_iff)

text \<open>
  A copy equals its source, and so does a string that fits. A longer one does not: it is
  cut when it is stored, and \<^verbatim>\<open>==\<close> rejects every text of more than \<open>N\<close> characters.
\<close>

lemma Fixed_from_fixed_eq:
  assumes "length mem = N + 1" and rhs: "fixed_ok N rhs"
  shows "\<exists>b. Fixed_from_fixed N mem rhs = Some b \<and> fixed_ok N b \<and> Fixed_eq N b rhs"
  using Fixed_copy_result [OF assms(1) cstr_no_zero, of rhs] fixed_ok_length [OF rhs]
  by (auto simp: Fixed_from_fixed_def Fixed_eq_iff)

lemma Fixed_assign_eq:
  assumes "length b = N + 1" and "0 \<notin> set s"
  shows "\<exists>b'. Fixed_assign N (Some s) b = Some b' \<and> (chars_eq_Fixed N (Some s) b' \<longleftrightarrow> length s \<le> N)"
  using Fixed_copy_result [OF assms]
  by (auto simp: Fixed_assign_def chars_eq_Fixed_def Fixed_eq_chars_def Fixed_isEqual_iff take_all_iff)

text \<open>A \<^verbatim>\<open>std::string\<close> with a zero inside equals the object that holds its beginning.\<close>

lemma string_eq_Fixed_cut:
  "fixed_ok N b \<Longrightarrow> string_eq_Fixed N s b \<longleftrightarrow> cstr b = cstr s"
  by (simp add: string_eq_Fixed_def Fixed_eq_chars_def Fixed_isEqual_iff)

text \<open>An object that is turned into a \<^verbatim>\<open>std::string\<close> and back is the same text.\<close>

lemma Fixed_string_roundtrip:
  assumes "length mem = N + 1" and b: "fixed_ok N b"
  shows "\<exists>b'. Fixed_from_string N mem (Fixed_to_string b) = Some b' \<and> Fixed_eq N b' b \<and>
    string_eq_Fixed N (Fixed_to_string b) b'"
  using Fixed_copy_result [OF assms(1) cstr_no_zero, of b] fixed_ok_length [OF b]
  by (auto simp: Fixed_from_string_def Fixed_to_string_def Fixed_eq_iff string_eq_Fixed_cut
      cstr_id [OF cstr_no_zero])

text \<open>Nothing ever reaches the stream that the text is printed to.\<close>

lemma prints_ignore_stream:
  "fst (fold (\<lambda>str s. Fixed_print s str) strs (os, console)) = os"
  by (induction strs arbitrary: console) (simp_all add: Fixed_print_def)

lemma Bounded_eq_iff:
  assumes a: "bounded_ok N a" and b: "bounded_ok N b"
  shows "Bounded_eq N a b \<longleftrightarrow> bounded_text a = bounded_text b"
proof -
  have "length (cstr (bs_buffer b)) \<le> N"
    using bounded_ok_cstr(1) [OF b] b by (simp add: bounded_text_def bounded_ok_def)
  then show ?thesis
    using bounded_ok_cstr(1) [OF a] bounded_ok_cstr(1) [OF b]
    by (simp add: Bounded_eq_def Bounded_isEqual_def Fixed_isEqual_def)
qed

lemma Bounded_from_bounded_eq:
  assumes mem: "length (bs_buffer mem) = N + 1" and rhs: "bounded_ok N rhs"
  shows "\<exists>s. Bounded_from_bounded N mem rhs = Some s \<and> Bounded_eq N s rhs"
proof -
  have t: "cstr (bs_buffer rhs) = bounded_text rhs" "take N (bounded_text rhs) = bounded_text rhs"
    using bounded_ok_cstr(1) [OF rhs] rhs by (auto simp: bounded_text_def bounded_ok_def)
  obtain s where s: "Bounded_from_bounded N mem rhs = Some s" "bounded_ok N s"
    "bounded_text s = bounded_text rhs"
    using Bounded_copy_result [OF mem cstr_no_zero, of "bs_buffer rhs"]
    by (auto simp: Bounded_from_bounded_def t)
  then show ?thesis using Bounded_eq_iff [OF s(2) rhs] by blast
qed

end
