(* ===== verification/Common_Types.thy ===== *)
theory Common_Types
  imports Fixed_Strings
begin

text \<open>
  The containers of \<^verbatim>\<open>UDP01/OldCode/Packets/CommonTypes.h/.cpp\<close>: buckets of strings that
  are sent as a whole, the key-value vector and the serialized vector. Template members that
  are declared and nowhere defined are not modelled.
\<close>

section \<open>Helpers\<close>

text \<open>\<^verbatim>\<open>from_type<T>()\<close>; \<open>name\<close> is \<^verbatim>\<open>typeid(T).name()\<close>.\<close>

definition from_type :: "string \<Rightarrow> string" where
  "from_type name =
     (let search = ''class ''
      in case strstr name search of
           Some position \<Rightarrow> take position name @ drop (position + length search) name
         | None \<Rightarrow> name)"

lemma from_type_class:
  "from_type (''class '' @ name) = name"
  by (simp add: from_type_def)

fun vector_copy_loop :: "'a list \<Rightarrow> 'a list \<Rightarrow> 'a list" where
  "vector_copy_loop dest [] = dest"
| "vector_copy_loop dest (x # it) = vector_copy_loop (dest @ [x]) it"

definition vector_copy :: "'a list \<Rightarrow> 'a list \<Rightarrow> 'a list" where
  "vector_copy dest source = vector_copy_loop [] source"

lemma vector_copy_loop_append: "vector_copy_loop dest it = dest @ it"
  by (induction it arbitrary: dest) simp_all

lemma vector_copy_source: "vector_copy dest source = source"
  by (simp add: vector_copy_def vector_copy_loop_append)

section \<open>StringBucket\<close>

type_synonym string_bucket = "bytes list"

definition StringBucket_insert :: "bytes \<Rightarrow> string_bucket \<Rightarrow> string_bucket" where
  "StringBucket_insert str bucket = bucket @ [str]"

text \<open>Reading appends to what the bucket holds. A negative count reads nothing.\<close>

definition StringBucket_SerializeIn ::
  "bytes \<Rightarrow> nat \<Rightarrow> string_bucket \<Rightarrow> (string_bucket \<times> nat) option" where
  "StringBucket_SerializeIn data off bucket = do {
     (numStrings, off) \<leftarrow> In_int data off;
     (strings, off) \<leftarrow> In_array In_string (nat (sint numStrings)) data off;
     Some (bucket @ strings, off) }"

definition StringBucket_SerializeOut ::
  "bytes \<Rightarrow> nat \<Rightarrow> string_bucket \<Rightarrow> (bytes \<times> nat) option" where
  "StringBucket_SerializeOut data off bucket = do {
     (data, off) \<leftarrow> Out_int data off (of_nat (length bucket));
     Out_array Out_string data off bucket }"

definition enc_bucket :: "string_bucket \<Rightarrow> bytes" where
  "enc_bucket bucket = be_bytes (of_nat (length bucket) :: S32) @ enc_list enc_string bucket"

definition bucket_ok :: "string_bucket \<Rightarrow> bool" where
  "bucket_ok bucket \<longleftrightarrow> list_all string_ok bucket \<and> length bucket < 2 ^ 31"

lemma sint_of_nat_small: "n < 2 ^ 31 \<Longrightarrow> sint (of_nat n :: S32) = int n"
  by (simp add: signed_of_nat signed_take_bit_int_eq_self)

lemma Out_strings:
  assumes "off \<le> length buf"
  shows "Out_array Out_string buf off vs =
    map_option (\<lambda>b. (b, off + length (enc_list enc_string vs))) (wr buf off (enc_list enc_string vs))"
  using assms by (simp add: s_string.Out_array_enc wire_simps wr_Nil)

lemma Out_int_strings:
  "Out_int buf off n \<bind> (\<lambda>(b, o'). Out_array Out_string b o' vs) =
     map_option (\<lambda>b. (b, off + length (be_bytes n @ enc_list enc_string vs)))
       (wr buf off (be_bytes n @ enc_list enc_string vs))"
proof -
  have "Out_int buf off n \<bind> (\<lambda>(b, o'). Out_array Out_string b o' vs) =
      Out_int buf off n \<bind> (\<lambda>(b, o'). map_option (\<lambda>b. (b, o' + length (enc_list enc_string vs)))
        (wr b o' (enc_list enc_string vs)))"
  proof (cases "Out_int buf off n")
    case (Some p)
    then obtain b o' where p: "Out_int buf off n = Some (b, o')" by (cases p) auto
    have w: "wr buf off (be_bytes n) = Some b" "o' = off + 4" using s_int.outp_SomeD [OF p] by simp_all
    then have "off + 4 \<le> length buf" using wr_defined_iff [of buf off "be_bytes n"] by auto
    then have "o' \<le> length b" using length_wr [OF w(1)] w(2) by simp
    then show ?thesis using Out_strings by (simp add: p)
  qed simp
  then show ?thesis by (simp only: s_int.outp_then)
qed

lemma StringBucket_Out_enc:
  "StringBucket_SerializeOut buf off bucket =
     map_option (\<lambda>b. (b, off + length (enc_bucket bucket))) (wr buf off (enc_bucket bucket))"
  unfolding StringBucket_SerializeOut_def enc_bucket_def by (rule Out_int_strings)

lemma StringBucket_In_enc:
  assumes ok: "bucket_ok bucket" and h: "holds_at buf off (enc_bucket bucket)"
  shows "StringBucket_SerializeIn buf off old = Some (old @ bucket, off + length (enc_bucket bucket))"
proof -
  have "In_int buf off = Some (of_nat (length bucket), off + 4)"
    using h s_int.inp_enc [of buf off "of_nat (length bucket)"]
    by (simp add: enc_bucket_def holds_at_append)
  moreover have "In_array In_string (length bucket) buf (off + 4) =
      Some (bucket, off + 4 + length (enc_list enc_string bucket))"
    using h ok by (intro s_string.In_array_enc) (simp_all add: enc_bucket_def holds_at_append bucket_ok_def)
  ultimately show ?thesis
    using ok by (simp add: StringBucket_SerializeIn_def sint_of_nat_small bucket_ok_def enc_bucket_def
        add.assoc)
qed

interpretation s_bucket: serializer enc_bucket "\<lambda>buf off. StringBucket_SerializeIn buf off []"
    StringBucket_SerializeOut bucket_ok
  by unfold_locales (simp_all add: StringBucket_Out_enc StringBucket_In_enc)

section \<open>DynamicDataBucket\<close>

type_synonym data_row = "bytes list"
type_synonym data_bucket = "data_row list"

text \<open>\<^verbatim>\<open>"NULL"\<close>; a cell with this text reads as the empty string.\<close>

definition NULL_text :: bytes where "NULL_text = [78, 85, 76, 76]"

definition DataRow_index :: "data_row \<Rightarrow> nat \<Rightarrow> bytes res" where
  "DataRow_index row pos =
     (if pos < length row then Inr (if row ! pos = NULL_text then [] else row ! pos)
      else Inl OutOfBounds)"

definition DataBucket_SerializeIn :: "bytes \<Rightarrow> nat \<Rightarrow> data_bucket \<Rightarrow> (data_bucket \<times> nat) option" where
  "DataBucket_SerializeIn data off bucket = do {
     (numRows, off) \<leftarrow> In_int data off;
     (numColumns, off) \<leftarrow> In_int data off;
     In_array (In_array In_string (nat (sint numColumns))) (nat (sint numRows)) data off }"

text \<open>The number of columns is that of the first row, which an empty bucket does not have.\<close>

definition DataBucket_SerializeOut :: "bytes \<Rightarrow> nat \<Rightarrow> data_bucket \<Rightarrow> (bytes \<times> nat) res" where
  "DataBucket_SerializeOut data off bucket =
     and_then (from_option OutOfBounds (Out_int data off (of_nat (length bucket)))) (\<lambda>(data, off).
     case bucket of
       [] \<Rightarrow> Inl EndIteratorDeref
     | it # _ \<Rightarrow>
         and_then (from_option OutOfBounds (Out_int data off (of_nat (length it)))) (\<lambda>(data, off).
         from_option OutOfBounds
           (Out_array (\<lambda>data off row. Out_array Out_string data off row) data off bucket)))"

definition DataBucket_assign :: "data_bucket \<Rightarrow> data_bucket \<Rightarrow> data_bucket" where
  "DataBucket_assign bucket copydata = map (\<lambda>listref. vector_copy_loop [] listref) copydata"

definition enc_data :: "data_bucket \<Rightarrow> bytes" where
  "enc_data rows = be_bytes (of_nat (length rows) :: S32) @
     be_bytes (of_nat (length (hd rows)) :: S32) @ enc_list enc_string (concat rows)"

text \<open>Rectangular and not empty.\<close>

definition data_ok :: "data_bucket \<Rightarrow> bool" where
  "data_ok rows \<longleftrightarrow> rows \<noteq> [] \<and> length rows < 2 ^ 31 \<and> length (hd rows) < 2 ^ 31 \<and>
     (\<forall>row\<in>set rows. length row = length (hd rows) \<and> list_all string_ok row)"

lemma data_okD:
  assumes "data_ok rows"
  shows "rows \<noteq> []" "length rows < 2 ^ 31" "length (hd rows) < 2 ^ 31"
    "\<forall>row\<in>set rows. length row = length (hd rows) \<and> list_all string_ok row"
  using assms unfolding data_ok_def by blast+

lemma Out_array_append:
  "Out_array f buf off (xs @ ys) = Out_array f buf off xs \<bind> (\<lambda>(b, o'). Out_array f b o' ys)"
proof (induction xs arbitrary: buf off)
  case (Cons x xs)
  show ?case by (cases "f buf off x") (auto simp: Cons)
qed simp

lemma Out_array_concat:
  "Out_array (\<lambda>d o' row. Out_array f d o' row) buf off rows = Out_array f buf off (concat rows)"
  by (induction rows arbitrary: buf off) (simp_all add: Out_array_append)

lemma In_rows:
  "\<forall>row\<in>set rows. length row = m \<and> list_all string_ok row \<Longrightarrow>
   holds_at buf off (enc_list enc_string (concat rows)) \<Longrightarrow>
   In_array (In_array In_string m) (length rows) buf off =
     Some (rows, off + length (enc_list enc_string (concat rows)))"
proof (induction rows arbitrary: off)
  case Nil
  then show ?case by simp (simp add: wire_simps)
next
  case (Cons row rows)
  have e: "enc_list enc_string (concat (row # rows)) =
      enc_list enc_string row @ enc_list enc_string (concat rows)"
    by (simp add: enc_list_def)
  have h: "holds_at buf off (enc_list enc_string row)"
    "holds_at buf (off + length (enc_list enc_string row)) (enc_list enc_string (concat rows))"
    using Cons.prems(2) unfolding e holds_at_append by simp_all
  have "In_array In_string m buf off = Some (row, off + length (enc_list enc_string row))"
    using s_string.In_array_enc [OF _ h(1)] Cons.prems(1) by auto
  then show ?case using Cons.IH [OF _ h(2)] Cons.prems(1) e by (simp add: add.assoc)
qed

lemma DataBucket_Out_enc:
  assumes "rows \<noteq> []"
  shows "DataBucket_SerializeOut buf off rows = from_option OutOfBounds
    (map_option (\<lambda>b. (b, off + length (enc_data rows))) (wr buf off (enc_data rows)))"
proof -
  let ?n = "of_nat (length rows) :: S32"
  let ?m = "of_nat (length (hd rows)) :: S32"
  let ?rest = "be_bytes ?m @ enc_list enc_string (concat rows)"
  have "DataBucket_SerializeOut buf off rows = from_option OutOfBounds (Out_int buf off ?n \<bind>
      (\<lambda>(d, o'). Out_int d o' ?m \<bind> (\<lambda>(d, o'). Out_array Out_string d o' (concat rows))))"
    using assms
    by (auto simp: DataBucket_SerializeOut_def Out_array_concat from_option_case list.case_eq_if
        split: option.split bind_split)
  also have "\<dots> = from_option OutOfBounds (Out_int buf off ?n \<bind>
      (\<lambda>(d, o'). map_option (\<lambda>b. (b, o' + length ?rest)) (wr d o' ?rest)))"
    by (simp only: Out_int_strings)
  also have "\<dots> = from_option OutOfBounds
      (map_option (\<lambda>b. (b, off + length (enc_data rows))) (wr buf off (enc_data rows)))"
    by (simp only: s_int.outp_then enc_data_def)
  finally show ?thesis .
qed

lemma DataBucket_Out_empty:
  "off + 4 \<le> length buf \<Longrightarrow> DataBucket_SerializeOut buf off [] = Inl EndIteratorDeref"
  using s_int.outp_bounds [of buf off 0] by (cases "Out_int buf off 0") (auto simp: DataBucket_SerializeOut_def)

lemma DataBucket_In_enc:
  assumes ok: "data_ok rows" and h: "holds_at buf off (enc_data rows)"
  shows "DataBucket_SerializeIn buf off old = Some (rows, off + length (enc_data rows))"
proof -
  have hs: "holds_at buf off (be_bytes (of_nat (length rows) :: S32))"
    "holds_at buf (off + 4) (be_bytes (of_nat (length (hd rows)) :: S32))"
    "holds_at buf (off + 4 + 4) (enc_list enc_string (concat rows))"
    using h by (simp_all add: enc_data_def holds_at_append add.assoc)
  have i: "In_int buf off = Some (of_nat (length rows), off + 4)"
    "In_int buf (off + 4) = Some (of_nat (length (hd rows)), off + 4 + 4)"
    using s_int.inp_enc [OF _ hs(1)] s_int.inp_enc [OF _ hs(2)] by simp_all
  have "In_array (In_array In_string (length (hd rows))) (length rows) buf (off + 4 + 4) =
      Some (rows, off + 4 + 4 + length (enc_list enc_string (concat rows)))"
    by (rule In_rows [OF data_okD(4) [OF ok] hs(3)])
  then show ?thesis
    using i data_okD(2,3) [OF ok] by (simp add: DataBucket_SerializeIn_def sint_of_nat_small enc_data_def)
qed

lemma DataBucket_roundtrip:
  assumes ok: "data_ok rows" and out: "DataBucket_SerializeOut buf off rows = Inr (b, off')"
  shows "DataBucket_SerializeIn b off old = Some (rows, off')"
proof -
  have "wr buf off (enc_data rows) = Some b" "off' = off + length (enc_data rows)"
    using out DataBucket_Out_enc [OF data_okD(1) [OF ok], of buf off]
    by (cases "wr buf off (enc_data rows)"; simp)+
  then show ?thesis using DataBucket_In_enc [OF ok wr_holds_at] by blast
qed

lemma DataBucket_assign_copy: "DataBucket_assign bucket copydata = copydata"
  by (simp add: DataBucket_assign_def vector_copy_loop_append)

section \<open>SerializedKeyValueVector\<close>

record 'v key_value_vector =
  dataList :: "(bytes \<times> 'v) list"
  kv_listIndex :: U16
  kv_listCount :: U16

definition new_KeyValueVector :: "'v key_value_vector" where
  "new_KeyValueVector = \<lparr>dataList = [], kv_listIndex = 0, kv_listCount = 0\<rparr>"

definition KeyValue_clear :: "'v key_value_vector \<Rightarrow> 'v key_value_vector" where
  "KeyValue_clear v = v\<lparr>dataList := [], kv_listIndex := 0, kv_listCount := 0\<rparr>"

definition KeyValue_insert :: "bytes \<Rightarrow> 'v \<Rightarrow> 'v key_value_vector \<Rightarrow> 'v key_value_vector" where
  "KeyValue_insert key obj v = v\<lparr>dataList := dataList v @ [(key, obj)]\<rparr>"

definition KeyValue_SetIndexParams :: "U16 \<Rightarrow> U16 \<Rightarrow> 'v key_value_vector \<Rightarrow> 'v key_value_vector" where
  "KeyValue_SetIndexParams firstIndex totalCount v =
     v\<lparr>kv_listIndex := firstIndex, kv_listCount := totalCount\<rparr>"

text \<open>\<^verbatim>\<open>begin() + n\<close> erased from a vector: outside the vector that is undefined.\<close>

definition vector_erase :: "nat \<Rightarrow> 'a list \<Rightarrow> 'a list res" where
  "vector_erase n xs = (if n < length xs then Inr (take n xs @ drop (n + 1) xs) else Inl OutOfBounds)"

text \<open>
  \<^verbatim>\<open>erase(int index)\<close>. In \<^verbatim>\<open>index < 0 && index >= dataList.size()\<close> the right side compares
  as \<^verbatim>\<open>size_t\<close>, where a negative index is larger than any size.
\<close>

definition KeyValue_erase :: "int \<Rightarrow> 'v key_value_vector \<Rightarrow> (bool \<times> 'v key_value_vector) res" where
  "KeyValue_erase index v =
     (if index < 0 \<and> index mod 2 ^ 64 \<ge> int (length (dataList v)) then Inr (False, v)
      else and_then (vector_erase (nat index) (dataList v)) (\<lambda>d. Inr (True, v\<lparr>dataList := d\<rparr>)))"

lemma KeyValue_erase_inside:
  "0 \<le> index \<Longrightarrow> nat index < length (dataList v) \<Longrightarrow>
     KeyValue_erase index v =
       Inr (True, v\<lparr>dataList := take (nat index) (dataList v) @ drop (nat index + 1) (dataList v)\<rparr>)"
  by (simp add: KeyValue_erase_def vector_erase_def)

lemma KeyValue_erase_outside:
  "int (length (dataList v)) \<le> index \<Longrightarrow> KeyValue_erase index v = Inl OutOfBounds"
  by (auto simp: KeyValue_erase_def vector_erase_def)

definition KeyValue_erase_at :: "nat \<Rightarrow> 'v key_value_vector \<Rightarrow> (bool \<times> 'v key_value_vector) res" where
  "KeyValue_erase_at iter v =
     and_then (vector_erase iter (dataList v)) (\<lambda>d. Inr (True, v\<lparr>dataList := d\<rparr>))"

definition KeyValue_size :: "'v key_value_vector \<Rightarrow> S32" where
  "KeyValue_size v = of_nat (length (dataList v))"

text \<open>\<^verbatim>\<open>rbegin()\<close> of an empty vector must not be read.\<close>

definition lastValue :: "'v key_value_vector \<Rightarrow> 'v res" where
  "lastValue v = (if dataList v = [] then Inl OutOfBounds else Inr (snd (last (dataList v))))"

definition KeyValue_GetFirstIndex :: "'v key_value_vector \<Rightarrow> U16" where
  "KeyValue_GetFirstIndex v = kv_listIndex v"

definition KeyValue_GetTotalCount :: "'v key_value_vector \<Rightarrow> U16" where
  "KeyValue_GetTotalCount v = kv_listCount v"

text \<open>What was inserted last is the last value, and erasing it undoes the insertion.\<close>

lemma lastValue_insert: "lastValue (KeyValue_insert key obj v) = Inr obj"
  by (simp add: lastValue_def KeyValue_insert_def)

lemma KeyValue_erase_insert:
  "KeyValue_erase_at (length (dataList v)) (KeyValue_insert key obj v) = Inr (True, v)"
  by (simp add: KeyValue_erase_at_def KeyValue_insert_def vector_erase_def)

text \<open>Erasing by index and through an iterator agree on the indices inside, which are the sound ones.\<close>

lemma KeyValue_erase_iter:
  assumes "0 \<le> index" shows "KeyValue_erase index v = KeyValue_erase_at (nat index) v"
  using assms by (simp add: KeyValue_erase_def KeyValue_erase_at_def)

lemma KeyValue_erase_size:
  assumes "KeyValue_erase_at iter v = Inr (found, v')"
  shows "KeyValue_size v = KeyValue_size v' + 1 \<and> KeyValue_GetTotalCount v' = KeyValue_GetTotalCount v"
proof -
  have "iter < length (dataList v)"
    and v': "v' = v\<lparr>dataList := take iter (dataList v) @ drop (iter + 1) (dataList v)\<rparr>"
    using assms by (auto simp: KeyValue_erase_at_def vector_erase_def split: if_splits)
  then have "length (dataList v) = Suc (length (dataList v'))" by simp
  then show ?thesis by (simp add: KeyValue_size_def KeyValue_GetTotalCount_def v')
qed

section \<open>SerializedVector\<close>

record 'a serialized_vector =
  m_data :: "'a list"
  sv_listIndex :: U16
  sv_listCount :: U16

definition new_SerializedVector :: "'a serialized_vector" where
  "new_SerializedVector = \<lparr>m_data = [], sv_listIndex = 0, sv_listCount = 0\<rparr>"

definition Vector_push_back :: "'a \<Rightarrow> 'a serialized_vector \<Rightarrow> 'a serialized_vector" where
  "Vector_push_back value v = v\<lparr>m_data := m_data v @ [value]\<rparr>"

definition Vector_clear :: "'a serialized_vector \<Rightarrow> 'a serialized_vector" where
  "Vector_clear v = v\<lparr>m_data := [], sv_listIndex := 0, sv_listCount := 0\<rparr>"

definition Vector_index :: "'a serialized_vector \<Rightarrow> int \<Rightarrow> 'a res" where
  "Vector_index v index =
     (if 0 \<le> index \<and> nat index < length (m_data v) then Inr (m_data v ! nat index)
      else Inl OutOfBounds)"

definition Vector_remove :: "U32 \<Rightarrow> 'a serialized_vector \<Rightarrow> (bool \<times> 'a serialized_vector) res" where
  "Vector_remove index v =
     (if unat index \<ge> length (m_data v) then Inr (False, v)
      else and_then (vector_erase (unat index) (m_data v)) (\<lambda>d. Inr (True, v\<lparr>m_data := d\<rparr>)))"

definition Vector_copy :: "'a list \<Rightarrow> 'a serialized_vector \<Rightarrow> 'a serialized_vector" where
  "Vector_copy values v = v\<lparr>m_data := vector_copy (m_data v) values\<rparr>"

definition Vector_SetIndexParams :: "U16 \<Rightarrow> U16 \<Rightarrow> 'a serialized_vector \<Rightarrow> 'a serialized_vector" where
  "Vector_SetIndexParams firstIndex totalCount v =
     v\<lparr>sv_listIndex := firstIndex, sv_listCount := totalCount\<rparr>"

definition Vector_size :: "'a serialized_vector \<Rightarrow> S32" where
  "Vector_size v = of_nat (length (m_data v))"

definition Vector_GetFirstIndex :: "'a serialized_vector \<Rightarrow> U16" where
  "Vector_GetFirstIndex v = sv_listIndex v"

definition Vector_GetTotalCount :: "'a serialized_vector \<Rightarrow> U16" where
  "Vector_GetTotalCount v = sv_listCount v"

text \<open>\<^verbatim>\<open>remove\<close> checks its index properly: it never faults.\<close>

lemma Vector_remove_result:
  "Vector_remove index v =
     (if unat index < length (m_data v)
      then Inr (True, v\<lparr>m_data := take (unat index) (m_data v) @ drop (unat index + 1) (m_data v)\<rparr>)
      else Inr (False, v))"
  by (simp add: Vector_remove_def vector_erase_def)

end
