(* ===== verification/Server_Info.thy ===== *)
theory Server_Info
  imports Main "HOL-Library.Word"
begin

text \<open>
  The tables of \<^verbatim>\<open>UDP01/OldCode/ServerConstants.h/.cpp\<close> and \<^verbatim>\<open>ServerType.h/.cpp\<close>. A name
  table is a list, a lookup the loop over its indices. \<^verbatim>\<open>stricmp\<close> compares without regard
  to the case of ASCII letters.
\<close>

section \<open>Product and platform names\<close>

definition productNames :: "string list" where
  "productNames =
     ['''', ''ascension'', ''dominion'', ''thunderstone'', ''wowcmg'', ''summonwar'', ''foodfight'',
      ''nightfall'', ''pennyarcade'', ''infinitecity'', ''agricola'', ''fluxx'', ''smashup'',
      ''tantocuore'', ''waterdeep'', ''twilight_struggle'', ''unsung_story'', ''mber'']"

definition platformStrings :: "string list" where
  "platformStrings =
     ['''', ''ios'', ''android'', ''pc'', ''mac'', ''vita'', ''sony'', ''xbox'', ''blackberry'',
      ''wii'', ''phone'', ''all'']"

definition lower :: "char \<Rightarrow> char" where
  "lower c = (if 65 \<le> (of_char c :: nat) \<and> (of_char c :: nat) \<le> 90
     then char_of ((of_char c :: nat) + 32) else c)"

definition stricmp :: "string \<Rightarrow> string \<Rightarrow> bool" where
  "stricmp s t = (map lower s = map lower t)"

text \<open>The search loop from index \<open>i\<close> on; it returns 0 when nothing matches.\<close>

fun find_name :: "string \<Rightarrow> nat \<Rightarrow> string list \<Rightarrow> nat" where
  "find_name value i [] = 0"
| "find_name value i (name # names) =
     (if stricmp value name then i else find_name value (i + 1) names)"

definition FindProductId :: "string \<Rightarrow> nat" where
  "FindProductId value = find_name value 0 productNames"

definition FindPlatformId :: "string \<Rightarrow> nat" where
  "FindPlatformId value = find_name value 0 platformStrings"

definition GetIndexOfPlatformAll :: nat where
  "GetIndexOfPlatformAll = find_name ''all'' 0 platformStrings"

definition GetIndexOfPlatformMber :: nat where
  "GetIndexOfPlatformMber = find_name ''mber'' 0 productNames"

definition FindProductName :: "int \<Rightarrow> string option" where
  "FindProductName productId =
     (let numItems = int (length productNames)
      in if productId < 0 \<or> productId \<ge> numItems then None
         else Some (productNames ! nat productId))"

definition FindPlatformName :: "int \<Rightarrow> string option" where
  "FindPlatformName platformId =
     (let numItems = int (length platformStrings)
      in if platformId < 0 \<or> platformId \<ge> numItems then None
         else Some (platformStrings ! nat platformId))"

datatype GameProductId =
    ASCENSION | DOMINION | THUNDERSTONE | WOWCMG | SUMMONWAR | FOODFIGHT | NIGHTFALL | PENNYARCADE
  | INFINITECITY | AGRICOLA | FLUXX | SMASHUP | TANTOCUORE | WATERDEEP | MONKEYS_FROM_MARS
  | TWILIGHT_STUGGLE | UNSUNG_STORY | NUM_GAMES

text \<open>The enumerators in order; the first has the value 1.\<close>

definition all_products :: "GameProductId list" where
  "all_products = [ASCENSION, DOMINION, THUNDERSTONE, WOWCMG, SUMMONWAR, FOODFIGHT, NIGHTFALL,
     PENNYARCADE, INFINITECITY, AGRICOLA, FLUXX, SMASHUP, TANTOCUORE, WATERDEEP, MONKEYS_FROM_MARS,
     TWILIGHT_STUGGLE, UNSUNG_STORY, NUM_GAMES]"

definition product_value :: "GameProductId \<Rightarrow> nat" where
  "product_value g = length (takeWhile (\<lambda>h. h \<noteq> g) all_products) + 1"

section \<open>Server types\<close>

datatype ServerType =
    ServerType_Gateway | ServerType_GameInstance | ServerType_Account | ServerType_Database
  | ServerType_Log | ServerType_Login | ServerType_Process | ServerType_Tournament
  | ServerType_General | ServerType_Chat | ServerType_Controller | ServerType_Asset
  | ServerType_Contact | ServerType_Purchase | ServerType_LoadBalancer | ServerType_Analytics
  | ServerType_Test | ServerType_Starter | ServerType_Notification | ServerType_UserStats
  | ServerType_Count | ServerType_All

fun GetServerTypeName :: "ServerType \<Rightarrow> string" where
  "GetServerTypeName ServerType_Gateway = ''Gateway''"
| "GetServerTypeName ServerType_GameInstance = ''Game''"
| "GetServerTypeName ServerType_Account = ''Account''"
| "GetServerTypeName ServerType_Database = ''DB''"
| "GetServerTypeName ServerType_Log = ''Logging''"
| "GetServerTypeName ServerType_Login = ''Login''"
| "GetServerTypeName ServerType_Process = ''Process''"
| "GetServerTypeName ServerType_Tournament = ''Tournament''"
| "GetServerTypeName ServerType_General = ''General''"
| "GetServerTypeName ServerType_Chat = ''Chat''"
| "GetServerTypeName ServerType_Controller = ''Controller''"
| "GetServerTypeName ServerType_Asset = ''Asset''"
| "GetServerTypeName ServerType_Contact = ''Contact''"
| "GetServerTypeName ServerType_Purchase = ''Purchase''"
| "GetServerTypeName ServerType_LoadBalancer = ''Load balancer''"
| "GetServerTypeName ServerType_Analytics = ''Analytics''"
| "GetServerTypeName ServerType_Test = ''Test''"
| "GetServerTypeName ServerType_Starter = ''starter''"
| "GetServerTypeName ServerType_Notification = ''Notification''"
| "GetServerTypeName ServerType_UserStats = ''UserStats''"
| "GetServerTypeName ServerType_Count = ''Number of server... this is an error''"
| "GetServerTypeName ServerType_All = ''bug: bad reference value''"

definition IsGatewayServerType :: "ServerType \<Rightarrow> bool" where
  "IsGatewayServerType t = (t = ServerType_Gateway \<or> t = ServerType_LoadBalancer)"

definition IsCoreServerType :: "ServerType \<Rightarrow> bool" where
  "IsCoreServerType t = (t = ServerType_Asset \<or> t = ServerType_Login \<or> t = ServerType_Chat \<or>
     t = ServerType_Contact \<or> t = ServerType_Purchase \<or> t = ServerType_Notification \<or>
     t = ServerType_UserStats)"

definition IsLoginServerType :: "ServerType \<Rightarrow> bool" where
  "IsLoginServerType t = (t = ServerType_Login)"

definition IsGameServerType :: "ServerType \<Rightarrow> bool" where
  "IsGameServerType t = (t = ServerType_GameInstance)"

section \<open>Lookups\<close>

lemma find_name_first:
  "k < length names \<Longrightarrow> stricmp value (names ! k) \<Longrightarrow> (\<forall>j<k. \<not> stricmp value (names ! j)) \<Longrightarrow>
     find_name value i names = i + k"
proof (induction names arbitrary: i k)
  case (Cons name names)
  show ?case
  proof (cases k)
    case 0
    then show ?thesis using Cons.prems by simp
  next
    case (Suc k')
    have "\<not> stricmp value name" using Cons.prems(3) Suc by (metis nth_Cons_0 zero_less_Suc)
    moreover have "\<forall>j<k'. \<not> stricmp value (names ! j)"
      using Cons.prems(3) Suc by (metis Suc_less_eq nth_Cons_Suc)
    ultimately show ?thesis using Cons.IH [of k' "i + 1"] Cons.prems(1,2) Suc by simp
  qed
qed simp

lemma stricmp_refl: "stricmp s s"
  by (simp add: stricmp_def)

text \<open>The names of a table are pairwise different, so a name leads back to its index.\<close>

lemma product_names_distinct: "distinct (map (map lower) productNames)"
  by code_simp

lemma platform_names_distinct: "distinct (map (map lower) platformStrings)"
  by code_simp

lemma find_name_inverse:
  assumes "distinct (map (map lower) names)" and "k < length names"
  shows "find_name (names ! k) 0 names = k"
proof -
  have "\<not> stricmp (names ! k) (names ! j)" if "j < k" for j
    using assms that nth_eq_iff_index_eq [OF assms(1), of k j] by (simp add: stricmp_def)
  then show ?thesis using find_name_first [OF assms(2) stricmp_refl, of 0] by simp
qed

lemma FindProduct_inverse: "FindProductName (int k) = Some name \<Longrightarrow> FindProductId name = k"
  using find_name_inverse [OF product_names_distinct, of k]
  by (auto simp: FindProductName_def FindProductId_def Let_def split: if_splits)

lemma FindPlatform_inverse: "FindPlatformName (int k) = Some name \<Longrightarrow> FindPlatformId name = k"
  using find_name_inverse [OF platform_names_distinct, of k]
  by (auto simp: FindPlatformName_def FindPlatformId_def Let_def split: if_splits)

text \<open>
  The table of names misses the game between \<^verbatim>\<open>waterdeep\<close> and \<^verbatim>\<open>twilight_struggle\<close> that the
  enumeration has, so the ids of the games behind it name the next one.
\<close>

lemma product_table_shifted:
  "FindProductName (int (product_value MONKEYS_FROM_MARS)) = Some ''twilight_struggle''"
  "FindProductName (int (product_value TWILIGHT_STUGGLE)) = Some ''unsung_story''"
  "FindProductName (int (product_value UNSUNG_STORY)) = Some ''mber''"
  by code_simp+

end
