(* ===== verification/Utilities.thy ===== *)
theory Utilities
  imports Machine_Words Fixed_Strings
begin

text \<open>
  The helpers of \<^verbatim>\<open>UDP01/OldCode/Utils/Utils.h/.cpp\<close> that compute something: formatting and
  parsing of numbers and dates, string splitting, time windows, the creation of directories
  and the checksum. Texts that are only formatted are HOL strings; the clock and the C
  library's calendar (\<^verbatim>\<open>gmtime\<close>, \<^verbatim>\<open>mktime\<close>) are arguments.
\<close>

section \<open>Decimal numbers\<close>

definition digit :: "nat \<Rightarrow> char" where
  "digit d = char_of (48 + d)"

fun show_nat :: "nat \<Rightarrow> string" where
  "show_nat n = (if n < 10 then [digit n] else show_nat (n div 10) @ [digit (n mod 10)])"

declare show_nat.simps [simp del]

definition show_int :: "int \<Rightarrow> string" where
  "show_int i = (if 0 \<le> i then show_nat (nat i) else CHR ''-'' # show_nat (nat (- i)))"

definition Get0PrefixedValue :: "int \<Rightarrow> string" where
  "Get0PrefixedValue value =
     (if value = 0 then ''00''
      else let ret = (if value < 10 then ''0'' else '''')
           in ret @ show_int value)"

text \<open>\<^verbatim>\<open>StringToU64\<close> on the characters before the zero; \<^verbatim>\<open>*str - '0'\<close> is an \<^verbatim>\<open>int\<close>.\<close>

fun StringToU64_loop :: "U64 \<Rightarrow> bytes \<Rightarrow> U64" where
  "StringToU64_loop u64Result [] = u64Result"
| "StringToU64_loop u64Result (c # str) =
     StringToU64_loop (u64Result * 10 + word_of_int (sint c - 48)) str"

definition StringToU64 :: "bytes \<Rightarrow> U64" where
  "StringToU64 str = StringToU64_loop 0 str"

definition decimal_value :: "nat \<Rightarrow> nat list \<Rightarrow> nat" where
  "decimal_value acc ds = foldl (\<lambda>a d. a * 10 + d) acc ds"

section \<open>Dates\<close>

record tm =
  tm_year :: int
  tm_mon :: int
  tm_mday :: int
  tm_hour :: int
  tm_min :: int
  tm_sec :: int

definition format_tm :: "tm \<Rightarrow> string" where
  "format_tm now =
     show_int (tm_year now + 1900) @ ''-'' @ Get0PrefixedValue (tm_mon now + 1) @ ''-'' @
     Get0PrefixedValue (tm_mday now) @ '' '' @ Get0PrefixedValue (tm_hour now) @ '':'' @
     Get0PrefixedValue (tm_min now) @ '':'' @ Get0PrefixedValue (tm_sec now)"

definition GetDateInUTC_at :: "(int \<Rightarrow> tm) \<Rightarrow> int \<Rightarrow> string" where
  "GetDateInUTC_at gmtime t = format_tm (gmtime t)"

definition GetDateInUTC ::
  "(int \<Rightarrow> tm) \<Rightarrow> (tm \<Rightarrow> int) \<Rightarrow> int \<Rightarrow> int \<Rightarrow> int \<Rightarrow> int \<Rightarrow> string" where
  "GetDateInUTC gmtime mktime rawtime diffDays diffHours diffMinutes =
     (let now = gmtime rawtime;
          now = (if diffDays \<noteq> 0 \<or> diffHours \<noteq> 0 \<or> diffMinutes \<noteq> 0
                 then gmtime (mktime (now\<lparr>tm_mday := tm_mday now + diffDays,
                        tm_hour := tm_hour now + diffHours, tm_min := tm_min now + diffMinutes\<rparr>))
                 else now)
      in format_tm now)"

definition ZeroOutMinutes :: "(int \<Rightarrow> tm) \<Rightarrow> (tm \<Rightarrow> int) \<Rightarrow> int \<Rightarrow> int" where
  "ZeroOutMinutes gmtime mktime currentTime =
     mktime ((gmtime currentTime)\<lparr>tm_min := 0, tm_sec := 0\<rparr>)"

definition ZeroOutHours :: "(int \<Rightarrow> tm) \<Rightarrow> (tm \<Rightarrow> int) \<Rightarrow> int \<Rightarrow> int" where
  "ZeroOutHours gmtime mktime currentTime =
     mktime ((gmtime currentTime)\<lparr>tm_hour := 0, tm_min := 0, tm_sec := 0\<rparr>)"

text \<open>
  \<^verbatim>\<open>sscanf\<close> with \<^verbatim>\<open>%d-%d-%d %d:%d:%d\<close>. A \<^verbatim>\<open>%d\<close> skips blanks, takes a sign and digits, and
  fails without a digit; a blank in the format skips blanks; another character must be
  there. The result is the values read before the first failure.
\<close>

definition is_digit :: "char \<Rightarrow> bool" where
  "is_digit c = (48 \<le> (of_char c :: nat) \<and> (of_char c :: nat) \<le> 57)"

definition digits_value :: "string \<Rightarrow> nat" where
  "digits_value ds = decimal_value 0 (map (\<lambda>c. of_char c - 48) ds)"

definition skip_blanks :: "string \<Rightarrow> string" where
  "skip_blanks s = dropWhile (\<lambda>c. c = CHR '' '') s"

definition scan_int :: "string \<Rightarrow> (int \<times> string) option" where
  "scan_int s =
     (let s = skip_blanks s;
          neg = (s \<noteq> [] \<and> hd s = CHR ''-'');
          s = (if s \<noteq> [] \<and> (hd s = CHR ''-'' \<or> hd s = CHR ''+'') then tl s else s);
          ds = takeWhile is_digit s
      in if ds = [] then None
         else Some (if neg then - int (digits_value ds) else int (digits_value ds),
                    dropWhile is_digit s))"

datatype format_item = Percent_d | Blank | Literal char

fun sscanf :: "format_item list \<Rightarrow> string \<Rightarrow> int list" where
  "sscanf [] s = []"
| "sscanf (Percent_d # fmt) s =
     (case scan_int s of None \<Rightarrow> [] | Some (v, s) \<Rightarrow> v # sscanf fmt s)"
| "sscanf (Blank # fmt) s = sscanf fmt (skip_blanks s)"
| "sscanf (Literal c # fmt) s =
     (case s of [] \<Rightarrow> [] | d # s \<Rightarrow> if d = c then sscanf fmt s else [])"

definition date_format :: "format_item list" where
  "date_format = [Percent_d, Literal CHR ''-'', Percent_d, Literal CHR ''-'', Percent_d, Blank,
     Percent_d, Literal CHR '':'', Percent_d, Literal CHR '':'', Percent_d]"

text \<open>The fields that were not read keep the values of the current time.\<close>

definition scan_date :: "tm \<Rightarrow> string \<Rightarrow> tm" where
  "scan_date nowtm UTCFormatted =
     (let vs = sscanf date_format UTCFormatted;
          field = (\<lambda>i old. if i < length vs then vs ! i else old)
      in \<lparr>tm_year = field 0 (tm_year nowtm), tm_mon = field 1 (tm_mon nowtm),
          tm_mday = field 2 (tm_mday nowtm), tm_hour = field 3 (tm_hour nowtm),
          tm_min = field 4 (tm_min nowtm), tm_sec = field 5 (tm_sec nowtm)\<rparr>)"

definition GetDateFromString :: "(int \<Rightarrow> tm) \<Rightarrow> (tm \<Rightarrow> int) \<Rightarrow> int \<Rightarrow> string \<Rightarrow> U64" where
  "GetDateFromString gmtime mktime now UTCFormatted =
     (let nowtm = scan_date (gmtime now) UTCFormatted
      in word_of_int (mktime (nowtm\<lparr>tm_year := tm_year nowtm - 1900, tm_mon := tm_mon nowtm - 1\<rparr>)))"

definition GetDiffTimeFromRightNow :: "(int \<Rightarrow> tm) \<Rightarrow> (tm \<Rightarrow> int) \<Rightarrow> int \<Rightarrow> string \<Rightarrow> int" where
  "GetDiffTimeFromRightNow gmtime mktime now UTCFormatted =
     now - sint (GetDateFromString gmtime mktime now UTCFormatted)"

section \<open>Time windows\<close>

definition HasTimeWindowExpired :: "int \<Rightarrow> int \<Rightarrow> int \<Rightarrow> bool" where
  "HasTimeWindowExpired currentTime windowBegin numSecondsForWindow =
     (let secondsElapsed = currentTime - windowBegin
      in if numSecondsForWindow < secondsElapsed then True else False)"

definition InCurrentTimeWindow :: "int \<Rightarrow> int \<Rightarrow> int \<Rightarrow> bool" where
  "InCurrentTimeWindow currentTime windowBegin numSecondsForWindow =
     (let secondsElapsed = currentTime - windowBegin
      in if numSecondsForWindow \<ge> secondsElapsed then False else True)"

section \<open>Texts\<close>

definition CreatePrintablePair :: "string \<Rightarrow> string \<Rightarrow> string" where
  "CreatePrintablePair key value =
     (let text = '' { ''; text = text @ key; text = text @ '', ''; text = text @ value
      in text @ '' } '')"

text \<open>\<^verbatim>\<open>find_first_of\<close>: the first position whose character is one of the delimiters.\<close>

fun find_first_of :: "string \<Rightarrow> string \<Rightarrow> nat option" where
  "find_first_of [] delimiter = None"
| "find_first_of (c # text) delimiter =
     (if c \<in> set delimiter then Some 0 else map_option Suc (find_first_of text delimiter))"

definition splitOnFirstFound :: "string list \<Rightarrow> string \<Rightarrow> string \<Rightarrow> bool \<times> string list" where
  "splitOnFirstFound listOfStuff text delimiter =
     (case find_first_of text delimiter of
        Some position \<Rightarrow> (True, listOfStuff @ [take position text, drop (position + 1) text])
      | None \<Rightarrow> (False, listOfStuff @ [text]))"

text \<open>\<^verbatim>\<open>OpenAndLoadFile\<close>: the file's content up to its first zero byte.\<close>

definition OpenAndLoadFile :: "bytes option \<Rightarrow> bytes" where
  "OpenAndLoadFile file = (case file of None \<Rightarrow> [] | Some content \<Rightarrow> cstr (content @ [0]))"

section \<open>Directories\<close>

text \<open>
  \<^verbatim>\<open>CreateSubDirectory\<close>, with the paths it passes to \<^verbatim>\<open>mkdir\<close>: \<open>mkdir\<close> says whether the call
  fails with another error than "exists". Every call gets the whole path; the prefix
  \<^verbatim>\<open>dir\<close> that the loop computes is only tested for being empty.
\<close>

fun mkdir_loop :: "(string \<Rightarrow> bool) \<Rightarrow> string \<Rightarrow> nat \<Rightarrow> string \<Rightarrow> bool \<times> string list" where
  "mkdir_loop mkdir dir_path pre [] = (False, [])"
| "mkdir_loop mkdir dir_path pre (c # rest) =
     (if c = CHR ''/'' then
        let dir = take pre dir_path
        in if length dir = 0 then mkdir_loop mkdir dir_path (pre + 1) rest
           else if mkdir dir_path then (True, [dir_path])
           else let (r, calls) = mkdir_loop mkdir dir_path (pre + 1) rest
                in (r, dir_path # calls)
      else mkdir_loop mkdir dir_path (pre + 1) rest)"

definition CreateSubDirectory :: "(string \<Rightarrow> bool) \<Rightarrow> string \<Rightarrow> (bool \<times> string list) res" where
  "CreateSubDirectory mkdir dir_path =
     (if dir_path = [] then Inl OutOfBounds
      else let dir_path = (if last dir_path \<noteq> CHR ''/'' then dir_path @ ''/'' else dir_path)
           in Inr (mkdir_loop mkdir dir_path 0 dir_path))"

section \<open>Checksum\<close>

fun checksum_loop :: "bytes \<Rightarrow> nat \<Rightarrow> nat \<Rightarrow> U16 \<Rightarrow> U16 option" where
  "checksum_loop fileData index 0 checksum = Some checksum"
| "checksum_loop fileData index (Suc n) checksum = do {
     v \<leftarrow> load_native fileData (2 * index);
     checksum_loop fileData (index + 1) n (checksum + htons v) }"

definition CalculateChecksum :: "bytes \<Rightarrow> nat \<Rightarrow> U16 option" where
  "CalculateChecksum fileData fileSize = do {
     let halfway = fileSize div 2;
     let extraByte = fileSize mod 1;
     checksum \<leftarrow> checksum_loop fileData 0 halfway 0;
     if extraByte \<noteq> 0
     then do {
       b \<leftarrow> rd fileData (fileSize - 1) 1;
       Some (checksum + htons (ucast (hd b))) }
     else Some checksum }"

section \<open>What they compute\<close>

lemma digit_code: "d < 10 \<Longrightarrow> (of_char (digit d) :: nat) = 48 + d"
  by (simp add: digit_def)

lemma digit_byte: "d < 10 \<Longrightarrow> (of_char (digit d) :: U8) = of_nat (48 + d)"
  using digit_code [of d] of_nat_of_char [where 'a = "8 word", of "digit d"] by simp

lemma is_digit_digit: "d < 10 \<Longrightarrow> is_digit (digit d)"
  by (simp add: is_digit_def digit_code)

lemma decimal_value_append:
  "decimal_value acc (xs @ ys) = decimal_value (decimal_value acc xs) ys"
  by (simp add: decimal_value_def)

text \<open>A number is printed as its decimal digits.\<close>

lemma show_nat_decimal:
  "\<exists>ds. show_nat n = map digit ds \<and> ds \<noteq> [] \<and> (\<forall>d \<in> set ds. d < 10) \<and> decimal_value 0 ds = n"
proof (induction n rule: show_nat.induct)
  case (1 n)
  show ?case
  proof (cases "n < 10")
    case True
    then show ?thesis by (intro exI [of _ "[n]"]) (simp add: show_nat.simps [of n] decimal_value_def)
  next
    case False
    then obtain ds where ds: "show_nat (n div 10) = map digit ds" "ds \<noteq> []" "\<forall>d \<in> set ds. d < 10"
      "decimal_value 0 ds = n div 10" using 1 by blast
    have "decimal_value 0 (ds @ [n mod 10]) = n"
      unfolding decimal_value_append ds(4) by (simp add: decimal_value_def)
    moreover have "show_nat n = map digit (ds @ [n mod 10])"
      using False ds(1) by (simp add: show_nat.simps [of n])
    moreover have "\<forall>d \<in> set (ds @ [n mod 10]). d < 10" using ds(3) by auto
    ultimately show ?thesis by blast
  qed
qed

lemma sint_digit: "d < 10 \<Longrightarrow> sint (of_char (digit d) :: U8) - 48 = int d"
proof -
  assume d: "d < 10"
  then have "d \<in> {0, 1, 2, 3, 4, 5, 6, 7, 8, 9}" by auto
  then show ?thesis unfolding digit_byte [OF d] by auto
qed

lemma StringToU64_loop_digits:
  "\<forall>d \<in> set ds. d < 10 \<Longrightarrow>
     StringToU64_loop (of_nat a) (map (of_char \<circ> digit) ds) = of_nat (decimal_value a ds)"
proof (induction ds arbitrary: a)
  case Nil
  then show ?case by (simp add: decimal_value_def)
next
  case (Cons d ds)
  have "StringToU64_loop (of_nat a) (map (of_char \<circ> digit) (d # ds)) =
      StringToU64_loop (of_nat a * 10 + word_of_int (int d)) (map (of_char \<circ> digit) ds)"
    using Cons.prems by (simp only: list.map comp_apply StringToU64_loop.simps sint_digit list.set_intros)
  also have "(of_nat a * 10 + word_of_int (int d) :: U64) = of_nat (a * 10 + d)" by simp
  also have "StringToU64_loop (of_nat (a * 10 + d)) (map (of_char \<circ> digit) ds) =
      of_nat (decimal_value (a * 10 + d) ds)"
    using Cons.prems by (intro Cons.IH) simp
  finally show ?case by (simp only: decimal_value_def foldl.simps)
qed

lemma StringToU64_show_nat: "StringToU64 (map of_char (show_nat n)) = of_nat n"
proof -
  obtain ds where "show_nat n = map digit ds" "\<forall>d \<in> set ds. d < 10" "decimal_value 0 ds = n"
    using show_nat_decimal by blast
  then show ?thesis using StringToU64_loop_digits [of ds 0] by (simp add: StringToU64_def)
qed

lemma scan_show_nat:
  assumes "rest = [] \<or> \<not> is_digit (hd rest)"
  shows "takeWhile is_digit (show_nat n @ rest) = show_nat n"
    and "dropWhile is_digit (show_nat n @ rest) = rest"
    and "digits_value (show_nat n) = n"
    and "show_nat n \<noteq> []"
    and "is_digit (hd (show_nat n))"
proof -
  obtain ds where ds: "show_nat n = map digit ds" "ds \<noteq> []" "\<forall>d \<in> set ds. d < 10" "decimal_value 0 ds = n"
    using show_nat_decimal by blast
  have all: "\<forall>c \<in> set (show_nat n). is_digit c" using ds(1,3) by (auto intro: is_digit_digit)
  have r: "takeWhile is_digit rest = []" "dropWhile is_digit rest = rest"
    using assms by (cases rest, auto)+
  show "takeWhile is_digit (show_nat n @ rest) = show_nat n"
    using all r by (subst takeWhile_append2) auto
  show "dropWhile is_digit (show_nat n @ rest) = rest"
    using all r by (subst dropWhile_append2) auto
  have "map (\<lambda>c. of_char c - 48) (map digit ds) = (ds :: nat list)"
    using ds(3) by (auto simp: digit_code intro!: map_idI)
  then show "digits_value (show_nat n) = n" unfolding digits_value_def ds(1) by (simp only: ds(4))
  show "show_nat n \<noteq> []" using ds(1,2) by simp
  then show "is_digit (hd (show_nat n))" using all by (auto intro: hd_in_set)
qed

lemma is_digit_marks [simp]:
  "\<not> is_digit CHR '' ''" "\<not> is_digit CHR ''-''" "\<not> is_digit CHR ''+''" "\<not> is_digit CHR '':''"
  by (simp_all add: is_digit_def)

lemma skip_blanks_digit [simp]: "s \<noteq> [] \<Longrightarrow> is_digit (hd s) \<Longrightarrow> skip_blanks s = s"
  by (cases s) (auto simp: skip_blanks_def)

lemma scan_digits:
  assumes "rest = [] \<or> \<not> is_digit (hd rest)"
  shows "scan_int (show_nat n @ rest) = Some (int n, rest)"
proof -
  note s = scan_show_nat [OF assms, of n]
  have h: "hd (show_nat n @ rest) \<noteq> CHR ''-''" "hd (show_nat n @ rest) \<noteq> CHR ''+''"
    using s(4,5) by (auto simp: is_digit_def)
  have "skip_blanks (show_nat n @ rest) = show_nat n @ rest"
    using s(4,5) by simp
  then show ?thesis using s h by (simp add: scan_int_def Let_def)
qed

lemma scan_show_int:
  assumes "rest = [] \<or> \<not> is_digit (hd rest)"
  shows "scan_int (show_int i @ rest) = Some (i, rest)"
proof (cases "0 \<le> i")
  case True
  then show ?thesis using scan_digits [OF assms] by (simp add: show_int_def)
next
  case False
  then show ?thesis using scan_show_nat [OF assms, of "nat (- i)"]
    by (simp add: show_int_def scan_int_def Let_def skip_blanks_def)
qed

lemma scan_Get0PrefixedValue:
  assumes r: "rest = [] \<or> \<not> is_digit (hd rest)" and v: "0 \<le> v"
  shows "scan_int (Get0PrefixedValue v @ rest) = Some (v, rest)"
proof -
  have z: "scan_int (CHR ''0'' # show_nat n @ rest) = Some (int n, rest)" for n
    using scan_show_nat [OF r, of n]
    by (simp add: scan_int_def Let_def skip_blanks_def is_digit_def digits_value_def decimal_value_def)
  show ?thesis
  proof (cases "v = 0")
    case True
    moreover have "digit 0 = CHR ''0''" by (rule of_char_eqI [where 'a = nat]) (simp add: digit_code)
    ultimately show ?thesis using z [of 0] by (simp add: Get0PrefixedValue_def show_nat.simps [of 0])
  next
    case False
    then show ?thesis using z [of "nat v"] scan_show_int [OF r, of v] v
      by (simp add: Get0PrefixedValue_def show_int_def)
  qed
qed

text \<open>
  A printed date is read back field by field; the year and the month come out as they are
  printed, 1900 and 1 larger than in the structure.
\<close>

definition tm_ok :: "tm \<Rightarrow> bool" where
  "tm_ok t = (-1 \<le> tm_mon t \<and> 0 \<le> tm_mday t \<and> 0 \<le> tm_hour t \<and> 0 \<le> tm_min t \<and> 0 \<le> tm_sec t)"

lemma sscanf_format_tm:
  assumes "tm_ok t"
  shows "sscanf date_format (format_tm t) =
    [tm_year t + 1900, tm_mon t + 1, tm_mday t, tm_hour t, tm_min t, tm_sec t]"
proof -
  have b: "skip_blanks (CHR '' '' # Get0PrefixedValue v @ rest) = Get0PrefixedValue v @ rest" if "0 \<le> v" for v rest
  proof -
    have "is_digit (hd (show_nat (nat v)))" "show_nat (nat v) \<noteq> []"
      using scan_show_nat [of "[]" "nat v"] by auto
    then show ?thesis using that
      by (cases "show_nat (nat v)")
        (auto simp: Get0PrefixedValue_def skip_blanks_def show_int_def)
  qed
  have last: "scan_int (Get0PrefixedValue v) = Some (v, [])" if "0 \<le> v" for v
    using scan_Get0PrefixedValue [of "[]" v] that by simp
  show ?thesis using assms
    by (simp add: date_format_def format_tm_def tm_ok_def scan_show_int scan_Get0PrefixedValue last b)
qed

lemma scan_format_tm:
  assumes "tm_ok t"
  shows "scan_date nowtm (format_tm t) = t\<lparr>tm_year := tm_year t + 1900, tm_mon := tm_mon t + 1\<rparr>"
  by (simp add: scan_date_def sscanf_format_tm [OF assms] Let_def)

lemma GetDateFromString_GetDateInUTC:
  assumes "tm_ok (gmtime t)"
  shows "GetDateFromString gmtime mktime now (GetDateInUTC_at gmtime t) = word_of_int (mktime (gmtime t))"
  by (simp add: GetDateFromString_def GetDateInUTC_at_def scan_format_tm [OF assms])

section \<open>Clock, console and files\<close>

text \<open>
  \<^verbatim>\<open>GetCurrentMilliseconds\<close>. On Windows the clock counts ticks of 100 ns and the quotient of
  the two durations is an integer; on other platforms \<open>rv\<close>, \<open>tv_sec\<close> and \<open>tv_usec\<close> are what
  \<^verbatim>\<open>gettimeofday\<close> gives, and the sum is cast to 32 bits.
\<close>

definition GetCurrentMilliseconds :: "nat \<Rightarrow> U64" where
  "GetCurrentMilliseconds ticks = of_nat (ticks div 10000)"

definition GetCurrentMilliseconds_posix :: "int \<Rightarrow> U64 \<Rightarrow> U64 \<Rightarrow> U64" where
  "GetCurrentMilliseconds_posix rv tv_sec tv_usec =
     (if rv \<noteq> 0 then word_of_int rv
      else ucast (ucast (tv_sec * 1000 + tv_usec div 1000) :: U32))"

text \<open>\<^verbatim>\<open>strftime\<close> with \<^verbatim>\<open>%Y-%m-%d %H:%M:%S\<close>, and \<^verbatim>\<open>PrintCurrentTime\<close>'s line on the console.\<close>

definition pad2 :: "int \<Rightarrow> string" where
  "pad2 v = [digit (nat v div 10 mod 10), digit (nat v mod 10)]"

definition strftime :: "tm \<Rightarrow> string" where
  "strftime t =
     show_int (tm_year t + 1900) @ ''-'' @ pad2 (tm_mon t + 1) @ ''-'' @ pad2 (tm_mday t) @ '' '' @
     pad2 (tm_hour t) @ '':'' @ pad2 (tm_min t) @ '':'' @ pad2 (tm_sec t)"

definition PrintCurrentTime :: "(int \<Rightarrow> tm) \<Rightarrow> int \<Rightarrow> string" where
  "PrintCurrentTime gmtime now = strftime (gmtime now) @ [char_of (10 :: nat)]"

text \<open>\<^verbatim>\<open>stat\<close> gives the modification time of a name that exists.\<close>

definition DoesFileExist :: "(string \<Rightarrow> int option) \<Rightarrow> string \<Rightarrow> bool" where
  "DoesFileExist stat name = (stat (takeWhile (\<lambda>c. c \<noteq> CHR 0x00) name) \<noteq> None)"

definition GetFileModificationTime :: "(string \<Rightarrow> int option) \<Rightarrow> string \<Rightarrow> int" where
  "GetFileModificationTime stat name =
     (case stat (takeWhile (\<lambda>c. c \<noteq> CHR 0x00) name) of Some st_mtime \<Rightarrow> st_mtime | None \<Rightarrow> 0)"

text \<open>
  The two clocks agree for the first \<open>2 ^ 32\<close> milliseconds of the epoch, 49 days; after that the
  one of the other platforms has wrapped.
\<close>

lemma ucast_U32_of_nat: "unat (ucast (of_nat n :: U64) :: U32) = n mod 2 ^ 32"
  by (simp add: unsigned_ucast_eq unat_of_nat take_bit_eq_mod mod_mod_cancel)

lemma posix_milliseconds:
  assumes "sec < 2 ^ 32" and "usec < 1000000"
  shows "unat (GetCurrentMilliseconds_posix 0 (of_nat sec) (of_nat usec)) =
    (sec * 1000 + usec div 1000) mod 2 ^ 32"
proof -
  have d: "(of_nat usec :: U64) div 1000 = of_nat (usec div 1000)"
    using assms(2) by (simp add: word_arith_nat_div unat_of_nat)
  have s: "(of_nat sec :: U64) * 1000 + of_nat (usec div 1000) = of_nat (sec * 1000 + usec div 1000)"
    by simp
  have w: "unat (ucast (w :: U32) :: U64) = unat w" for w
    using unsigned_less [of w, where 'a = nat] by (simp add: unsigned_ucast_eq take_bit_nat_eq_self)
  have "GetCurrentMilliseconds_posix 0 (of_nat sec) (of_nat usec) =
      ucast (ucast (of_nat (sec * 1000 + usec div 1000) :: U64) :: U32)"
    unfolding s [symmetric] by (simp add: GetCurrentMilliseconds_posix_def d)
  then show ?thesis by (simp only: w ucast_U32_of_nat)
qed

lemma windows_milliseconds:
  assumes "sec < 2 ^ 32" and "usec < 1000000"
  shows "unat (GetCurrentMilliseconds (sec * 10000000 + usec * 10)) = sec * 1000 + usec div 1000"
proof -
  have "(sec * 10000000 + usec * 10) div 10000 = sec * 1000 + usec div 1000"
  proof -
    have "(sec * 10000000 + usec * 10) div 10000 = (10 * usec + (sec * 1000) * 10000) div 10000"
      by (simp add: algebra_simps)
    also have "\<dots> = sec * 1000 + (10 * usec) div 10000" by (rule div_mult_self1) simp
    also have "(10 * usec) div 10000 = usec div 1000" using div_mult_mult1 [of 10 usec 1000] by simp
    finally show ?thesis .
  qed
  moreover have "sec * 1000 + usec div 1000 < 2 ^ 64" using assms by simp
  ultimately show ?thesis by (simp add: GetCurrentMilliseconds_def unat_of_nat del: of_nat_add of_nat_mult)
qed

lemma milliseconds_agree:
  assumes "sec < 2 ^ 32" and "usec < 1000000"
  shows "GetCurrentMilliseconds_posix 0 (of_nat sec) (of_nat usec) =
      GetCurrentMilliseconds (sec * 10000000 + usec * 10) \<longleftrightarrow> sec * 1000 + usec div 1000 < 2 ^ 32"
  using posix_milliseconds [OF assms] windows_milliseconds [OF assms]
  by (simp add: word_unat_eq_iff) (metis mod_less mod_less_divisor zero_less_numeral)

text \<open>
  For the fields of a date the console line is the text that \<^verbatim>\<open>GetDateInUTC\<close> builds by hand.
\<close>

lemma pad2_Get0PrefixedValue:
  assumes "0 \<le> v" and "v < 100" shows "pad2 v = Get0PrefixedValue v"
proof -
  have n: "nat v < 100" using assms by simp
  have z: "digit 0 = CHR ''0''" by (rule of_char_eqI [where 'a = nat]) (simp add: digit_code)
  show ?thesis
  proof (cases "v < 10")
    case True
    then show ?thesis using assms z
      by (auto simp: pad2_def Get0PrefixedValue_def show_int_def show_nat.simps [of "nat v"])
  next
    case False
    then have "nat v div 10 < 10" "\<not> nat v < 10" using n by auto
    then show ?thesis using assms False
      by (simp add: pad2_def Get0PrefixedValue_def show_int_def show_nat.simps [of "nat v"]
          show_nat.simps [of "nat v div 10"])
  qed
qed

lemma PrintCurrentTime_GetDateInUTC:
  assumes "0 \<le> tm_mon (gmtime now)" "tm_mon (gmtime now) < 12" "0 \<le> tm_mday (gmtime now)"
    "tm_mday (gmtime now) < 32" "0 \<le> tm_hour (gmtime now)" "tm_hour (gmtime now) < 24"
    "0 \<le> tm_min (gmtime now)" "tm_min (gmtime now) < 60" "0 \<le> tm_sec (gmtime now)"
    "tm_sec (gmtime now) < 62"
  shows "PrintCurrentTime gmtime now = GetDateInUTC_at gmtime now @ [char_of (10 :: nat)]"
  using assms
  by (simp add: PrintCurrentTime_def strftime_def GetDateInUTC_at_def format_tm_def pad2_Get0PrefixedValue)

section \<open>Splitting, directories and the checksum\<close>

lemma find_first_of_None: "find_first_of s delimiter = None \<longleftrightarrow> set s \<inter> set delimiter = {}"
  by (induction s) auto

lemma find_first_of_Some:
  "find_first_of s delimiter = Some p \<Longrightarrow>
     p < length s \<and> s ! p \<in> set delimiter \<and> set (take p s) \<inter> set delimiter = {}"
proof (induction s arbitrary: p)
  case (Cons c s)
  then show ?case by (cases p) (auto split: if_splits)
qed simp

lemma splitOnFirstFound_parts:
  assumes "splitOnFirstFound [] s delimiter = (found, parts)"
  shows "if found
    then \<exists>a d b. parts = [a, b] \<and> s = a @ d # b \<and> d \<in> set delimiter \<and> set a \<inter> set delimiter = {}
    else parts = [s] \<and> set s \<inter> set delimiter = {}"
proof (cases "find_first_of s delimiter")
  case None
  then have "\<not> found" "parts = [s]" using assms by (auto simp: splitOnFirstFound_def)
  then show ?thesis using None by (simp add: find_first_of_None)
next
  case (Some p)
  then have p: "found" "parts = [take p s, drop (p + 1) s]"
    using assms by (auto simp: splitOnFirstFound_def)
  have "s = take p s @ s ! p # drop (p + 1) s"
    using find_first_of_Some [OF Some] id_take_nth_drop by auto
  then show ?thesis using p find_first_of_Some [OF Some] by auto
qed

text \<open>Every call of \<^verbatim>\<open>mkdir\<close> gets the whole path, and one failing call ends the loop.\<close>

lemma mkdir_loop_calls:
  "mkdir_loop mkdir dir_path pre rest = (r, calls) \<Longrightarrow>
     set calls \<subseteq> {dir_path} \<and> (r \<longleftrightarrow> mkdir dir_path \<and> calls \<noteq> []) \<and> (r \<longrightarrow> calls = [dir_path])"
proof (induction rest arbitrary: pre r calls)
  case Nil
  then show ?case by simp
next
  case (Cons c rest)
  obtain r' calls' where m: "mkdir_loop mkdir dir_path (pre + 1) rest = (r', calls')" by fastforce
  show ?case using Cons.prems Cons.IH [OF m] m by (auto simp: Let_def split: if_splits)
qed

text \<open>The checksum adds the big-endian 16-bit words; an odd last byte is left out.\<close>

fun halfword_sum :: "bytes \<Rightarrow> U16" where
  "halfword_sum (a # b # rest) = (ucast a * 256 + ucast b) + halfword_sum rest"
| "halfword_sum _ = 0"

lemma htons_native: "htons (of_le_bytes [a, b]) = (ucast a * 256 + ucast b :: U16)"
proof -
  have "htons (of_le_bytes [a, b]) = of_le_bytes [b, a]"
    using byte_swap_of_le_bytes [where 'a = 16, of "[a, b]"]
    by (simp only: htons_def) simp
  also have "\<dots> = push_bit 8 (ucast a) OR ucast b" by (simp add: or.commute)
  also have "\<dots> = push_bit 8 (ucast a) + ucast b"
    by (rule disjunctive_add_eq_or [symmetric])
      (auto simp: bit_eq_iff bit_simps dest: bit_imp_le_length)
  finally show ?thesis by (simp add: push_bit_eq_mult)
qed

lemma checksum_loop_sum:
  "2 * (index + n) \<le> length fileData \<Longrightarrow>
     checksum_loop fileData index n checksum =
       Some (checksum + halfword_sum (take (2 * n) (drop (2 * index) fileData)))"
proof (induction n arbitrary: index checksum)
  case 0
  then show ?case by simp
next
  case (Suc n)
  have "2 \<le> length (drop (2 * index) fileData)" using Suc.prems by simp
  then obtain a b rest where d: "drop (2 * index) fileData = a # b # rest"
    by (metis One_nat_def Suc_1 Suc_le_length_iff)
  have r: "drop (2 * (index + 1)) fileData = rest"
    using arg_cong [OF d, of "drop 2"] by (simp add: add.commute)
  have rd: "rd fileData (2 * index) 2 = Some [a, b]"
    using d Suc.prems by (simp add: rd_def numeral_2_eq_2)
  have l: "load_native fileData (2 * index) = Some (of_le_bytes [a, b] :: U16)"
    by (simp only: load_native_def) (simp add: rd)
  have "checksum_loop fileData index (Suc n) checksum =
      checksum_loop fileData (index + 1) n (checksum + htons (of_le_bytes [a, b]))"
    by (simp only: checksum_loop.simps l Option.bind.bind_lunit)
  also have "\<dots> = Some (checksum + htons (of_le_bytes [a, b]) + halfword_sum (take (2 * n) rest))"
    using Suc.IH [of "index + 1" "checksum + htons (of_le_bytes [a, b])"] Suc.prems
    by (simp only: r) simp
  finally show ?case unfolding htons_native d by (simp add: add.assoc)
qed

lemma CalculateChecksum_sum:
  assumes "fileSize \<le> length fileData"
  shows "CalculateChecksum fileData fileSize =
    Some (halfword_sum (take (2 * (fileSize div 2)) fileData))"
  using assms by (simp add: CalculateChecksum_def checksum_loop_sum [of 0, simplified])

end
