(* ===== verification/Test_Support.thy ===== *)
theory Test_Support
  imports Packets
begin

text \<open>
  What the unit tests of \<^verbatim>\<open>UnitTest_BasicNetworking/UnitTest_BasicNetworking.cpp\<close> share. A test
  method is a program in the option monad: \<^term>\<open>Some ()\<close> means that it ends and that every
  assertion holds; \<^term>\<open>None\<close> is a failed assertion, a fault or a run that does not end. The
  uninitialised stack array of a test is its argument.

  The lemmas execute such programs symbolically: \<open>put\<close> is a write that is known to fit, adjacent
  writes fuse, and what a buffer holds turns into equations on the reads.
\<close>

section \<open>Assertions\<close>

definition AreEqual :: "'a \<Rightarrow> 'a \<Rightarrow> unit option" where
  "AreEqual expected actual = (if expected = actual then Some () else None)"

definition IsTrue :: "bool \<Rightarrow> unit option" where
  "IsTrue condition = (if condition then Some () else None)"

text \<open>The value of an operation that must not fault.\<close>

definition run :: "'a res \<Rightarrow> 'a option" where
  "run r = (case r of Inl e \<Rightarrow> None | Inr x \<Rightarrow> Some x)"

lemma assertions [simp]:
  "AreEqual x x = Some ()" "IsTrue True = Some ()" "run (Inr y) = Some y" "run (Inl e) = None"
  "IsTrue P = Some () \<longleftrightarrow> P"
  by (simp_all add: AreEqual_def IsTrue_def run_def)

lemma AreEqual_iff: "AreEqual x y = Some () \<longleftrightarrow> x = y"
  by (simp add: AreEqual_def)

lemma AreEqual_eq: "x = y \<Longrightarrow> AreEqual x y = Some ()"
  by (simp add: AreEqual_def)

lemma IsTrue_holds: "P \<Longrightarrow> IsTrue P = Some ()"
  by (simp add: IsTrue_def)

text \<open>Range-based loops: over values, and over references to the elements.\<close>

fun for_each :: "('a \<Rightarrow> unit option) \<Rightarrow> 'a list \<Rightarrow> unit option" where
  "for_each body [] = Some ()"
| "for_each body (i # rest) = do { body i; for_each body rest }"

fun for_update :: "('a \<Rightarrow> 'a option) \<Rightarrow> 'a list \<Rightarrow> 'a list option" where
  "for_update body [] = Some []"
| "for_update body (i # rest) = do { i \<leftarrow> body i; rest \<leftarrow> for_update body rest; Some (i # rest) }"

lemma for_each_Some: "(\<And>x. x \<in> set xs \<Longrightarrow> body x = Some ()) \<Longrightarrow> for_each body xs = Some ()"
  by (induction xs) simp_all

lemma for_update_replicate: "body x = Some y \<Longrightarrow> for_update body (replicate n x) = Some (replicate n y)"
  by (induction n) simp_all

section \<open>Writes that fit\<close>

definition put :: "bytes \<Rightarrow> nat \<Rightarrow> bytes \<Rightarrow> bytes" where
  "put buf off bs = take off buf @ bs @ drop (off + length bs) buf"

named_theorems exec_simps \<open>symbolic execution of serializers\<close>

lemma length_put [exec_simps]:
  "off + length bs \<le> length buf \<Longrightarrow> length (put buf off bs) = length buf"
  by (simp add: put_def)

lemma wr_put: "off + length bs \<le> length buf \<Longrightarrow> wr buf off bs = Some (put buf off bs)"
  by (simp add: wr_def put_def)

lemma put_put [exec_simps]:
  "off' = off + length as \<Longrightarrow> off' \<le> length buf \<Longrightarrow>
     put (put buf off as) off' bs = put buf off (as @ bs)"
  by (simp add: put_def ac_simps)

lemma put_nth [exec_simps]:
  "off \<le> i \<Longrightarrow> i < off + length bs \<Longrightarrow> off + length bs \<le> length buf \<Longrightarrow>
     put buf off bs ! i = bs ! (i - off)"
  by (auto simp: put_def nth_append min_def)

lemma holds_put: "off + length bs \<le> length buf \<Longrightarrow> holds_at (put buf off bs) off bs"
  by (simp add: put_def holds_at_def rd_def)

context serializer
begin

lemma outp_put:
  "off + length (enc v) \<le> length buf \<Longrightarrow>
     outp buf off v = Some (put buf off (enc v), off + length (enc v))"
  by (simp add: outp_enc wr_put)

lemma array_put:
  "vs \<noteq> [] \<Longrightarrow> off + length (enc_list enc vs) \<le> length buf \<Longrightarrow>
     Out_array outp buf off vs = Some (put buf off (enc_list enc vs), off + length (enc_list enc vs))"
  by (simp add: Out_array_enc wr_put)

end

context fixed_serializer
begin

lemma outp_fits:
  "off + width \<le> length buf \<Longrightarrow> outp buf off v = Some (put buf off (enc v), off + width)"
  using outp_put [of off v buf] by (simp add: enc_width)

lemma array_fits:
  assumes "vs \<noteq> []" and "off + length vs * width \<le> length buf"
  shows "Out_array outp buf off vs = Some (put buf off (enc_list enc vs), off + length vs * width)"
proof -
  have "length (enc_list enc vs) = length vs * width"
    by (induction vs) (simp_all add: wire_simps enc_width)
  then show ?thesis using array_put [OF assms(1)] assms(2) by simp
qed

end

lemmas primitive_puts [exec_simps] =
  s_U8.outp_fits s_U16.outp_fits s_U32.outp_fits s_int.outp_fits s_U64.outp_fits s_bool.outp_fits
  s_string.outp_put s_U16.array_fits

lemma length_enc_bool [simp]: "length (enc_bool b) = 1"
  by (simp add: enc_bool_def)

section \<open>What a buffer holds, as equations on reads\<close>

lemma load_native_holds:
  assumes "8 dvd LENGTH('a::len)"
  shows "map_option byte_swap (load_native buf off) = Some (v :: 'a word) \<longleftrightarrow> holds_at buf off (be_bytes v)"
proof (cases "rd buf off (LENGTH('a) div 8)")
  case None
  then show ?thesis by (simp add: load_native_def holds_at_def)
next
  case (Some bs)
  then show ?thesis using of_le_bytes_swap_iff [OF assms, of bs v] length_rd [OF Some]
    by (auto simp: load_native_def holds_at_def)
qed

lemma map_advance: "map_option (\<lambda>x. (f x, n)) r = Some (v, n) \<longleftrightarrow> map_option f r = Some v"
  by (cases r) auto

lemma holds_at_one: "holds_at buf off [v] \<longleftrightarrow> map_option hd (rd buf off 1) = Some v"
  by (cases "rd buf off 1") (auto simp: holds_at_def dest!: length_rd simp: length_Suc_conv)

lemma holds_reads [exec_simps]:
  "holds_at buf off (be_bytes (v16 :: U16)) \<longleftrightarrow> In_U16 buf off = Some (v16, off + 2)"
  "holds_at buf off (be_bytes (v32 :: U32)) \<longleftrightarrow> In_U32 buf off = Some (v32, off + 4)"
  "holds_at buf off (be_bytes (v64 :: U64)) \<longleftrightarrow> In_U64 buf off = Some (v64, off + 8)"
  "holds_at buf off (enc_U8 v8) \<longleftrightarrow> In_U8 buf off = Some (v8, off + 1)"
  by (simp_all add: In_U16_def In_U32_def In_U64_def In_U8_def enc_U8_def swap_defs bind_Some_map
      map_advance holds_at_one flip: load_native_holds)

lemma In_int_U32 [exec_simps]: "In_int source off = In_U32 source off"
  by (simp add: In_int_def In_U32_def)

lemma In_bool_U8 [exec_simps]:
  "In_bool source off = map_option (\<lambda>(b, o'). (b \<noteq> 0, o')) (In_U8 source off)"
  "enc_bool b = enc_U8 (if b then 1 else 0)"
  by (simp_all add: In_bool_def In_U8_def enc_bool_def enc_U8_def bind_Some_map comp_def
      option.map_comp)

lemma holds_string:
  "string_ok s \<Longrightarrow> holds_at buf off (enc_string s) \<Longrightarrow>
     In_string buf off = Some (s, off + length (enc_string s))"
  by (rule s_string.inp_enc)

section \<open>Whole-number positions\<close>

lemma pos_quantum_int: "\<bar>a\<bar> < 4096 \<Longrightarrow> pos_quantum (of_int a) = of_int a"
proof -
  assume a: "\<bar>a\<bar> < 4096"
  have "\<lfloor>\<bar>of_int a\<bar> * 256 :: rat\<rfloor> = \<bar>a\<bar> * 256" by (metis floor_of_int of_int_abs of_int_mult of_int_numeral)
  moreover have "(\<bar>a\<bar> * 256) mod 2 ^ 20 = \<bar>a\<bar> * 256" using a by (intro mod_pos_pos_trivial) simp_all
  ultimately show ?thesis by (simp add: pos_quantum_def Let_def)
qed

lemma Position_Set_int:
  assumes "\<bar>a\<bar> < 4096" "\<bar>b\<bar> < 4096" "\<bar>c\<bar> < 4096"
  shows "\<exists>p. Position_Set this (vec3 (of_int a) (of_int b) (of_int c)) = Some p \<and>
    Position_Get p = vec3 (of_int a) (of_int b) (of_int c)"
proof -
  have fl: "fl32 (of_int i) = (of_int i :: rat)" "\<bar>of_int i\<bar> < (2 ^ 23 :: rat)" if "\<bar>i\<bar> < 4096" for i
    using fl32_int [of i] that by (simp_all flip: of_int_abs)
  show ?thesis
    using Position_Pack_word [of "of_int a" "of_int b" "of_int c"] Position_Unpack_word [of "of_int a" "of_int b" "of_int c"]
      fl assms pos_quantum_int
    by (simp add: Position_Set_def Position_Get_def vec3_def)
qed

section \<open>Small float differences\<close>

lemma fl32_small: "\<bar>q\<bar> \<le> 5 \<Longrightarrow> \<bar>fl32 q - q\<bar> \<le> 1 / 2 ^ 20"
proof -
  assume "\<bar>q\<bar> \<le> 5"
  then have "\<bar>q\<bar> / 2 ^ 24 \<le> 5 / 2 ^ 24" by simp
  moreover have "(5 :: rat) / 2 ^ 24 \<le> 1 / 2 ^ 20" by simp
  ultimately show ?thesis using fl32_error [of q] by linarith
qed

lemma epsilon_values:
  "fl32 (1 / 2) = 1 / 2" "36 / 100 \<le> fl32 (36 / 100)" "7 / 10 \<le> fl32 (71 / 100)" "0 < fl32 (1 / 1000)"
  by code_simp+

lemma fl32_0 [simp]: "fl32 0 = 0"
  by (simp add: fl32_def)

text \<open>A decoded angle is within 0.36 degrees of the encoded one, also after the float subtraction.\<close>

lemma angle_difference:
  assumes "fl32 v = v" and "0 \<le> v" and "v < 360"
  shows "\<bar>fl32 (v - angle_quantum v)\<bar> < 36 / 100"
proof -
  have "v / 2 ^ 24 \<le> 1 / 2 ^ 10" using assms(3) by simp
  then have d: "\<bar>v - angle_quantum v\<bar> \<le> 360 / 1024 + 1 / 2 ^ 10"
    using angle_quantum_near [OF assms] unfolding angle_near_def by linarith
  moreover have "(360 :: rat) / 1024 + 1 / 2 ^ 10 + 1 / 2 ^ 20 < 36 / 100" by simp
  moreover have "\<bar>v - angle_quantum v\<bar> \<le> 5" using d by simp
  ultimately show ?thesis using fl32_small [of "v - angle_quantum v"] by linarith
qed

lemma angle_difference_int:
  assumes "0 \<le> i" and "i < 360"
  shows "\<bar>fl32 (of_int i - angle_quantum (of_int i))\<bar> < fl32 (36 / 100)"
    and "\<bar>fl32 (of_int i - angle_quantum (of_int i))\<bar> < fl32 (71 / 100)"
proof -
  have "fl32 (of_int i) = (of_int i :: rat)" using assms by (intro fl32_int) simp
  then have "\<bar>fl32 (of_int i - angle_quantum (of_int i))\<bar> < 36 / 100"
    using assms by (intro angle_difference) simp_all
  then show "\<bar>fl32 (of_int i - angle_quantum (of_int i))\<bar> < fl32 (36 / 100)"
    "\<bar>fl32 (of_int i - angle_quantum (of_int i))\<bar> < fl32 (71 / 100)"
    using epsilon_values(2,3) by linarith+
qed

lemma Rotation_Set_int:
  assumes "0 \<le> a" "a < 360" "0 \<le> b" "b < 360" "0 \<le> c" "c < 360"
  shows "\<exists>r. Rotation_Set this (vec3 (of_int a) (of_int b) (of_int c)) = Some r \<and>
    Rotation_Get r = vec3 (angle_quantum (of_int a)) (angle_quantum (of_int b)) (angle_quantum (of_int c))"
  using Rotation_Set_Get [of "of_int a" "of_int b" "of_int c" this] assms by auto

lemmas exec_rules = AreEqual_def exec_simps holds_at_append enc_list_simps Let_def

end
