(* ===== verification/Serialization_Tests.thy ===== *)
theory Serialization_Tests
  imports Test_Support
begin

text \<open>
  The test class \<^verbatim>\<open>UnitTestBasicNetworking_Serialization\<close>, one definition per method, and the
  proofs that the methods pass for every content of their uninitialised buffers.
\<close>

section \<open>Numbers, texts and booleans\<close>

definition BasicU16Copy :: "bytes \<Rightarrow> unit option" where
  "BasicU16Copy buffer = do {
     let outValue = (0xFEAC :: U16);
     (buffer, outOffset) \<leftarrow> Out_U16 buffer 0 outValue;
     AreEqual outOffset 2;
     AreEqual (buffer ! 0) 0xFE;
     AreEqual (buffer ! 1) 0xAC;
     (inValue, inOffset) \<leftarrow> In_U16 buffer 0;
     AreEqual inOffset 2;
     AreEqual (ucast inValue :: U32) (ucast outValue) }"

definition MultipleU16Copy :: "bytes \<Rightarrow> unit option" where
  "MultipleU16Copy buffer = do {
     let arrayLen = (6 :: S32);
     let outValue = ([0xFEAC, 0xf1fc, 0x1234, 0xabcd, 0xbeef, 0x55aa] :: U16 list);
     (buffer, outOffset) \<leftarrow> Out_int buffer 0 arrayLen;
     (buffer, outOffset) \<leftarrow> Out_array Out_U16 buffer outOffset outValue;
     let len = 12;
     let offset = 4;
     AreEqual outOffset (len + offset);
     AreEqual (buffer ! (0 + offset)) 0xFE;
     AreEqual (buffer ! (1 + offset)) 0xAC;
     AreEqual (buffer ! (6 + offset)) 0xAB;
     AreEqual (buffer ! (7 + offset)) 0xCD;
     AreEqual (buffer ! (10 + offset)) 0x55;
     AreEqual (buffer ! (11 + offset)) 0xAA;
     (inArraySize, inOffset) \<leftarrow> In_int buffer 0;
     (inValue, inOffset) \<leftarrow> In_array In_U16 6 buffer inOffset;
     AreEqual inOffset (4 + 12);
     AreEqual inArraySize arrayLen;
     AreEqual (map (ucast :: U16 \<Rightarrow> U32) inValue) (map ucast outValue) }"

definition BasicMostSizesCopy :: "bytes \<Rightarrow> unit option" where
  "BasicMostSizesCopy buffer = do {
     let outValue1 = (0xFE :: U8);
     let outValue2 = (0xFEAC :: U16);
     let outValue4 = (0xFEAC :: U32);
     let outValue8 = (0xFEAC :: U64);
     (buffer, outOffset) \<leftarrow> Out_U8 buffer 0 outValue1;
     (buffer, outOffset) \<leftarrow> Out_U16 buffer outOffset outValue2;
     (buffer, outOffset) \<leftarrow> Out_U32 buffer outOffset outValue4;
     (buffer, outOffset) \<leftarrow> Out_U64 buffer outOffset outValue8;
     (buffer, outOffset) \<leftarrow> Out_U8 buffer outOffset outValue1;
     (buffer, outOffset) \<leftarrow> Out_U64 buffer outOffset outValue8;
     (buffer, outOffset) \<leftarrow> Out_U32 buffer outOffset outValue4;
     (buffer, outOffset) \<leftarrow> Out_U16 buffer outOffset outValue2;
     let writeOffset = 1 + 2 + 4 + 8;
     AreEqual outOffset (writeOffset * 2);
     AreEqual (buffer ! 0) 0xFE;
     AreEqual (buffer ! 1) 0xFE;
     AreEqual (buffer ! 2) 0xAC;
     AreEqual (buffer ! 7) 0x00;
     AreEqual (buffer ! 8) 0x00;
     AreEqual (buffer ! 13) 0xFE;
     AreEqual (buffer ! 14) 0xAC;
     AreEqual (buffer ! 15) 0xFE;
     AreEqual (buffer ! 16) 0x00;
     AreEqual (buffer ! 17) 0x00;
     AreEqual (buffer ! 22) 0xFE;
     AreEqual (buffer ! 23) 0xAC;
     (inValue1, inOffset) \<leftarrow> In_U8 buffer 0;
     AreEqual inOffset 1;
     (inValue2, inOffset) \<leftarrow> In_U16 buffer inOffset;
     AreEqual inOffset 3;
     (inValue4, inOffset) \<leftarrow> In_U32 buffer inOffset;
     AreEqual inOffset 7;
     (inValue8, inOffset) \<leftarrow> In_U64 buffer inOffset;
     AreEqual inOffset 15;
     (inValue1, inOffset) \<leftarrow> In_U8 buffer inOffset;
     (inValue8, inOffset) \<leftarrow> In_U64 buffer inOffset;
     (inValue4, inOffset) \<leftarrow> In_U32 buffer inOffset;
     (inValue2, inOffset) \<leftarrow> In_U16 buffer inOffset;
     AreEqual inOffset (writeOffset * 2);
     AreEqual outValue1 inValue1;
     AreEqual (ucast outValue2 :: S32) (ucast inValue2);
     AreEqual outValue4 inValue4;
     AreEqual outValue8 inValue8 }"

text \<open>The characters of a literal.\<close>

definition chars :: "string \<Rightarrow> bytes" where
  "chars s = map of_char s"

definition BasicUStringCopy :: "bytes \<Rightarrow> unit option" where
  "BasicUStringCopy buffer = do {
     let outString1 = chars ''test1'';
     let outString2 = chars ''what the hell are you doing'';
     let outString3 = chars ''eat my shorts'';
     (buffer, outOffset) \<leftarrow> Out_string buffer 0 outString1;
     let len = 2 + length outString1;
     AreEqual outOffset len;
     (buffer, outOffset) \<leftarrow> Out_string buffer outOffset outString2;
     let len = len + (2 + length outString2);
     AreEqual outOffset len;
     (buffer, outOffset) \<leftarrow> Out_string buffer outOffset outString3;
     let len = len + (2 + length outString3);
     AreEqual outOffset len;
     (inString1, inOffset) \<leftarrow> In_string buffer 0;
     let len = 2 + length outString1;
     AreEqual inOffset len;
     (inString2, inOffset) \<leftarrow> In_string buffer inOffset;
     (inString3, inOffset) \<leftarrow> In_string buffer inOffset;
     let len = len + (2 + length outString2);
     let len = len + (2 + length outString3);
     AreEqual inOffset len;
     AreEqual inString1 outString1;
     AreEqual inString2 outString2;
     AreEqual inString3 outString3 }"

definition BasicBoolCopy :: "bytes \<Rightarrow> unit option" where
  "BasicBoolCopy buffer = do {
     let outValue1 = True;
     let outValue2 = False;
     let outValue3 = True;
     let outValue4 = True;
     (buffer, outOffset) \<leftarrow> Out_bool buffer 0 outValue1;
     AreEqual outOffset 1;
     (buffer, outOffset) \<leftarrow> Out_bool buffer outOffset outValue2;
     (buffer, outOffset) \<leftarrow> Out_bool buffer outOffset outValue3;
     (buffer, outOffset) \<leftarrow> Out_bool buffer outOffset outValue4;
     AreEqual outOffset 4;
     AreEqual (buffer ! 0) 1;
     AreEqual (buffer ! 1) 0;
     AreEqual (buffer ! 2) 1;
     AreEqual (buffer ! 3) 1;
     (inValue, inOffset) \<leftarrow> In_array In_bool 4 buffer 0;
     AreEqual inOffset 4;
     AreEqual (inValue ! 0) outValue1;
     AreEqual (inValue ! 1) outValue2;
     AreEqual (inValue ! 2) outValue3;
     AreEqual (inValue ! 3) outValue4 }"

section \<open>They pass\<close>

lemma literals:
  "be_bytes (0xFEAC :: U16) = [0xFE, 0xAC]"
  "be_bytes (0xFEAC :: U32) = [0, 0, 0xFE, 0xAC]"
  "be_bytes (0xFEAC :: U64) = [0, 0, 0, 0, 0, 0, 0xFE, 0xAC]"
  "be_bytes (6 :: U32) = [0, 0, 0, 6]"
  "be_bytes (0xf1fc :: U16) = [0xf1, 0xfc]" "be_bytes (0x1234 :: U16) = [0x12, 0x34]"
  "be_bytes (0xabcd :: U16) = [0xab, 0xcd]" "be_bytes (0xbeef :: U16) = [0xbe, 0xef]"
  "be_bytes (0x55aa :: U16) = [0x55, 0xaa]"
  by code_simp+

lemma BasicU16Copy_passes:
  assumes len: "length buffer = 100"
  shows "BasicU16Copy buffer = Some ()"
proof -
  let ?b = "put buffer 0 (be_bytes (0xFEAC :: U16))"
  have "holds_at ?b 0 (be_bytes (0xFEAC :: U16))" by (rule holds_put) (simp add: len)
  then have "In_U16 ?b 0 = Some (0xFEAC, 2)" by (simp add: exec_rules)
  then show ?thesis by (simp add: BasicU16Copy_def exec_rules len) (simp add: literals)
qed

lemma MultipleU16Copy_passes:
  assumes len: "length buffer = 100"
  shows "MultipleU16Copy buffer = Some ()"
proof -
  let ?vs = "[0xFEAC, 0xf1fc, 0x1234, 0xabcd, 0xbeef, 0x55aa] :: U16 list"
  let ?e = "be_bytes (6 :: S32) @ enc_list be_bytes ?vs"
  have h: "holds_at (put buffer 0 ?e) 0 ?e"
    by (rule holds_put) (simp add: len wire_simps)
  have n: "length ?vs = 6" by simp
  have "holds_at (put buffer 0 ?e) 4 (enc_list be_bytes ?vs)" using h by (simp add: holds_at_append)
  from s_U16.In_array_enc [OF _ this, unfolded n]
  have "In_array In_U16 6 (put buffer 0 ?e) 4 = Some (?vs, 16)" by (simp add: wire_simps)
  moreover have "In_U32 (put buffer 0 ?e) 0 = Some (6, 4)" using h by (simp add: exec_rules)
  ultimately show ?thesis
    by (simp add: MultipleU16Copy_def exec_rules len del: In_array.simps) (simp add: literals)
qed

lemma BasicMostSizesCopy_passes:
  assumes len: "length buffer = 100"
  shows "BasicMostSizesCopy buffer = Some ()"
proof -
  let ?e = "enc_U8 0xFE @ be_bytes (0xFEAC :: U16) @ be_bytes (0xFEAC :: U32) @ be_bytes (0xFEAC :: U64) @
    enc_U8 0xFE @ be_bytes (0xFEAC :: U64) @ be_bytes (0xFEAC :: U32) @ be_bytes (0xFEAC :: U16)"
  have "holds_at (put buffer 0 ?e) 0 ?e" by (rule holds_put) (simp add: len)
  then show ?thesis
    by (simp add: BasicMostSizesCopy_def exec_rules len) (simp add: literals enc_U8_def nth_append)
qed

lemma string_literals:
  "string_ok (chars s) \<longleftrightarrow> length s < 3072 \<and> (\<forall>c\<in>set s. (of_char c :: U8) \<noteq> 0)"
  "length (chars s) = length s"
  by (auto simp: string_ok_def chars_def MaxString_def)

lemma length_enc_string [simp]: "length s < 65536 \<Longrightarrow> length (enc_string s) = 2 + length s"
  by (simp add: enc_string_def)

lemma BasicUStringCopy_passes:
  assumes len: "length buffer = MaxString"
  shows "BasicUStringCopy buffer = Some ()"
proof -
  let ?s1 = "chars ''test1''" and ?s2 = "chars ''what the hell are you doing''"
    and ?s3 = "chars ''eat my shorts''"
  let ?e = "enc_string ?s1 @ enc_string ?s2 @ enc_string ?s3"
  have "holds_at (put buffer 0 ?e) 0 ?e"
    by (rule holds_put) (simp add: len string_literals MaxString_def)
  then have h: "holds_at (put buffer 0 ?e) 0 (enc_string ?s1)" "holds_at (put buffer 0 ?e) 7 (enc_string ?s2)"
    "holds_at (put buffer 0 ?e) 36 (enc_string ?s3)"
    by (simp_all add: holds_at_append string_literals)
  have "string_ok ?s1" "string_ok ?s2" "string_ok ?s3" by (simp_all add: string_literals)
  note r = this [THEN holds_string]
  show ?thesis
    using r(1) [OF h(1)] r(2) [OF h(2)] r(3) [OF h(3)]
    by (simp add: BasicUStringCopy_def exec_rules len string_literals MaxString_def)
qed

lemma BasicBoolCopy_passes:
  assumes len: "length buffer = 100"
  shows "BasicBoolCopy buffer = Some ()"
proof -
  let ?e = "enc_U8 1 @ enc_U8 0 @ enc_U8 1 @ enc_U8 1"
  have "holds_at (put buffer 0 ?e) 0 ?e" by (rule holds_put) (simp add: len)
  then show ?thesis
    by (simp add: BasicBoolCopy_def exec_rules len numeral_eq_Suc) (simp add: enc_U8_def)
qed

end
