(* ===== verification/Packet_Tests.thy ===== *)
theory Packet_Tests
  imports Test_Support
begin

text \<open>
  The test class \<^verbatim>\<open>UnitTestBasicNetworking_MovementPacketsAndArrays\<close>: packets are filled, written,
  read into other objects and compared. The proofs rest on the contracts of the serializers and on
  the precision of the compressed vectors, so they hold for every content of the stack arrays.
\<close>

section \<open>The header of a packet\<close>

abbreviation default_BasePacket :: BasePacket where
  "default_BasePacket \<equiv> new_BasePacket (packet_type_code PacketType_Base) BasePacket_Type"

text \<open>The assignments to the fields, and the comparisons, that the methods share.\<close>

definition set_header :: "'a BasePacket_scheme \<Rightarrow> 'a BasePacket_scheme" where
  "set_header bp = bp\<lparr>packetSubType := BasePacket_Hello, gameProductId := 13, versionNumberMajor := 56,
     versionNumberMinor := 11, gameInstanceId := 1\<rparr>"

definition same_header :: "'a BasePacket_scheme \<Rightarrow> 'b BasePacket_scheme \<Rightarrow> unit option" where
  "same_header bp inPacket = do {
     AreEqual (packetType bp) (packetType inPacket);
     AreEqual (packetSubType bp) (packetSubType inPacket);
     AreEqual (gameProductId bp) (gameProductId inPacket);
     AreEqual (versionNumberMajor bp) (versionNumberMajor inPacket);
     AreEqual (versionNumberMinor bp) (versionNumberMinor inPacket);
     AreEqual (uint (gameInstanceId bp)) (uint (gameInstanceId inPacket)) }"

text \<open>\<^verbatim>\<open>abs(v.x - w.x) < epsilon\<close> for the three components, in order.\<close>

definition close_vectors :: "rat \<Rightarrow> Vector3 \<Rightarrow> Vector3 \<Rightarrow> unit option" where
  "close_vectors epsilon v w = do {
     IsTrue (\<bar>fl32 (vec_x v - vec_x w)\<bar> < epsilon);
     IsTrue (\<bar>fl32 (vec_y v - vec_y w)\<bar> < epsilon);
     IsTrue (\<bar>fl32 (vec_z v - vec_z w)\<bar> < epsilon) }"

section \<open>The methods\<close>

definition BasicBasePacketTest :: "bytes \<Rightarrow> unit option" where
  "BasicBasePacketTest buffer = do {
     let bp = set_header default_BasePacket;
     (buffer, outOffset) \<leftarrow> BasePacket_SerializeOut buffer 0 bp;
     (inPacket, inOffset) \<leftarrow> BasePacket_SerializeIn buffer 0 default_BasePacket;
     AreEqual inOffset outOffset;
     same_header bp inPacket }"

text \<open>Written through an \<^verbatim>\<open>IPacketSerializable*\<close>: the virtual \<^verbatim>\<open>SerializeOut\<close>.\<close>

definition BasicBasePacketTestPointer :: "bytes \<Rightarrow> unit option" where
  "BasicBasePacketTestPointer buffer = do {
     let bp = set_header default_BasePacket;
     let ptr = Packet_Base bp;
     (buffer, outOffset) \<leftarrow> packet_SerializeOut buffer 0 ptr;
     (inPacket, inOffset) \<leftarrow> BasePacket_SerializeIn buffer 0 default_BasePacket;
     AreEqual inOffset outOffset;
     same_header bp inPacket }"

definition BasicMovementPacketTest :: "bytes \<Rightarrow> unit option" where
  "BasicMovementPacketTest buffer = do {
     let episilon = fl32 (1 / 1000);
     let bp = set_header new_MovementPacket;
     let rot = vec3 18 32 270;
     let pos = vec3 1 2 (- 3);
     let mov = vec3 5 2 0;
     bp \<leftarrow> MovementPacket_Set bp pos rot mov;
     let bp = bp\<lparr>serverTick := 25\<rparr>;
     (buffer, outOffset) \<leftarrow> MovementPacket_SerializeOut buffer 0 bp;
     (inPacket, inOffset) \<leftarrow> MovementPacket_SerializeIn buffer 0 new_MovementPacket;
     AreEqual inOffset outOffset;
     same_header bp inPacket;
     AreEqual (ucast (serverTick bp) :: U32) (ucast (serverTick inPacket));
     let rotEpsilon = fl32 (71 / 100);
     let (resultPos, resultRot, resultMov) = MovementPacket_Get inPacket;
     close_vectors episilon pos resultPos;
     close_vectors rotEpsilon rot resultRot;
     close_vectors episilon mov resultMov }"

definition Basic_PacketHeirarchyAndPointerTest :: "bytes \<Rightarrow> unit option" where
  "Basic_PacketHeirarchyAndPointerTest buffer = do {
     let bp = default_BasePacket;
     AreEqual (packetType bp) (packet_type_code PacketType_Base);
     AreEqual (packetSubType bp) BasePacket_Type;
     let pp = new_PositionPacket ServerTick_Position;
     AreEqual (packetType pp) (packet_type_code PacketType_ServerTick);
     AreEqual (packetSubType pp) ServerTick_Position;
     let mp = new_MovementPacket;
     AreEqual (packetType mp) (packet_type_code PacketType_ServerTick);
     AreEqual (packetSubType mp) ServerTick_Movement;
     let episilon = fl32 (1 / 1000);
     let bp = bp\<lparr>gameProductId := 13, versionNumberMajor := 56, versionNumberMinor := 11,
       gameInstanceId := 1\<rparr>;
     let pp = CopyFrom pp bp;
     let mp = WriteTo bp mp;
     AreEqual (gameProductId bp) (gameProductId pp);
     AreEqual (gameProductId bp) (gameProductId mp);
     AreEqual (versionNumberMinor bp) (versionNumberMinor pp);
     AreEqual (versionNumberMinor bp) (versionNumberMinor mp);
     let rot = vec3 18 32 270;
     r \<leftarrow> Rotation_Set (rotationCompressed pp) rot;
     let pp = pp\<lparr>rotationCompressed := r\<rparr>;
     r \<leftarrow> Rotation_Set (rotationCompressed mp) rot;
     let mp = mp\<lparr>rotationCompressed := r\<rparr>;
     m \<leftarrow> Position_Set (movementDirCompressed mp) rot;
     let mp = mp\<lparr>movementDirCompressed := m\<rparr>;
     let pos = vec3 1 2 (- 3);
     p \<leftarrow> Position_Set (positionCompressed pp) pos;
     let pp = pp\<lparr>positionCompressed := p\<rparr>;
     p \<leftarrow> Position_Set (positionCompressed mp) pos;
     let mp = mp\<lparr>positionCompressed := p\<rparr>;
     (buffer, outOffset) \<leftarrow> BasePacket_SerializeOut buffer 0 bp;
     (buffer, outOffset) \<leftarrow> PositionPacket_SerializeOut buffer outOffset pp;
     (buffer, outOffset) \<leftarrow> MovementPacket_SerializeOut buffer outOffset mp;
     (inPacket, inOffset) \<leftarrow> BasePacket_SerializeIn buffer 0 default_BasePacket;
     (inPositionPacket, inOffset) \<leftarrow>
       PositionPacket_SerializeIn buffer inOffset (new_PositionPacket ServerTick_Position);
     (inMovementPacket, inOffset) \<leftarrow> MovementPacket_SerializeIn buffer inOffset new_MovementPacket;
     AreEqual inOffset outOffset;
     AreEqual (packetType bp) (packetType inPacket);
     AreEqual (packetSubType bp) (packetSubType inPacket);
     AreEqual (gameProductId bp) (gameProductId inPacket);
     AreEqual (versionNumberMajor bp) (versionNumberMajor inPacket);
     AreEqual (packetType pp) (packetType inPositionPacket);
     AreEqual (packetSubType pp) (packetSubType inPositionPacket);
     AreEqual (gameProductId pp) (gameProductId inPositionPacket);
     AreEqual (versionNumberMajor pp) (versionNumberMajor inPositionPacket);
     let rotEpsilon = fl32 (36 / 100);
     close_vectors episilon pos (Position_Get (positionCompressed inPositionPacket));
     close_vectors rotEpsilon rot (Rotation_Get (rotationCompressed inPositionPacket));
     AreEqual (packetType mp) (packetType inMovementPacket);
     AreEqual (packetSubType mp) (packetSubType inMovementPacket);
     AreEqual (gameProductId mp) (gameProductId inMovementPacket);
     AreEqual (versionNumberMajor mp) (versionNumberMajor inMovementPacket);
     close_vectors episilon pos (Position_Get (positionCompressed inMovementPacket));
     let result = Rotation_Get (rotationCompressed inMovementPacket);
     IsTrue (\<bar>fl32 (vec_x rot - vec_x result)\<bar> < rotEpsilon);
     IsTrue (\<bar>fl32 (vec_y rot - vec_y result)\<bar> < rotEpsilon);
     let dirResult = Position_Get (movementDirCompressed inMovementPacket);
     IsTrue (\<bar>fl32 (vec_x rot - vec_x dirResult)\<bar> < episilon);
     IsTrue (\<bar>fl32 (vec_y rot - vec_y dirResult)\<bar> < episilon) }"

definition MultipleMovementPacketTest :: "bytes \<Rightarrow> unit option" where
  "MultipleMovementPacketTest buffer = do {
     let numPackets = 4;
     let episilon = fl32 (1 / 1000);
     let rot = vec3 18 32 270;
     let pos = vec3 1 2 (- 3);
     bp \<leftarrow> for_update (\<lambda>i. do {
         let i = set_header i;
         r \<leftarrow> Rotation_Set (rotationCompressed i) rot;
         let i = i\<lparr>rotationCompressed := r\<rparr>;
         p \<leftarrow> Position_Set (positionCompressed i) pos;
         Some (i\<lparr>positionCompressed := p\<rparr>) })
       (replicate numPackets new_MovementPacket);
     (buffer, outOffset) \<leftarrow> Out_array MovementPacket_SerializeOut buffer 0 bp;
     (inPacket, inOffset) \<leftarrow>
       In_array (\<lambda>data off. MovementPacket_SerializeIn data off new_MovementPacket) numPackets buffer 0;
     let rotEpsilon = fl32 (36 / 100);
     for_each (\<lambda>(bp, inp). do {
         AreEqual inOffset outOffset;
         same_header bp inp;
         close_vectors episilon pos (Position_Get (positionCompressed inp));
         close_vectors rotEpsilon rot (Rotation_Get (rotationCompressed inp)) })
       (zip bp inPacket) }"

section \<open>They pass\<close>

lemma same_header_refl [simp]: "same_header p p = Some ()"
  by (simp add: same_header_def)

lemma close_vectors_same: "0 < epsilon \<Longrightarrow> close_vectors epsilon v v = Some ()"
  by (simp add: close_vectors_def IsTrue_def)

lemma close_angles:
  assumes "0 \<le> a" "a < 360" "0 \<le> b" "b < 360" "0 \<le> c" "c < 360" and "e = fl32 (36 / 100) \<or> e = fl32 (71 / 100)"
  shows "close_vectors e (vec3 (of_int a) (of_int b) (of_int c))
    (vec3 (angle_quantum (of_int a)) (angle_quantum (of_int b)) (angle_quantum (of_int c))) = Some ()"
  using angle_difference_int [OF assms(1,2)] angle_difference_int [OF assms(3,4)]
    angle_difference_int [OF assms(5,6)] assms(7)
  by (auto simp: close_vectors_def vec3_def IsTrue_def)

lemma test_vectors:
  "\<exists>p. Position_Set this (vec3 1 2 (- 3)) = Some p \<and> Position_Get p = vec3 1 2 (- 3)"
  "\<exists>p. Position_Set this (vec3 5 2 0) = Some p \<and> Position_Get p = vec3 5 2 0"
  "\<exists>p. Position_Set this (vec3 18 32 270) = Some p \<and> Position_Get p = vec3 18 32 270"
  using Position_Set_int [of 1 2 "- 3" this] Position_Set_int [of 5 2 0 this]
    Position_Set_int [of 18 32 270 this] by simp_all

lemma test_angles:
  "\<exists>r. Rotation_Set this' (vec3 18 32 270) = Some r \<and>
     Rotation_Get r = vec3 (angle_quantum 18) (angle_quantum 32) (angle_quantum 270)"
  "close_vectors (fl32 (36 / 100)) (vec3 18 32 270) (vec3 (angle_quantum 18) (angle_quantum 32) (angle_quantum 270)) = Some ()"
  "close_vectors (fl32 (71 / 100)) (vec3 18 32 270) (vec3 (angle_quantum 18) (angle_quantum 32) (angle_quantum 270)) = Some ()"
  using Rotation_Set_int [of 18 32 270 this'] close_angles [of 18 32 270] by simp_all

lemma base_trip:
  fixes p :: BasePacket
  assumes "off + 7 \<le> length buffer"
  shows "\<exists>b. BasePacket_SerializeOut buffer off p = Some (b, off + 7) \<and>
    (\<forall>q :: BasePacket. BasePacket_SerializeIn b off q = Some (p, off + 7))"
  using s_base.outp_fits [OF assms, of p] s_base.roundtrip [OF TrueI] by blast

lemma BasicBasePacketTest_passes: "length buffer = 100 \<Longrightarrow> BasicBasePacketTest buffer = Some ()"
  using base_trip [of 0 buffer "set_header default_BasePacket"]
  by (auto simp: BasicBasePacketTest_def Let_def)

lemma BasicBasePacketTestPointer_passes:
  "length buffer = 100 \<Longrightarrow> BasicBasePacketTestPointer buffer = Some ()"
  using base_trip [of 0 buffer "set_header default_BasePacket"]
  by (auto simp: BasicBasePacketTestPointer_def Let_def)

lemma BasicMovementPacketTest_passes:
  assumes len: "length buffer = 100"
  shows "BasicMovementPacketTest buffer = Some ()"
proof -
  let ?bp = "set_header new_MovementPacket"
  obtain p r m where set: "Position_Set (positionCompressed ?bp) (vec3 1 2 (- 3)) = Some p"
    "Position_Get p = vec3 1 2 (- 3)" "Rotation_Set (rotationCompressed ?bp) (vec3 18 32 270) = Some r"
    "Rotation_Get r = vec3 (angle_quantum 18) (angle_quantum 32) (angle_quantum 270)"
    "Position_Set (movementDirCompressed ?bp) (vec3 5 2 0) = Some m" "Position_Get m = vec3 5 2 0"
    using test_vectors test_angles(1) by meson
  define bp where "bp = ?bp\<lparr>positionCompressed := p, rotationCompressed := r, movementDirCompressed := m,
    serverTick := 25\<rparr>"
  obtain b where out: "MovementPacket_SerializeOut buffer 0 bp = Some (b, 29)"
    using s_movement.outp_fits [of 0 buffer bp] len by auto
  note in_b = s_movement.roundtrip [OF TrueI out]
  have "MovementPacket_Set ?bp (vec3 1 2 (- 3)) (vec3 18 32 270) (vec3 5 2 0) =
      Some (?bp\<lparr>positionCompressed := p, rotationCompressed := r, movementDirCompressed := m\<rparr>)"
    by (simp add: MovementPacket_Set_def PositionPacket_Set_def set)
  moreover have "MovementPacket_Get bp = (vec3 1 2 (- 3),
      vec3 (angle_quantum 18) (angle_quantum 32) (angle_quantum 270), vec3 5 2 0)"
    by (simp add: MovementPacket_Get_def PositionPacket_Get_def bp_def set)
  moreover have "serverTick bp = 25" by (simp add: bp_def)
  ultimately show ?thesis
    using out in_b epsilon_values(4)
    by (simp add: BasicMovementPacketTest_def Let_def test_angles close_vectors_same flip: bp_def)
qed

text \<open>Setting a compressed vector does not depend on what it held.\<close>

lemma Rotation_Set_independent: "Rotation_Set (this :: RotationCompressed) v = Rotation_Set q v"
  by (cases this; cases q) (simp add: Rotation_Set_def)

lemma Position_Set_independent: "Position_Set (this :: PositionCompressed) v = Position_Set q v"
  by (cases this; cases q) (simp add: Position_Set_def)

lemmas packet_puts = s_base.outp_fits s_pospacket.outp_fits s_movement.outp_fits

lemma Basic_PacketHeirarchyAndPointerTest_passes:
  assumes len: "length buffer = 100"
  shows "Basic_PacketHeirarchyAndPointerTest buffer = Some ()"
proof -
  obtain r where r: "\<And>this. Rotation_Set this (vec3 18 32 270) = Some r"
    "Rotation_Get r = vec3 (angle_quantum 18) (angle_quantum 32) (angle_quantum 270)"
    using test_angles(1) Rotation_Set_independent by metis
  obtain m where m: "\<And>this. Position_Set this (vec3 18 32 270) = Some m" "Position_Get m = vec3 18 32 270"
    using test_vectors(3) Position_Set_independent by metis
  obtain p where p: "\<And>this. Position_Set this (vec3 1 2 (- 3)) = Some p" "Position_Get p = vec3 1 2 (- 3)"
    using test_vectors(1) Position_Set_independent by metis
  define bp where "bp = default_BasePacket\<lparr>gameProductId := 13, versionNumberMajor := 56,
    versionNumberMinor := 11, gameInstanceId := 1\<rparr>"
  define pp where "pp = (CopyFrom (new_PositionPacket ServerTick_Position) bp)
    \<lparr>rotationCompressed := r, positionCompressed := p\<rparr>"
  define mp where "mp = (WriteTo bp new_MovementPacket)
    \<lparr>rotationCompressed := r, movementDirCompressed := m, positionCompressed := p\<rparr>"
  let ?e = "enc_base bp @ enc_position pp @ enc_movement mp"
  let ?b = "put buffer 0 ?e"
  have "holds_at ?b 0 ?e" by (rule holds_put) (simp add: len)
  then have h: "holds_at ?b 0 (enc_base bp)" "holds_at ?b 7 (enc_position pp)" "holds_at ?b 28 (enc_movement mp)"
    by (simp_all add: holds_at_append)
  have reads: "BasePacket_SerializeIn ?b 0 default_BasePacket = Some (bp, 7)"
    "PositionPacket_SerializeIn ?b 7 (new_PositionPacket ServerTick_Position) = Some (pp, 28)"
    "MovementPacket_SerializeIn ?b 28 new_MovementPacket = Some (mp, 57)"
    using s_base.inp_enc [OF TrueI h(1)] s_pospacket.inp_enc [OF TrueI h(2)]
      s_movement.inp_enc [OF TrueI h(3)] by simp_all
  have types: "packetType default_BasePacket = packet_type_code PacketType_Base"
    "packetSubType default_BasePacket = BasePacket_Type"
    "packetType (new_PositionPacket ServerTick_Position) = packet_type_code PacketType_ServerTick"
    "packetSubType (new_PositionPacket ServerTick_Position) = ServerTick_Position"
    "packetType new_MovementPacket = packet_type_code PacketType_ServerTick"
    "packetSubType new_MovementPacket = ServerTick_Movement"
    by (simp_all add: new_BasePacket_def new_ServerTickPacket_def new_PositionPacket_def
        new_MovementPacket_def BasePacket.defs ServerTickPacket.defs PositionPacket.defs)
  have fields: "positionCompressed pp = p" "rotationCompressed pp = r" "positionCompressed mp = p"
    "rotationCompressed mp = r" "movementDirCompressed mp = m"
    "gameProductId pp = gameProductId bp" "gameProductId mp = gameProductId bp"
    "versionNumberMinor pp = versionNumberMinor bp" "versionNumberMinor mp = versionNumberMinor bp"
    by (simp_all add: pp_def mp_def CopyFrom_def WriteTo_def)
  have angles: "\<bar>fl32 (18 - angle_quantum 18)\<bar> < fl32 (36 / 100)" "\<bar>fl32 (32 - angle_quantum 32)\<bar> < fl32 (36 / 100)"
    "\<bar>fl32 (270 - angle_quantum 270)\<bar> < fl32 (36 / 100)"
    using angle_difference_int(1) [of 18] angle_difference_int(1) [of 32] angle_difference_int(1) [of 270]
    by simp_all
  show ?thesis
    unfolding Basic_PacketHeirarchyAndPointerTest_def Let_def bp_def [symmetric] types r(1) p(1) m(1)
      Option.bind.bind_lunit pp_def [symmetric] mp_def [symmetric]
    using epsilon_values(4) angles
    by (simp add: packet_puts exec_simps len reads fields r(2) p(2) m(2) close_vectors_def IsTrue_def vec3_def
        CopyFrom_def WriteTo_def)
qed

lemma MultipleMovementPacketTest_passes:
  assumes len: "length buffer = 120"
  shows "MultipleMovementPacketTest buffer = Some ()"
proof -
  let ?i = "set_header new_MovementPacket"
  obtain r p where set: "Rotation_Set (rotationCompressed ?i) (vec3 18 32 270) = Some r"
    "Rotation_Get r = vec3 (angle_quantum 18) (angle_quantum 32) (angle_quantum 270)"
    "Position_Set (positionCompressed ?i) (vec3 1 2 (- 3)) = Some p" "Position_Get p = vec3 1 2 (- 3)"
    using test_vectors(1) test_angles(1) by meson
  define i where "i = ?i\<lparr>rotationCompressed := r, positionCompressed := p\<rparr>"
  have prepared: "for_update (\<lambda>i. do {
         let i = set_header i;
         r \<leftarrow> Rotation_Set (rotationCompressed i) (vec3 18 32 270);
         let i = i\<lparr>rotationCompressed := r\<rparr>;
         p \<leftarrow> Position_Set (positionCompressed i) (vec3 1 2 (- 3));
         Some (i\<lparr>positionCompressed := p\<rparr>) })
       (replicate 4 new_MovementPacket) = Some (replicate 4 i)"
    by (rule for_update_replicate) (simp add: set i_def)
  have fields: "rotationCompressed i = r" "positionCompressed i = p" by (simp_all add: i_def)
  obtain b where out: "Out_array MovementPacket_SerializeOut buffer 0 (replicate 4 i) = Some (b, 116)"
    using s_movement.array_fits [of "replicate 4 i" 0 buffer] len by auto
  have "In_array (\<lambda>data off. MovementPacket_SerializeIn data off new_MovementPacket) 4 b 0 =
      Some (replicate 4 i, 116)"
    using s_movement.array_roundtrip [OF _ _ out] by (simp add: list_all_iff)
  then show ?thesis
    unfolding MultipleMovementPacketTest_def Let_def prepared [unfolded Let_def] Option.bind.bind_lunit out prod.case
    using epsilon_values(4)
    by (auto intro!: for_each_Some dest!: set_zip_rightD set_zip_leftD
        simp: fields set test_angles [simplified] close_vectors_same zip_replicate)
qed

end
