(* ===== verification/Rotation_Test.thy ===== *)
theory Rotation_Test
  imports Test_Support
begin

text \<open>
  The method \<^verbatim>\<open>TestRotationNormalizationAndQuantization\<close> of the unit tests and the two float
  helpers it is built on. Its loop counts in steps of \<^verbatim>\<open>0.3f\<close> with a rounding in every addition;
  the proof bounds what each pass can do, for every float that the loop may reach, and does not
  run the loop.
\<close>

section \<open>Wrap and AbsDiffWithWrap\<close>

text \<open>The two loops need not end (a large float plus 360 may be itself), so they are partial.\<close>

partial_function (option) Wrap_up :: "rat \<Rightarrow> rat \<Rightarrow> rat option" where
  "Wrap_up value rng = (if value < 0 then Wrap_up (fl32 (value + rng)) rng else Some value)"

partial_function (option) Wrap_down :: "rat \<Rightarrow> rat \<Rightarrow> rat option" where
  "Wrap_down value rng = (if value \<ge> rng then Wrap_down (fl32 (value - rng)) rng else Some value)"

definition Wrap_float :: "rat \<Rightarrow> rat \<Rightarrow> rat option" where
  "Wrap_float value rng = do {
     IsTrue (value > - 2000 \<and> value < 2000);
     value \<leftarrow> Wrap_up value rng;
     Wrap_down value rng }"

definition AbsDiffWithWrap :: "rat \<Rightarrow> rat \<Rightarrow> rat \<Rightarrow> rat option" where
  "AbsDiffWithWrap x1 x2 wrap = do {
     a \<leftarrow> Wrap_float x1 wrap;
     b \<leftarrow> Wrap_float x2 wrap;
     Some \<bar>fl32 (a - b)\<bar> }"

section \<open>The test\<close>

text \<open>The loop over \<^verbatim>\<open>z\<close>; \<^verbatim>\<open>rotationTest2\<close> is \<open>(0, 0, z)\<close>.\<close>

partial_function (option) rotation_sweep ::
  "rat \<Rightarrow> rat \<Rightarrow> RotationCompressed \<Rightarrow> rat \<Rightarrow> (RotationCompressed \<times> rat) option" where
  "rotation_sweep epsilon z compressed largest =
     (if z < 365 then do {
        compressed \<leftarrow> Rotation_Set compressed (vec3 0 0 z);
        let retRot = Rotation_Get compressed;
        diff \<leftarrow> AbsDiffWithWrap (vec_z retRot) z 360;
        let largest = (if diff > largest then diff else largest);
        IsTrue (diff < epsilon);
        rotation_sweep epsilon (fl32 (z + fl32 (3 / 10))) compressed largest }
      else Some (compressed, largest))"

definition TestRotationNormalizationAndQuantization :: "unit option" where
  "TestRotationNormalizationAndQuantization = do {
     let epsilon = fl32 (1 / 2);
     positionCompressed \<leftarrow> Position_Set \<lparr>position = 0\<rparr> (vec3 1 20 (- 3));
     rotationCompressed \<leftarrow> Rotation_Set \<lparr>rotation = 0\<rparr> (vec3 0 0 (- 20));
     let retRot = Rotation_Get rotationCompressed;
     AreEqual (vec_x retRot) 0;
     AreEqual (vec_y retRot) 0;
     diff \<leftarrow> AbsDiffWithWrap (vec_z retRot) (- 20) 360;
     IsTrue (diff < epsilon);
     let epsilon = fl32 (71 / 100);
     (rotationCompressed, largest) \<leftarrow> rotation_sweep epsilon 0 rotationCompressed 0;
     moveCompressed \<leftarrow> Position_Set \<lparr>position = 0\<rparr> (vec3 5 2 0);
     let retMov = Position_Get moveCompressed;
     IsTrue (\<bar>fl32 (5 - vec_x retMov)\<bar> < epsilon);
     IsTrue (\<bar>fl32 (5 - vec_x retMov)\<bar> < epsilon);
     IsTrue (\<bar>fl32 (5 - vec_x retMov)\<bar> < epsilon) }"

section \<open>It passes\<close>

lemma Wrap_float_id: "0 \<le> v \<Longrightarrow> v < rng \<Longrightarrow> v < 2000 \<Longrightarrow> Wrap_float v rng = Some v"
  by (simp add: Wrap_float_def Wrap_up.simps Wrap_down.simps IsTrue_def)

lemma Wrap_float_once:
  assumes "360 \<le> v" and "v < 365"
  shows "\<exists>w. Wrap_float v 360 = Some w \<and> 0 \<le> w \<and> \<bar>w - (v - 360)\<bar> \<le> 1 / 2 ^ 20"
proof -
  define w where "w = fl32 (v - 360)"
  have w: "\<bar>w - (v - 360)\<bar> \<le> 1 / 2 ^ 20" using fl32_small [of "v - 360"] assms by (simp add: w_def)
  have "0 \<le> w" using assms by (simp add: w_def fl32_nonneg)
  moreover have "(1 :: rat) / 2 ^ 20 < 1" by simp
  then have "w < 360" using w assms(2) by linarith
  ultimately have "Wrap_down w 360 = Some w" by (simp add: Wrap_down.simps)
  then have "Wrap_float v 360 = Some w"
    using assms by (simp add: Wrap_float_def Wrap_up.simps Wrap_down.simps [of v] IsTrue_def w_def)
  then show ?thesis using w \<open>0 \<le> w\<close> by blast
qed

text \<open>One pass: the decoded angle differs from the wrapped one by less than 0.71.\<close>

lemma rotation_pass:
  assumes "fl32 z = z" and "0 \<le> z" and "z < 365"
  shows "\<exists>r d. Rotation_Set this (vec3 0 0 z) = Some r \<and>
    AbsDiffWithWrap (vec_z (Rotation_Get r)) z 360 = Some d \<and> d < 7 / 10"
proof -
  obtain r where r: "Rotation_Set this (vec3 0 0 z) = Some r" "vec_z (Rotation_Get r) = angle_quantum z"
    using Rotation_Set_Get [of 0 0 z this] assms by (auto simp: vec3_def)
  have q: "0 \<le> angle_quantum z" "angle_quantum z < 360"
    using angle_step_range [of z] by (simp_all add: angle_quantum_def)
  obtain w where w: "Wrap_float z 360 = Some w" "\<bar>w - angle_quantum z\<bar> \<le> 36 / 100"
  proof (cases "z < 360")
    case True
    have "z / 2 ^ 24 \<le> 1 / 2 ^ 10" using True by simp
    then have "\<bar>z - angle_quantum z\<bar> \<le> 360 / 1024 + 1 / 2 ^ 10"
      using angle_quantum_near [OF assms(1,2) True] unfolding angle_near_def by linarith
    moreover have "(360 :: rat) / 1024 + 1 / 2 ^ 10 \<le> 36 / 100" by simp
    ultimately have "\<bar>z - angle_quantum z\<bar> \<le> 36 / 100" by linarith
    then show ?thesis using that [of z] Wrap_float_id [of z 360] True assms(2) by simp
  next
    case False
    then obtain w where w: "Wrap_float z 360 = Some w" "\<bar>w - (z - 360)\<bar> \<le> 1 / 2 ^ 20"
      using Wrap_float_once [of z] assms(3) by auto
    have "z / 2 ^ 24 \<le> 1 / 2 ^ 10" using assms(3) by simp
    then have "\<bar>w - angle_quantum z\<bar> \<le> 360 / 1024 + 1 / 2 ^ 10 + 1 / 2 ^ 20"
      using angle_quantum_second_circle [of z] False assms(3) w(2) by linarith
    moreover have "(360 :: rat) / 1024 + 1 / 2 ^ 10 + 1 / 2 ^ 20 \<le> 36 / 100" by simp
    ultimately show ?thesis using that [of w] w(1) by linarith
  qed
  have "\<bar>angle_quantum z - w\<bar> / 2 ^ 24 \<le> 1" using w(2) by (simp add: abs_minus_commute)
  moreover have "\<bar>fl32 (angle_quantum z - w) - (angle_quantum z - w)\<bar> \<le> 1 / 2 ^ 20"
    by (rule fl32_small) (use w(2) in \<open>simp add: abs_minus_commute\<close>)
  moreover have "(1 :: rat) / 2 ^ 20 \<le> 1 / 10" by simp
  ultimately have "\<bar>fl32 (angle_quantum z - w)\<bar> < 7 / 10" using w(2) by linarith
  then show ?thesis
    using r w(1) q by (simp add: AbsDiffWithWrap_def Wrap_float_id)
qed

text \<open>Every pass advances by at least 0.2, so at most 1825 passes reach 365.\<close>

lemma sweep_advances:
  assumes "0 \<le> z" and "z < 365"
  shows "z + 2 / 10 \<le> fl32 (z + fl32 (3 / 10))"
proof -
  have "\<bar>fl32 (3 / 10 :: rat) - 3 / 10\<bar> \<le> 1 / 2 ^ 20" by (rule fl32_small) simp
  moreover have "(1 :: rat) / 2 ^ 20 \<le> 1 / 100" by simp
  ultimately have s: "29 / 100 \<le> fl32 (3 / 10 :: rat)" "fl32 (3 / 10 :: rat) \<le> 31 / 100" by linarith+
  have "\<bar>z + fl32 (3 / 10)\<bar> / 2 ^ 24 \<le> 366 / 2 ^ 24" using assms s by simp
  moreover have "(366 :: rat) / 2 ^ 24 \<le> 1 / 100" by simp
  ultimately show ?thesis using fl32_error [of "z + fl32 (3 / 10)"] s(1) by linarith
qed

lemma rotation_sweep_returns:
  assumes "7 / 10 \<le> epsilon"
  shows "fl32 z = z \<Longrightarrow> 0 \<le> z \<Longrightarrow> 365 - z \<le> of_nat n * (2 / 10) \<Longrightarrow>
    \<exists>s. rotation_sweep epsilon z this largest = Some s"
proof (induction n arbitrary: z this largest)
  case 0
  then show ?case by (simp add: rotation_sweep.simps)
next
  case (Suc n)
  show ?case
  proof (cases "z < 365")
    case False
    then show ?thesis by (simp add: rotation_sweep.simps)
  next
    case True
    let ?z = "fl32 (z + fl32 (3 / 10))"
    obtain r d where r: "Rotation_Set this (vec3 0 0 z) = Some r"
      "AbsDiffWithWrap (vec_z (Rotation_Get r)) z 360 = Some d" "d < 7 / 10"
      using rotation_pass [OF Suc.prems(1,2) True] by blast
    have adv: "z + 2 / 10 \<le> ?z" by (rule sweep_advances [OF Suc.prems(2) True])
    have "365 - ?z \<le> of_nat n * (2 / 10)" using Suc.prems(3) adv by (simp add: algebra_simps)
    moreover have "0 \<le> ?z" using adv Suc.prems(2) by linarith
    ultimately obtain s where
      "rotation_sweep epsilon ?z r (if d > largest then d else largest) = Some s"
      using Suc.IH [of ?z] by fastforce
    then show ?thesis using r assms True
      by (subst rotation_sweep.simps) (simp add: IsTrue_def Let_def)
  qed
qed

lemma first_angle:
  "Rotation_Set \<lparr>rotation = 0\<rparr> (vec3 0 0 (- 20)) = Some \<lparr>rotation = 968\<rparr>"
  "Rotation_Get \<lparr>rotation = 968\<rparr> = vec3 0 0 (5445 / 16)"
  by code_simp+

lemma first_difference: "AbsDiffWithWrap (5445 / 16) (- 20) 360 = Some (5 / 16)"
proof -
  have f: "fl32 (- 20 + 360) = 340" "fl32 (5445 / 16 - 340) = 5 / 16" by code_simp+
  have "Wrap_float (- 20) 360 = Some 340"
    using f(1) by (simp add: Wrap_float_def Wrap_up.simps [of "- 20"] Wrap_up.simps [of 340] Wrap_down.simps)
  moreover have "Wrap_float (5445 / 16) 360 = Some (5445 / 16)" by (rule Wrap_float_id) simp_all
  ultimately show ?thesis using f(2) by (simp add: AbsDiffWithWrap_def)
qed

lemma positions_set:
  "\<exists>p. Position_Set \<lparr>position = 0\<rparr> (vec3 1 20 (- 3)) = Some p"
  "\<exists>p. Position_Set \<lparr>position = 0\<rparr> (vec3 5 2 0) = Some p \<and> vec_x (Position_Get p) = 5"
  using Position_Set_int [of 1 20 "- 3" "\<lparr>position = 0\<rparr>"] Position_Set_int [of 5 2 0 "\<lparr>position = 0\<rparr>"]
  by (auto simp: vec3_def)

lemma TestRotation_passes: "TestRotationNormalizationAndQuantization = Some ()"
proof -
  obtain p where p: "Position_Set \<lparr>position = 0\<rparr> (vec3 1 20 (- 3)) = Some p"
    using positions_set(1) by blast
  obtain m where m: "Position_Set \<lparr>position = 0\<rparr> (vec3 5 2 0) = Some m" "vec_x (Position_Get m) = 5"
    using positions_set(2) by blast
  obtain r l where s: "rotation_sweep (fl32 (71 / 100)) 0 \<lparr>rotation = 968\<rparr> 0 = Some (r, l)"
    using rotation_sweep_returns [OF epsilon_values(3), of 0 1825 "\<lparr>rotation = 968\<rparr>" 0] by auto
  have "0 < fl32 (71 / 100)" using epsilon_values(3) by auto
  then show ?thesis
    using p m s first_angle first_difference epsilon_values(1)
    by (simp add: TestRotationNormalizationAndQuantization_def vec3_def Let_def AreEqual_def IsTrue_def)
qed

end
