(* ===== verification/Factory_Tests.thy ===== *)
theory Factory_Tests
  imports Size_Packet Packet_Tests Rotation_Test
begin

text \<open>
  \<^verbatim>\<open>FactoryMock\<close> and the test classes \<^verbatim>\<open>BoilerplateRewrite\<close> and \<^verbatim>\<open>PacketFactory\<close> of the unit tests,
  which run against the static packet factory. The test program is built with \<^verbatim>\<open>_UNIT_TESTING_\<close>, so
  no class registers itself and the mock does it. \<open>junk\<close> is the content of fresh memory.

  A test starts and ends in \<open>process_start\<close>: \<^verbatim>\<open>delete mock\<close> is the last statement of every test, and
  the objects that its local pointers still refer to die with them at the end of the method.
\<close>

section \<open>FactoryMock\<close>

record test_process =
  typeRegistered :: "packet_class \<Rightarrow> bool"
  statics :: factory

definition process_start :: test_process where
  "process_start = \<lparr>typeRegistered = (\<lambda>_. False), statics = factory_0\<rparr>"

definition MockRegistery :: "packet_class \<Rightarrow> test_process \<Rightarrow> test_process" where
  "MockRegistery c s =
     (if typeRegistered s c then s
      else let (success, f) = Register (class_Name c) (class_Type c) (class_SubType c) c (statics s)
           in s\<lparr>typeRegistered := (typeRegistered s)(c := success), statics := f\<rparr>)"

definition FactoryMock_new :: "(addr \<Rightarrow> U16) \<Rightarrow> test_process \<Rightarrow> test_process option" where
  "FactoryMock_new junk s = do {
     let s = MockRegistery C_BasePacket s;
     let s = MockRegistery C_ConnectionCommsPacket s;
     let s = MockRegistery C_PositionPacket s;
     let s = MockRegistery C_MovementPacket s;
     f \<leftarrow> run (InitFactory junk (statics s));
     Some (s\<lparr>statics := f\<rparr>) }"

definition FactoryMock_delete :: "test_process \<Rightarrow> test_process" where
  "FactoryMock_delete s = \<lparr>typeRegistered = (\<lambda>_. False), statics = (Shutdown (statics s))\<lparr>heap := []\<rparr>\<rparr>"

section \<open>Objects behind pointers\<close>

text \<open>What the tests write through \<^verbatim>\<open>dynamic_cast\<close> pointers; a failed cast is a null pointer.\<close>

fun set_gameInstanceId :: "U16 \<Rightarrow> packet \<Rightarrow> packet" where
  "set_gameInstanceId v (Packet_Base p) = Packet_Base (p\<lparr>gameInstanceId := v\<rparr>)"
| "set_gameInstanceId v (Packet_Comms p) = Packet_Comms (p\<lparr>gameInstanceId := v\<rparr>)"
| "set_gameInstanceId v (Packet_Position p) = Packet_Position (p\<lparr>gameInstanceId := v\<rparr>)"
| "set_gameInstanceId v (Packet_Movement p) = Packet_Movement (p\<lparr>gameInstanceId := v\<rparr>)"

fun set_gameProductId :: "U8 \<Rightarrow> packet \<Rightarrow> packet" where
  "set_gameProductId v (Packet_Base p) = Packet_Base (p\<lparr>gameProductId := v\<rparr>)"
| "set_gameProductId v (Packet_Comms p) = Packet_Comms (p\<lparr>gameProductId := v\<rparr>)"
| "set_gameProductId v (Packet_Position p) = Packet_Position (p\<lparr>gameProductId := v\<rparr>)"
| "set_gameProductId v (Packet_Movement p) = Packet_Movement (p\<lparr>gameProductId := v\<rparr>)"

fun Position_cast_Set :: "Vector3 \<Rightarrow> Vector3 \<Rightarrow> packet \<Rightarrow> packet option" where
  "Position_cast_Set pos rot (Packet_Position p) = map_option Packet_Position (PositionPacket_Set p pos rot)"
| "Position_cast_Set pos rot (Packet_Movement p) = map_option Packet_Movement (PositionPacket_Set p pos rot)"
| "Position_cast_Set pos rot _ = None"

fun Position_cast_Get :: "packet \<Rightarrow> (Vector3 \<times> Vector3) option" where
  "Position_cast_Get (Packet_Position p) = Some (PositionPacket_Get p)"
| "Position_cast_Get (Packet_Movement p) = Some (PositionPacket_Get p)"
| "Position_cast_Get _ = None"

fun Comms_cast_set_connectionId :: "U16 \<Rightarrow> packet \<Rightarrow> packet option" where
  "Comms_cast_set_connectionId v (Packet_Comms p) = Some (Packet_Comms (p\<lparr>connectionId := v\<rparr>))"
| "Comms_cast_set_connectionId v _ = None"

fun Comms_cast_connectionId :: "packet \<Rightarrow> U16 option" where
  "Comms_cast_connectionId (Packet_Comms p) = Some (connectionId p)"
| "Comms_cast_connectionId _ = None"

definition store :: "pointer \<Rightarrow> packet \<Rightarrow> factory \<Rightarrow> factory" where
  "store ptr p f = (case ptr of None \<Rightarrow> f | Some a \<Rightarrow> f\<lparr>heap := (heap f)[a := p]\<rparr>)"

text \<open>The three assertions on name, type and subtype that follow almost every creation.\<close>

definition is_a :: "string \<Rightarrow> U8 \<Rightarrow> U8 \<Rightarrow> factory \<Rightarrow> pointer \<Rightarrow> unit option" where
  "is_a name type subType f pack = do {
     p \<leftarrow> run (deref f pack);
     AreEqual name (GetName p);
     p \<leftarrow> run (deref f pack);
     AreEqual type (GetType p);
     p \<leftarrow> run (deref f pack);
     AreEqual subType (GetSubType p) }"

section \<open>The methods\<close>

definition Boilerplate_BasicBasePacketTest ::
  "(addr \<Rightarrow> U16) \<Rightarrow> bytes \<Rightarrow> test_process \<Rightarrow> test_process option" where
  "Boilerplate_BasicBasePacketTest junk buffer s = do {
     s \<leftarrow> FactoryMock_new junk s;
     let bp = default_BasePacket\<lparr>packetSubType := BasePacket_Type, gameProductId := 13,
       versionNumberMajor := 56, versionNumberMinor := 11, gameInstanceId := 1\<rparr>;
     AreEqual (class_Type C_BasePacket) (packet_type_code PacketType_Base);
     AreEqual (GetName (Packet_Base bp)) ''BasePacket'';
     AreEqual (GetSubType (Packet_Base bp)) BasePacket_Type;
     IsTrue (typeRegistered s C_BasePacket);
     (buffer, outOffset) \<leftarrow> BasePacket_SerializeOut buffer 0 bp;
     (inPacket, inOffset) \<leftarrow> BasePacket_SerializeIn buffer 0 default_BasePacket;
     AreEqual inOffset outOffset;
     same_header bp inPacket;
     Some (FactoryMock_delete s) }"

definition FactoryTest_Basics :: "bool \<Rightarrow> (addr \<Rightarrow> U16) \<Rightarrow> test_process \<Rightarrow> test_process option" where
  "FactoryTest_Basics debug junk s = do {
     s \<leftarrow> FactoryMock_new junk s;
     (pack, f) \<leftarrow> run (Create_by_name debug junk ''BasePacket'' (statics s));
     is_a ''BasePacket'' (packet_type_code PacketType_Base) BasePacket_Type f pack;
     (ok, pack, f) \<leftarrow> run (Release pack f);
     Some (FactoryMock_delete (s\<lparr>statics := f\<rparr>)) }"

definition FactoryTest_Basics2 :: "bool \<Rightarrow> (addr \<Rightarrow> U16) \<Rightarrow> test_process \<Rightarrow> test_process option" where
  "FactoryTest_Basics2 debug junk s = do {
     s \<leftarrow> FactoryMock_new junk s;
     (pack, f) \<leftarrow> run (Create_by_name debug junk ''BasePacket'' (statics s));
     is_a ''BasePacket'' (packet_type_code PacketType_Base) BasePacket_Type f pack;
     (pack3, f) \<leftarrow> run (Create_by_name debug junk ''PositionPacket'' f);
     is_a ''PositionPacket'' (packet_type_code PacketType_ServerTick) ServerTick_Position f pack3;
     (pack2, f) \<leftarrow> run (Create_by_name debug junk ''MovementPacket'' f);
     is_a ''MovementPacket'' (packet_type_code PacketType_ServerTick) ServerTick_Movement f pack2;
     (ok, pack3, f) \<leftarrow> run (Release pack3 f);
     (ok, pack2, f) \<leftarrow> run (Release pack2 f);
     (ok, pack, f) \<leftarrow> run (Release pack f);
     Some (FactoryMock_delete (s\<lparr>statics := f\<rparr>)) }"

text \<open>\<^verbatim>\<open>Serialize::In\<close> of a sample header, \<^verbatim>\<open>Create\<close> by its type, \<^verbatim>\<open>Serialize::In\<close> of the object.\<close>

definition unpack_next ::
  "bool \<Rightarrow> bytes \<Rightarrow> nat \<Rightarrow> BasePacket \<Rightarrow> factory \<Rightarrow> (BasePacket \<times> pointer \<times> nat \<times> factory) option" where
  "unpack_next debug buffer inOffset sampler f = do {
     let sampleOffset = inOffset;
     (sampler, sampleOffset) \<leftarrow> BasePacket_SerializeIn buffer sampleOffset sampler;
     (unpack, f) \<leftarrow> run (Create debug (packetType sampler) (packetSubType sampler) f);
     p \<leftarrow> run (deref f unpack);
     (p, inOffset) \<leftarrow> packet_SerializeIn buffer inOffset p;
     Some (sampler, unpack, inOffset, store unpack p f) }"

text \<open>The method in two halves: four objects are created and sent, then received and checked.\<close>

definition FactoryTest_send :: "bool \<Rightarrow> (addr \<Rightarrow> U16) \<Rightarrow> bytes \<Rightarrow> factory \<Rightarrow>
    (pointer \<times> pointer \<times> pointer \<times> pointer \<times> bytes \<times> factory) option" where
  "FactoryTest_send debug junk buffer f = do {
     (pack, f) \<leftarrow> run (Create_by_name debug junk ''BasePacket'' f);
     is_a ''BasePacket'' (packet_type_code PacketType_Base) BasePacket_Type f pack;
     (packComms, f) \<leftarrow> run (Create debug (packet_type_code PacketType_Base) BasePacket_CommsHandshake f);
     is_a ''ConnectionCommsPacket'' (packet_type_code PacketType_Base) BasePacket_CommsHandshake f packComms;
     (pack2, f) \<leftarrow> run (Create_by_name debug junk ''PositionPacket'' f);
     is_a ''PositionPacket'' (packet_type_code PacketType_ServerTick) ServerTick_Position f pack2;
     let episilon = fl32 (1 / 1000);
     let positionTest = vec3 1 20 (- 3);
     let rotationTest = vec3 20 17 (- 20);
     pp \<leftarrow> run (deref f pack2);
     pp \<leftarrow> Position_cast_Set positionTest rotationTest pp;
     let f = store pack2 pp f;
     let connId = (24 :: U16);
     comms \<leftarrow> run (deref f packComms);
     comms \<leftarrow> Comms_cast_set_connectionId connId comms;
     let f = store packComms comms f;
     (pack3, f) \<leftarrow> run (Create_by_name debug junk ''MovementPacket'' f);
     is_a ''MovementPacket'' (packet_type_code PacketType_ServerTick) ServerTick_Movement f pack3;
     p \<leftarrow> run (deref f pack);
     (buffer, outOffset) \<leftarrow> packet_SerializeOut buffer 0 p;
     p \<leftarrow> run (deref f packComms);
     (buffer, outOffset) \<leftarrow> packet_SerializeOut buffer outOffset p;
     p \<leftarrow> run (deref f pack3);
     (buffer, outOffset) \<leftarrow> packet_SerializeOut buffer outOffset p;
     p \<leftarrow> run (deref f pack2);
     (buffer, outOffset) \<leftarrow> packet_SerializeOut buffer outOffset p;
     Some (pack, packComms, pack2, pack3, buffer, f) }"

definition FactoryTest_receive ::
  "bool \<Rightarrow> bytes \<Rightarrow> pointer \<Rightarrow> pointer \<Rightarrow> pointer \<Rightarrow> factory \<Rightarrow> factory option" where
  "FactoryTest_receive debug buffer pack pack2 pack3 f = do {
     let episilon = fl32 (1 / 1000);
     let positionTest = vec3 1 20 (- 3);
     let rotationTest = vec3 20 17 (- 20);
     let connId = (24 :: U16);
     (sampler, unpack1, inOffset, f) \<leftarrow> unpack_next debug buffer 0 default_BasePacket f;
     (sampler, unpack4, inOffset, f) \<leftarrow> unpack_next debug buffer inOffset sampler f;
     (sampler, unpack2, inOffset, f) \<leftarrow> unpack_next debug buffer inOffset sampler f;
     (sampler, unpack3, inOffset, f) \<leftarrow> unpack_next debug buffer inOffset sampler f;
     is_a ''BasePacket'' (packet_type_code PacketType_Base) BasePacket_Type f unpack1;
     is_a ''MovementPacket'' (packet_type_code PacketType_ServerTick) ServerTick_Movement f unpack2;
     is_a ''PositionPacket'' (packet_type_code PacketType_ServerTick) ServerTick_Position f unpack3;
     is_a ''ConnectionCommsPacket'' (packet_type_code PacketType_Base) BasePacket_CommsHandshake f unpack4;
     comms \<leftarrow> run (deref f unpack4);
     received \<leftarrow> Comms_cast_connectionId comms;
     AreEqual (uint received) (uint connId);
     let rotEpsilon = fl32 (36 / 100);
     pp2 \<leftarrow> run (deref f unpack3);
     (resultPos, resultRot) \<leftarrow> Position_cast_Get pp2;
     close_vectors episilon positionTest resultPos;
     d \<leftarrow> AbsDiffWithWrap (vec_x rotationTest) (vec_x resultRot) 360;
     IsTrue (d < rotEpsilon);
     d \<leftarrow> AbsDiffWithWrap (vec_y rotationTest) (vec_y resultRot) 360;
     IsTrue (d < rotEpsilon);
     d \<leftarrow> AbsDiffWithWrap (vec_z rotationTest) (vec_z resultRot) 360;
     IsTrue (d < rotEpsilon);
     (ok, unpack1, f) \<leftarrow> run (Release unpack1 f);
     (ok, unpack2, f) \<leftarrow> run (Release unpack2 f);
     (ok, unpack3, f) \<leftarrow> run (Release unpack3 f);
     (ok, pack3, f) \<leftarrow> run (Release pack3 f);
     (ok, pack2, f) \<leftarrow> run (Release pack2 f);
     (ok, pack, f) \<leftarrow> run (Release pack f);
     Some f }"

definition FactoryTest_FactoryTest ::
  "bool \<Rightarrow> (addr \<Rightarrow> U16) \<Rightarrow> bytes \<Rightarrow> test_process \<Rightarrow> test_process option" where
  "FactoryTest_FactoryTest debug junk buffer s = do {
     s \<leftarrow> FactoryMock_new junk s;
     (pack, packComms, pack2, pack3, buffer, f) \<leftarrow> FactoryTest_send debug junk buffer (statics s);
     f \<leftarrow> FactoryTest_receive debug buffer pack pack2 pack3 f;
     Some (FactoryMock_delete (s\<lparr>statics := f\<rparr>)) }"

section \<open>The proofs\<close>

lemma FactoryMock_delete [simp]: "FactoryMock_delete s = process_start"
  by (simp add: FactoryMock_delete_def process_start_def Shutdown_def factory_0_def)

text \<open>What a test can rely on after the mock's constructor.\<close>

lemma FactoryMock_new_ok:
  obtains s where "FactoryMock_new junk process_start = Some s" and "\<forall>c. typeRegistered s c"
    and "pool_inv (statics s) []" and "all_new (statics s)"
proof -
  obtain f where f: "InitFactory junk self_registered = Inr f"
    using InitFactory_ok [OF self_registered_ok, of junk] by blast
  have reg: "MockRegistery c s =
      s\<lparr>typeRegistered := (typeRegistered s)(c := True), statics := register_class c (statics s)\<rparr>"
    if "\<not> typeRegistered s c" "map_find (s_methods (statics s)) (class_Name c) = None" for c s
    using that Register_result [of "class_Name c" "class_Type c" "class_SubType c" c "statics s"]
    by (auto simp: MockRegistery_def register_class_def split: prod.split)
  have none: "map_find (s_methods factory_0) n = None" for n by (simp add: factory_0_def)
  define all where "all = (\<lambda>_. False)(C_BasePacket := True, C_ConnectionCommsPacket := True,
    C_PositionPacket := True, C_MovementPacket := True)"
  have "MockRegistery C_MovementPacket (MockRegistery C_PositionPacket
      (MockRegistery C_ConnectionCommsPacket (MockRegistery C_BasePacket process_start))) =
      \<lparr>typeRegistered = all, statics = self_registered\<rparr>"
    by (simp add: reg process_start_def self_registered_def register_class_find register_class_ok factory_ok_0
        none all_def)
  then have "FactoryMock_new junk process_start = Some \<lparr>typeRegistered = all, statics = f\<rparr>"
    by (simp add: FactoryMock_new_def f)
  moreover have "all c" for c by (cases c) (simp_all add: all_def)
  ultimately show ?thesis using pool_inv_start [OF f] InitFactory_new [OF f]
    by (intro that [of "\<lparr>typeRegistered = all, statics = f\<rparr>"]) simp_all
qed

text \<open>One creation by a holder of fewer than 100 objects, and one release.\<close>

lemma create_one:
  assumes inv: "pool_inv f held" and few: "held_of f held (class_key c) < numToCreate"
  obtains a f' where "Create debug (class_Type c) (class_SubType c) f = Inr (Some a, f')"
    "Create_by_name debug junk (class_Name c) f = Inr (Some a, f')"
    "pool_inv f' (a # held)" "heap f' = heap f" "a < length (heap f)" "class_of (heap f ! a) = c" "a \<notin> set held"
proof -
  obtain a f' where c: "Create debug (class_Type c) (class_SubType c) f = Inr (Some a, f')"
    "heap f' = heap f" "a < length (heap f)" "class_of (heap f ! a) = c" "a \<notin> set held"
    using Create_registered [OF inv, of debug c] few by auto
  moreover have "Create_by_name debug junk (class_Name c) f = Create debug (class_Type c) (class_SubType c) f"
    by (rule Create_by_name_eq [OF pool_invD(3) [OF inv]])
  moreover have "pool_inv f' (a # held)" using Create_inv [OF inv c(1)] by simp
  ultimately show ?thesis using that by metis
qed

lemma few_held: "length held < 100 \<Longrightarrow> held_of f held k < numToCreate"
  unfolding held_of_def numToCreate_def
  using length_filter_le [of "\<lambda>a. key_of (heap f ! a) = k" held] by linarith

lemma release_one:
  assumes inv: "pool_inv f held" and a: "a \<in> set held"
  obtains f' where "Release (Some a) f = Inr (True, None, f')" "pool_inv f' (remove1 a held)" "heap f' = heap f"
proof -
  obtain f' where f': "Release (Some a) f = Inr (True, None, f')" "pool_inv f' (remove1 a held)"
    using Release_inv [OF inv a] by blast
  then have "heap f' = heap f" by (auto simp: Release_def deref_def split: option.splits if_splits)
  with f' that show ?thesis by blast
qed

lemma class_values [simp]:
  "class_Name C_BasePacket = ''BasePacket''" "class_Name C_PositionPacket = ''PositionPacket''"
  by simp_all

lemma is_a_class:
  "a < length (heap f) \<Longrightarrow> class_of (heap f ! a) = c \<Longrightarrow>
     is_a (class_Name c) (class_Type c) (class_SubType c) f (Some a) = Some ()"
  by (simp add: is_a_def deref_def GetName_def GetType_def GetSubType_def)

lemma Boilerplate_BasicBasePacketTest_passes:
  assumes len: "length buffer = 100"
  shows "Boilerplate_BasicBasePacketTest junk buffer process_start = Some process_start"
proof -
  obtain s where s: "FactoryMock_new junk process_start = Some s" "\<forall>c. typeRegistered s c"
    using FactoryMock_new_ok [of junk] by blast
  have "\<exists>b. BasePacket_SerializeOut buffer 0 p = Some (b, 7) \<and>
      (\<forall>q :: BasePacket. BasePacket_SerializeIn b 0 q = Some (p, 7))" for p :: BasePacket
    using base_trip [of 0 buffer p] len by simp
  then obtain b where b: "BasePacket_SerializeOut buffer 0 (default_BasePacket\<lparr>packetSubType := BasePacket_Type,
      gameProductId := 13, versionNumberMajor := 56, versionNumberMinor := 11, gameInstanceId := 1\<rparr>) = Some (b, 7)"
    "\<And>q :: BasePacket. BasePacket_SerializeIn b 0 q = Some (default_BasePacket\<lparr>packetSubType := BasePacket_Type,
      gameProductId := 13, versionNumberMajor := 56, versionNumberMinor := 11, gameInstanceId := 1\<rparr>, 7)"
    by blast
  show ?thesis
    unfolding Boilerplate_BasicBasePacketTest_def Let_def s(1) Option.bind.bind_lunit b prod.case
    using s(2) by (simp add: GetName_def GetSubType_def)
qed

lemma FactoryTest_Basics_passes: "FactoryTest_Basics debug junk process_start = Some process_start"
proof -
  obtain s where s: "FactoryMock_new junk process_start = Some s" "pool_inv (statics s) []"
    using FactoryMock_new_ok [of junk] by blast
  obtain a f where a: "Create_by_name debug junk (class_Name C_BasePacket) (statics s) = Inr (Some a, f)"
    "pool_inv f [a]" "heap f = heap (statics s)" "a < length (heap (statics s))"
    "class_of (heap (statics s) ! a) = C_BasePacket"
    using create_one [OF s(2) few_held] by (metis list.size(3) zero_less_numeral)
  obtain g where "Release (Some a) f = Inr (True, None, g)"
    using release_one [OF a(2), of a] by auto
  then show ?thesis
    using s(1) a is_a_class [of a f C_BasePacket] by (simp add: FactoryTest_Basics_def)
qed

lemma FactoryTest_Basics2_passes: "FactoryTest_Basics2 debug junk process_start = Some process_start"
proof -
  obtain s where s: "FactoryMock_new junk process_start = Some s" "pool_inv (statics s) []"
    using FactoryMock_new_ok [of junk] by blast
  obtain a f where a: "Create_by_name debug junk (class_Name C_BasePacket) (statics s) = Inr (Some a, f)"
    "pool_inv f [a]" "heap f = heap (statics s)" "a < length (heap f)" "class_of (heap f ! a) = C_BasePacket"
    using create_one [OF s(2) few_held, where c = C_BasePacket] by (metis list.size(3) zero_less_numeral)
  obtain b g where b: "Create_by_name debug junk (class_Name C_PositionPacket) f = Inr (Some b, g)"
    "pool_inv g [b, a]" "heap g = heap f" "b < length (heap g)" "class_of (heap g ! b) = C_PositionPacket"
    by (rule create_one [OF a(2) few_held, where c = C_PositionPacket]) auto
  obtain c h where c: "Create_by_name debug junk (class_Name C_MovementPacket) g = Inr (Some c, h)"
    "pool_inv h [c, b, a]" "heap h = heap g" "c < length (heap h)" "class_of (heap h ! c) = C_MovementPacket"
    by (rule create_one [OF b(2) few_held, where c = C_MovementPacket]) auto
  obtain h1 where h1: "Release (Some b) h = Inr (True, None, h1)" "pool_inv h1 (remove1 b [c, b, a])"
    using release_one [OF c(2), of b] by auto
  have d: "distinct [c, b, a]" using pool_inv_distinct [OF c(2)] by (auto simp: distinct_map)
  obtain h2 where h2: "Release (Some c) h1 = Inr (True, None, h2)" "pool_inv h2 [a]"
    using release_one [OF h1(2), of c] d by auto
  obtain h3 where "Release (Some a) h2 = Inr (True, None, h3)"
    using release_one [OF h2(2), of a] by auto
  then show ?thesis
    using s(1) a b c h1(1) h2(1) is_a_class [of a f C_BasePacket] is_a_class [of b g C_PositionPacket]
      is_a_class [of c h C_MovementPacket]
    by (simp add: FactoryTest_Basics2_def)
qed

section \<open>Four packets through one buffer\<close>

text \<open>One round of sampling a header, creating an object of its type and reading into it.\<close>

lemma unpack_one:
  assumes inv: "pool_inv f held" and h: "holds_at buffer off (enc_packet p)" and wt: "well_typed p"
    and few: "length held < 100"
  obtains a f' where "\<And>sampler. unpack_next debug buffer off sampler f =
      Some (base_view p, Some a, off + class_width (class_of p), f')"
    "pool_inv f' (a # held)" "heap f' = (heap f)[a := p]" "a < length (heap f)" "a \<notin> set held"
proof -
  obtain a f' where a: "Create debug (class_Type (class_of p)) (class_SubType (class_of p)) f = Inr (Some a, f')"
    "pool_inv f' (a # held)" "heap f' = heap f" "a < length (heap f)" "class_of (heap f ! a) = class_of p"
    "a \<notin> set held"
    using create_one [OF inv few_held [OF few]] by metis
  have "packet_SerializeIn buffer off (heap f ! a) = Some (p, off + class_width (class_of p))"
    using readsD [OF packet_reads [OF a(5)] h] by simp
  then have "unpack_next debug buffer off sampler f =
      Some (base_view p, Some a, off + class_width (class_of p), store (Some a) p f')" for sampler
    using probe_packet [OF h, of sampler] wt a
    by (simp add: unpack_next_def well_typed_def deref_def GetType_def GetSubType_def)
  moreover have "pool_inv (store (Some a) p f') (a # held)"
    using modify_inv [OF a(2), of p a] a(3,5) by (simp add: store_def)
  ultimately show ?thesis using that [of a "store (Some a) p f'"] a by (simp add: store_def)
qed

lemma packet_put:
  "off + class_width (class_of p) \<le> length buf \<Longrightarrow>
     packet_SerializeOut buf off p = Some (put buf off (enc_packet p), off + class_width (class_of p))"
  using writesD [OF packet_writes, of buf off p] wr_put [of off "enc_packet p" buf] by simp

text \<open>The vectors of the test: -20 degrees arrive as 340.3125.\<close>

lemma factory_test_vectors:
  obtains r where "\<And>q :: RotationCompressed. Rotation_Set q (vec3 20 17 (- 20)) = Some r"
    and "Rotation_Get r = vec3 (315 / 16) (135 / 8) (5445 / 16)"
proof (rule that)
  have "Rotation_Set \<lparr>rotation = 0\<rparr> (vec3 20 17 (- 20)) = Some \<lparr>rotation = 58770376\<rparr>" by code_simp
  then show "Rotation_Set q (vec3 20 17 (- 20)) = Some \<lparr>rotation = 58770376\<rparr>" for q :: RotationCompressed
    using Rotation_Set_independent by metis
  show "Rotation_Get \<lparr>rotation = 58770376\<rparr> = vec3 (315 / 16) (135 / 8) (5445 / 16)" by code_simp
qed

lemma factory_test_differences:
  "AbsDiffWithWrap 20 (315 / 16) 360 = Some (5 / 16)" "AbsDiffWithWrap 17 (135 / 8) 360 = Some (1 / 8)"
  "AbsDiffWithWrap (- 20) (5445 / 16) 360 = Some (5 / 16)"
proof -
  have f: "fl32 (20 - 315 / 16) = 5 / 16" "fl32 (17 - 135 / 8) = 1 / 8" "fl32 (340 - 5445 / 16) = - (5 / 16)"
    "fl32 (- 20 + 360) = 340" by code_simp+
  have w: "Wrap_float 20 360 = Some 20" "Wrap_float (315 / 16) 360 = Some (315 / 16)"
    "Wrap_float 17 360 = Some 17" "Wrap_float (135 / 8) 360 = Some (135 / 8)"
    "Wrap_float (5445 / 16) 360 = Some (5445 / 16)"
    by (rule Wrap_float_id; simp)+
  have "Wrap_float (- 20) 360 = Some 340"
    using f(4) by (simp add: Wrap_float_def Wrap_up.simps [of "- 20"] Wrap_up.simps [of 340] Wrap_down.simps)
  with f w show "AbsDiffWithWrap 20 (315 / 16) 360 = Some (5 / 16)"
    "AbsDiffWithWrap 17 (135 / 8) 360 = Some (1 / 8)"
    "AbsDiffWithWrap (- 20) (5445 / 16) 360 = Some (5 / 16)"
    by (simp_all add: AbsDiffWithWrap_def)
qed

text \<open>The receiving half: four packets of the four classes, in the order in which the test sends them.\<close>

lemma unpack_four:
  assumes inv: "pool_inv f held" and few: "length held < 97"
    and h: "holds_at buffer 0 (enc_packet A @ enc_packet C @ enc_packet M @ enc_packet P)"
    and wt: "well_typed A" "well_typed C" "well_typed M" "well_typed P"
    and cls: "class_of A = C_BasePacket" "class_of C = C_ConnectionCommsPacket"
      "class_of M = C_MovementPacket" "class_of P = C_PositionPacket"
  obtains u1 u4 u2 u3 f1 f4 f2 f3 where
    "\<And>q. unpack_next debug buffer 0 q f = Some (base_view A, Some u1, 7, f1)"
    "\<And>q. unpack_next debug buffer 7 q f1 = Some (base_view C, Some u4, 16, f4)"
    "\<And>q. unpack_next debug buffer 16 q f4 = Some (base_view M, Some u2, 45, f2)"
    "\<And>q. unpack_next debug buffer 45 q f2 = Some (base_view P, Some u3, 66, f3)"
    "pool_inv f3 (u3 # u2 # u4 # u1 # held)" "distinct (u3 # u2 # u4 # u1 # held)"
    "heap f3 ! u1 = A" "heap f3 ! u2 = M" "heap f3 ! u3 = P" "heap f3 ! u4 = C"
proof -
  have hs: "holds_at buffer 0 (enc_packet A)" "holds_at buffer 7 (enc_packet C)"
    "holds_at buffer 16 (enc_packet M)" "holds_at buffer 45 (enc_packet P)"
    using h by (simp_all add: holds_at_append cls)
  obtain u1 f1 where 1: "\<And>q. unpack_next debug buffer 0 q f = Some (base_view A, Some u1, 7, f1)"
    "pool_inv f1 (u1 # held)" "heap f1 = (heap f)[u1 := A]" "u1 < length (heap f)" "u1 \<notin> set held"
    by (rule unpack_one [OF inv hs(1) wt(1)]) (use few cls in auto)
  obtain u4 f4 where 4: "\<And>q. unpack_next debug buffer 7 q f1 = Some (base_view C, Some u4, 16, f4)"
    "pool_inv f4 (u4 # u1 # held)" "heap f4 = (heap f1)[u4 := C]" "u4 < length (heap f1)" "u4 \<notin> set (u1 # held)"
    by (rule unpack_one [OF 1(2) hs(2) wt(2)]) (use few cls in auto)
  obtain u2 f2 where 2: "\<And>q. unpack_next debug buffer 16 q f4 = Some (base_view M, Some u2, 45, f2)"
    "pool_inv f2 (u2 # u4 # u1 # held)" "heap f2 = (heap f4)[u2 := M]" "u2 < length (heap f4)"
    "u2 \<notin> set (u4 # u1 # held)"
    by (rule unpack_one [OF 4(2) hs(3) wt(3)]) (use few cls in auto)
  obtain u3 f3 where 3: "\<And>q. unpack_next debug buffer 45 q f2 = Some (base_view P, Some u3, 66, f3)"
    "pool_inv f3 (u3 # u2 # u4 # u1 # held)" "heap f3 = (heap f2)[u3 := P]" "u3 < length (heap f2)"
    "u3 \<notin> set (u2 # u4 # u1 # held)"
    by (rule unpack_one [OF 2(2) hs(4) wt(4)]) (use few cls in auto)
  have "distinct (u3 # u2 # u4 # u1 # held)" using pool_inv_distinct [OF 3(2)] by (auto simp: distinct_map)
  moreover have "heap f3 ! u1 = A" "heap f3 ! u2 = M" "heap f3 ! u3 = P" "heap f3 ! u4 = C"
    using 1(3-5) 4(3-5) 2(3-5) 3(3-5) by auto
  ultimately show ?thesis
    using that [OF 1(1) 4(1) 2(1) 3(1) 3(2)] by blast
qed

text \<open>The objects that the test sends: a connection packet and a position packet it has filled in.\<close>

definition sent_comms :: "U16 \<Rightarrow> packet" where
  "sent_comms j = Packet_Comms ((new_ConnectionCommsPacket j BasePacket_CommsHandshake)\<lparr>connectionId := 24\<rparr>)"

definition sent_position :: "PositionCompressed \<Rightarrow> RotationCompressed \<Rightarrow> packet" where
  "sent_position p r = Packet_Position
     ((new_PositionPacket ServerTick_Position)\<lparr>positionCompressed := p, rotationCompressed := r\<rparr>)"

lemma sent_class [simp]:
  "class_of (sent_comms j) = C_ConnectionCommsPacket" "class_of (sent_position p r) = C_PositionPacket"
  by (simp_all add: sent_comms_def sent_position_def)

lemma sent_well_typed: "well_typed (sent_comms j)" "well_typed (sent_position p r)"
  using new_packets_well_typed [of j C_ConnectionCommsPacket] new_packets_well_typed [of 0 C_PositionPacket]
  by (simp_all add: sent_comms_def sent_position_def well_typed_def GetType_def GetSubType_def BasePacket.defs)

lemma sent_vectors:
  obtains p r where "Position_cast_Set (vec3 1 20 (- 3)) (vec3 20 17 (- 20)) (CreateMethod j C_PositionPacket) =
      Some (sent_position p r)"
    and "Position_cast_Get (sent_position p r) = Some (vec3 1 20 (- 3), vec3 (315 / 16) (135 / 8) (5445 / 16))"
proof -
  let ?q = "new_PositionPacket ServerTick_Position"
  obtain p where p: "Position_Set (positionCompressed ?q) (vec3 1 20 (- 3)) = Some p"
    "Position_Get p = vec3 1 20 (- 3)"
    using Position_Set_int [of 1 20 "- 3" "positionCompressed ?q"] by auto
  obtain r where r: "Rotation_Set (rotationCompressed ?q) (vec3 20 17 (- 20)) = Some r"
    "Rotation_Get r = vec3 (315 / 16) (135 / 8) (5445 / 16)"
    using factory_test_vectors by metis
  from p r show ?thesis
    by (intro that [of p r]) (simp_all add: PositionPacket_Set_def PositionPacket_Get_def sent_position_def)
qed

abbreviation sent :: "U16 \<Rightarrow> PositionCompressed \<Rightarrow> RotationCompressed \<Rightarrow> bytes" where
  "sent j p r \<equiv> enc_packet (CreateMethod 0 C_BasePacket) @ enc_packet (sent_comms j) @
     enc_packet (CreateMethod 0 C_MovementPacket) @ enc_packet (sent_position p r)"

lemma sent_out:
  assumes "length buffer = 200"
  shows "packet_SerializeOut buffer 0 (CreateMethod 0 C_BasePacket) \<bind> (\<lambda>(buffer, off).
    packet_SerializeOut buffer off (sent_comms j) \<bind> (\<lambda>(buffer, off).
    packet_SerializeOut buffer off (CreateMethod 0 C_MovementPacket) \<bind> (\<lambda>(buffer, off).
    packet_SerializeOut buffer off (sent_position p r) \<bind> (\<lambda>(buffer, off). k buffer)))) =
    k (put buffer 0 (sent j p r))"
  using assms by (simp add: packet_put put_put length_put del: CreateMethod.simps)

lemma FactoryTest_send_ok:
  assumes inv: "pool_inv f []" and new: "all_new f" and len: "length buffer = 200"
  obtains a b c d j p r f' where
    "FactoryTest_send debug junk buffer f =
       Some (Some a, Some b, Some c, Some d, put buffer 0 (sent j p r), f')" "pool_inv f' [d, c, b, a]"
    "Position_cast_Get (sent_position p r) = Some (vec3 1 20 (- 3), vec3 (315 / 16) (135 / 8) (5445 / 16))"
proof -
  obtain a f1 where a: "Create_by_name debug junk (class_Name C_BasePacket) f = Inr (Some a, f1)"
    "pool_inv f1 [a]" "heap f1 = heap f" "a < length (heap f)" "class_of (heap f ! a) = C_BasePacket"
    using create_one [OF inv few_held, where c = C_BasePacket] by (metis list.size(3) zero_less_numeral)
  obtain b f2 where b: "Create debug (class_Type C_ConnectionCommsPacket) (class_SubType C_ConnectionCommsPacket) f1 =
      Inr (Some b, f2)" "pool_inv f2 [b, a]" "heap f2 = heap f1" "b < length (heap f1)"
    "class_of (heap f1 ! b) = C_ConnectionCommsPacket"
    by (rule create_one [OF a(2) few_held, where c = C_ConnectionCommsPacket]) auto
  obtain c f3 where c: "Create_by_name debug junk (class_Name C_PositionPacket) f2 = Inr (Some c, f3)"
    "pool_inv f3 [c, b, a]" "heap f3 = heap f2" "c < length (heap f2)" "class_of (heap f2 ! c) = C_PositionPacket"
    by (rule create_one [OF b(2) few_held, where c = C_PositionPacket]) auto
  obtain i j k where ijk: "heap f ! a = CreateMethod i C_BasePacket" "heap f ! b = CreateMethod j C_ConnectionCommsPacket"
    "heap f ! c = CreateMethod k C_PositionPacket"
    using all_new_nth [OF new] a(3-5) b(3-5) c(4,5) by metis
  obtain p r where pr: "Position_cast_Set (vec3 1 20 (- 3)) (vec3 20 17 (- 20)) (CreateMethod k C_PositionPacket) =
      Some (sent_position p r)"
    "Position_cast_Get (sent_position p r) = Some (vec3 1 20 (- 3), vec3 (315 / 16) (135 / 8) (5445 / 16))"
    by (rule sent_vectors)
  have dist: "distinct [c, b, a]" using pool_inv_distinct [OF c(2)] by (auto simp: distinct_map)
  define g where "g = store (Some b) (sent_comms j) (store (Some c) (sent_position p r) f3)"
  have g: "pool_inv g [c, b, a]" "heap g = (heap f)[c := sent_position p r, b := sent_comms j]"
    using modify_inv [OF modify_inv [OF c(2), of "sent_position p r" c], of "sent_comms j" b] a b c dist
    by (simp_all add: g_def store_def)
  obtain d f4 where d: "Create_by_name debug junk (class_Name C_MovementPacket) g = Inr (Some d, f4)"
    "pool_inv f4 [d, c, b, a]" "heap f4 = heap g" "d < length (heap g)" "class_of (heap g ! d) = C_MovementPacket"
    by (rule create_one [OF g(1) few_held, where c = C_MovementPacket]) auto
  have "d \<notin> {b, c}" using d(5) g(2) a(3) b c dist by auto
  then obtain m where "heap g ! d = CreateMethod m C_MovementPacket"
    using all_new_nth [OF new] d(4,5) g(2) by (metis insertCI length_list_update nth_list_update_neq)
  then have hs: "run (deref f4 (Some d)) = Some (CreateMethod 0 C_MovementPacket)"
    "run (deref f4 (Some a)) = Some (CreateMethod 0 C_BasePacket)"
    "run (deref f4 (Some b)) = Some (sent_comms j)" "run (deref f4 (Some c)) = Some (sent_position p r)"
    using pool_inv_held [OF d(2)] d(3,4) g(2) ijk dist a(3,4) b(3,4) c(3,4) by (auto simp: deref_def)
  have sets: "run (deref f3 (Some c)) = Some (CreateMethod k C_PositionPacket)"
    "run (deref (store (Some c) (sent_position p r) f3) (Some b)) = Some (CreateMethod j C_ConnectionCommsPacket)"
    "Comms_cast_set_connectionId 24 (CreateMethod j C_ConnectionCommsPacket) = Some (sent_comms j)"
    using a(3) b(3-5) c(3-5) ijk dist by (simp_all add: deref_def store_def sent_comms_def)
  have "FactoryTest_send debug junk buffer f =
      Some (Some a, Some b, Some c, Some d, put buffer 0 (sent j p r), f4)"
    unfolding FactoryTest_send_def Let_def
    using a(1,3-5) b(1,3-5) c(1,3-5) d(1) sets pr(1) hs sent_out [OF len]
     is_a_class [of a f1 C_BasePacket] is_a_class [of b f2 C_ConnectionCommsPacket]
     is_a_class [of c f3 C_PositionPacket] is_a_class [of d f4 C_MovementPacket] d(3-5)
    by (simp add: g_def [symmetric] del: CreateMethod.simps)
  then show ?thesis using that d(2) pr(2) by blast
qed

lemma FactoryTest_receive_ok:
  assumes inv: "pool_inv f [d, c, b, a]" and len: "length buffer = 200"
    and get: "Position_cast_Get (sent_position p r) = Some (vec3 1 20 (- 3), vec3 (315 / 16) (135 / 8) (5445 / 16))"
  obtains f' where
    "FactoryTest_receive debug (put buffer 0 (sent j p r)) (Some a) (Some c) (Some d) f = Some f'"
proof -
  let ?out = "put buffer 0 (sent j p r)"
  have h: "holds_at ?out 0 (sent j p r)" using len by (intro holds_put) (simp del: CreateMethod.simps)
  obtain u1 u4 u2 u3 h1 h4 h2 h3 where u:
    "\<And>q. unpack_next debug ?out 0 q f = Some (base_view (CreateMethod 0 C_BasePacket), Some u1, 7, h1)"
    "\<And>q. unpack_next debug ?out 7 q h1 = Some (base_view (sent_comms j), Some u4, 16, h4)"
    "\<And>q. unpack_next debug ?out 16 q h4 = Some (base_view (CreateMethod 0 C_MovementPacket), Some u2, 45, h2)"
    "\<And>q. unpack_next debug ?out 45 q h2 = Some (base_view (sent_position p r), Some u3, 66, h3)"
    and inv3: "pool_inv h3 [u3, u2, u4, u1, d, c, b, a]" and ud: "distinct [u3, u2, u4, u1, d, c, b, a]"
    and got: "heap h3 ! u1 = CreateMethod 0 C_BasePacket" "heap h3 ! u2 = CreateMethod 0 C_MovementPacket"
      "heap h3 ! u3 = sent_position p r" "heap h3 ! u4 = sent_comms j"
    by (rule unpack_four [where debug = debug, OF inv _ h new_packets_well_typed sent_well_typed(1)
          new_packets_well_typed sent_well_typed(2)]) (simp, simp, simp, simp, simp, rule that)
  have live: "{u1, u2, u3, u4} \<subseteq> {..<length (heap h3)}"
    using pool_inv_held [OF inv3] by auto
  have are: "is_a (class_Name x) (class_Type x) (class_SubType x) h3 (Some u) = Some ()"
    if "u \<in> {u1, u2, u3, u4}" "class_of (heap h3 ! u) = x" for u x
    using live that is_a_class by auto
  obtain e1 where e1: "Release (Some u1) h3 = Inr (True, None, e1)" "pool_inv e1 [u3, u2, u4, d, c, b, a]"
    by (rule release_one [OF inv3, of u1]) (use ud in auto)
  obtain e2 where e2: "Release (Some u2) e1 = Inr (True, None, e2)" "pool_inv e2 [u3, u4, d, c, b, a]"
    by (rule release_one [OF e1(2), of u2]) (use ud in auto)
  obtain e3 where e3: "Release (Some u3) e2 = Inr (True, None, e3)" "pool_inv e3 [u4, d, c, b, a]"
    by (rule release_one [OF e2(2), of u3]) (use ud in auto)
  obtain e4 where e4: "Release (Some d) e3 = Inr (True, None, e4)" "pool_inv e4 [u4, c, b, a]"
    by (rule release_one [OF e3(2), of d]) (use ud in auto)
  obtain e5 where e5: "Release (Some c) e4 = Inr (True, None, e5)" "pool_inv e5 [u4, b, a]"
    by (rule release_one [OF e4(2), of c]) (use ud in auto)
  obtain e6 where e6: "Release (Some a) e5 = Inr (True, None, e6)"
    by (rule release_one [OF e5(2), of a]) (use ud in auto)
  have derefs: "run (deref h3 (Some u3)) = Some (sent_position p r)" "run (deref h3 (Some u4)) = Some (sent_comms j)"
    "Comms_cast_connectionId (sent_comms j) = Some 24"
    using live got by (simp_all add: deref_def sent_comms_def)
  have close: "close_vectors (fl32 (1 / 1000)) (vec3 1 20 (- 3)) (vec3 1 20 (- 3)) = Some ()"
    "5 / 16 < fl32 (36 / 100)" "1 / 8 < fl32 (36 / 100)"
    using close_vectors_same epsilon_values(2,4) by (simp_all add: field_simps)
  have classes: "is_a ''BasePacket'' (packet_type_code PacketType_Base) BasePacket_Type h3 (Some u1) = Some ()"
    "is_a ''MovementPacket'' (packet_type_code PacketType_ServerTick) ServerTick_Movement h3 (Some u2) = Some ()"
    "is_a ''PositionPacket'' (packet_type_code PacketType_ServerTick) ServerTick_Position h3 (Some u3) = Some ()"
    "is_a ''ConnectionCommsPacket'' (packet_type_code PacketType_Base) BasePacket_CommsHandshake h3 (Some u4) = Some ()"
    using are [of u1 C_BasePacket] are [of u2 C_MovementPacket] are [of u3 C_PositionPacket]
      are [of u4 C_ConnectionCommsPacket] got by simp_all
  have vec: "vec_x (vec3 x y z) = x" "vec_y (vec3 x y z) = y" "vec_z (vec3 x y z) = z" for x y z
    by (simp_all add: vec3_def)
  show ?thesis
    by (rule that [of e6]) (simp add: FactoryTest_receive_def u derefs get close close [simplified] classes vec
      factory_test_differences e1(1) e2(1) e3(1) e4(1) e5(1) e6 del: CreateMethod.simps)
qed

lemma FactoryTest_FactoryTest_passes:
  assumes len: "length buffer = 200"
  shows "FactoryTest_FactoryTest debug junk buffer process_start = Some process_start"
proof -
  obtain s where s: "FactoryMock_new junk process_start = Some s" "pool_inv (statics s) []" "all_new (statics s)"
    using FactoryMock_new_ok [of junk] by blast
  obtain a b c d j p r f where send: "FactoryTest_send debug junk buffer (statics s) =
       Some (Some a, Some b, Some c, Some d, put buffer 0 (sent j p r), f)" "pool_inv f [d, c, b, a]"
    "Position_cast_Get (sent_position p r) = Some (vec3 1 20 (- 3), vec3 (315 / 16) (135 / 8) (5445 / 16))"
    by (rule FactoryTest_send_ok [OF s(2,3) len])
  obtain g where
    "FactoryTest_receive debug (put buffer 0 (sent j p r)) (Some a) (Some c) (Some d) f = Some g"
    by (rule FactoryTest_receive_ok [OF send(2) len send(3)])
  then show ?thesis by (simp add: FactoryTest_FactoryTest_def s(1) send(1))
qed

end
