(* ===== verification/Pool_Tests.thy ===== *)
theory Pool_Tests
  imports Factory_Tests
begin

text \<open>
  The test class \<^verbatim>\<open>UnitTestBasicNetworking_PacketMemoryPools\<close>: 100 objects of each class, told
  apart by the instance id that the test writes into them, and objects that are released and taken
  again out of the middle of a pool. An array of \<^verbatim>\<open>shared_ptr\<close> is a list of pointers, an access
  outside it is \<^term>\<open>None\<close>.

  The lemmas describe the factory by the multiset of the objects the test holds, with their
  contents (\<open>owns\<close>); each factory operation of the tests adds, changes or removes one of them.
\<close>

section \<open>The methods\<close>

text \<open>\<^verbatim>\<open>dynamic_cast\<close>; every use of the result dereferences it, so a null pointer faults.\<close>

fun derives :: "packet_class \<Rightarrow> packet_class \<Rightarrow> bool" where
  "derives C_BasePacket c \<longleftrightarrow> True"
| "derives C_PositionPacket c \<longleftrightarrow> c = C_PositionPacket \<or> c = C_MovementPacket"
| "derives t c \<longleftrightarrow> c = t"

definition dynamic_cast :: "packet_class \<Rightarrow> packet \<Rightarrow> packet option" where
  "dynamic_cast t p = (if derives t (class_of p) then Some p else None)"

definition get_at :: "pointer list \<Rightarrow> nat \<Rightarrow> pointer option" where
  "get_at ps i = (if i < length ps then Some (ps ! i) else None)"

definition set_at :: "pointer list \<Rightarrow> nat \<Rightarrow> pointer \<Rightarrow> pointer list option" where
  "set_at ps i v = (if i < length ps then Some (ps[i := v]) else None)"

text \<open>The loops that fill an array; \<open>label\<close> gives the instance id of the \<open>i\<close>-th object.\<close>

fun fill :: "bool \<Rightarrow> (addr \<Rightarrow> U16) \<Rightarrow> (nat \<Rightarrow> nat) \<Rightarrow> nat list \<Rightarrow> pointer list \<Rightarrow> factory \<Rightarrow>
    (pointer list \<times> factory) option" where
  "fill debug junk label [] packets f = Some (packets, f)"
| "fill debug junk label (i # is) packets f = do {
     (pack, f) \<leftarrow> run (Create_by_name debug junk ''BasePacket'' f);
     p \<leftarrow> run (deref f pack);
     unpacked \<leftarrow> dynamic_cast C_BasePacket p;
     packets \<leftarrow> set_at packets i pack;
     let f = store pack (set_gameInstanceId (of_nat (label i)) unpacked) f;
     fill debug junk label is packets f }"

fun fill_pairs :: "bool \<Rightarrow> (addr \<Rightarrow> U16) \<Rightarrow> nat list \<Rightarrow> pointer list \<Rightarrow> pointer list \<Rightarrow> factory \<Rightarrow>
    (pointer list \<times> pointer list \<times> factory) option" where
  "fill_pairs debug junk [] packets2 packets3 f = Some (packets2, packets3, f)"
| "fill_pairs debug junk (i # is) packets2 packets3 f = do {
     (position, f) \<leftarrow> run (Create_by_name debug junk ''PositionPacket'' f);
     (movement, f) \<leftarrow> run (Create_by_name debug junk ''MovementPacket'' f);
     p \<leftarrow> run (deref f position);
     unpackedPosition \<leftarrow> dynamic_cast C_PositionPacket p;
     p \<leftarrow> run (deref f movement);
     unpackedMove \<leftarrow> dynamic_cast C_MovementPacket p;
     packets2 \<leftarrow> set_at packets2 i position;
     let f = store position (set_gameInstanceId (of_nat (i + 200)) unpackedPosition) f;
     packets3 \<leftarrow> set_at packets3 i movement;
     let f = store movement (set_gameInstanceId (of_nat (i + 400)) unpackedMove) f;
     fill_pairs debug junk is packets2 packets3 f }"

text \<open>The checks that every instance is unique; \<open>instanceIds\<close> is the \<^verbatim>\<open>std::set\<close>.\<close>

fun verify :: "factory \<Rightarrow> pointer list \<Rightarrow> int set \<Rightarrow> int set option" where
  "verify f [] instanceIds = Some instanceIds"
| "verify f (pack # packets) instanceIds = do {
     p \<leftarrow> run (deref f pack);
     bp \<leftarrow> dynamic_cast C_BasePacket p;
     IsTrue (uint (gameInstanceId (base_view bp)) \<notin> instanceIds);
     verify f packets (insert (uint (gameInstanceId (base_view bp))) instanceIds) }"

fun verify_pairs :: "factory \<Rightarrow> (pointer \<times> pointer) list \<Rightarrow> int set \<Rightarrow> int set option" where
  "verify_pairs f [] instanceIds = Some instanceIds"
| "verify_pairs f ((pack2, pack3) # packets) instanceIds = do {
     p \<leftarrow> run (deref f pack2);
     bp \<leftarrow> dynamic_cast C_PositionPacket p;
     IsTrue (uint (gameInstanceId (base_view bp)) \<notin> instanceIds);
     let instanceIds = insert (uint (gameInstanceId (base_view bp))) instanceIds;
     p \<leftarrow> run (deref f pack3);
     bp2 \<leftarrow> dynamic_cast C_MovementPacket p;
     IsTrue (uint (gameInstanceId (base_view bp2)) \<notin> instanceIds);
     verify_pairs f packets (insert (uint (gameInstanceId (base_view bp2))) instanceIds) }"

text \<open>\<^verbatim>\<open>for (auto pack : packets)\<close> releases copies of the pointers.\<close>

fun release_all :: "pointer list \<Rightarrow> factory \<Rightarrow> factory option" where
  "release_all [] f = Some f"
| "release_all (pack # packets) f = do {
     (ok, pack, f) \<leftarrow> run (Release pack f);
     release_all packets f }"

fun release_at :: "nat list \<Rightarrow> pointer list \<Rightarrow> factory \<Rightarrow> (pointer list \<times> factory) option" where
  "release_at [] packets f = Some (packets, f)"
| "release_at (i # is) packets f = do {
     pack \<leftarrow> get_at packets i;
     (ok, pack, f) \<leftarrow> run (Release pack f);
     packets \<leftarrow> set_at packets i None;
     release_at is packets f }"

text \<open>The lines that the second test prints.\<close>

fun numbering :: "factory \<Rightarrow> nat \<Rightarrow> pointer list \<Rightarrow> (nat \<times> int) list option" where
  "numbering f i [] = Some []"
| "numbering f i (pack # packets) = do {
     p \<leftarrow> run (deref f pack);
     bp \<leftarrow> dynamic_cast C_BasePacket p;
     rest \<leftarrow> numbering f (i + 1) packets;
     Some ((i, uint (gameInstanceId (base_view bp))) # rest) }"

definition FactoryTest_ValidateUniqueness :: "bool \<Rightarrow> (addr \<Rightarrow> U16) \<Rightarrow> test_process \<Rightarrow> test_process option" where
  "FactoryTest_ValidateUniqueness debug junk s = do {
     s \<leftarrow> FactoryMock_new junk s;
     let num = 100;
     (packets, f) \<leftarrow> fill debug junk (\<lambda>i. i) [0..<num] (replicate num None) (statics s);
     instanceIds \<leftarrow> verify f packets {};
     (packets2, packets3, f) \<leftarrow>
       fill_pairs debug junk [0..<num] (replicate num None) (replicate num None) f;
     instanceIds \<leftarrow> verify_pairs f (zip packets2 packets3) instanceIds;
     f \<leftarrow> release_all packets f;
     f \<leftarrow> release_all packets2 f;
     f \<leftarrow> release_all packets3 f;
     Some (FactoryMock_delete (s\<lparr>statics := f\<rparr>)) }"

definition FactoryTest_DeleteItemsInMiddle ::
  "bool \<Rightarrow> (addr \<Rightarrow> U16) \<Rightarrow> test_process \<Rightarrow> (test_process \<times> (nat \<times> int) list) option" where
  "FactoryTest_DeleteItemsInMiddle debug junk s = do {
     s \<leftarrow> FactoryMock_new junk s;
     let num = 100;
     (packets, f) \<leftarrow> fill debug junk (\<lambda>i. i) [0..<num] (replicate num None) (statics s);
     (packets, f) \<leftarrow> release_at [45..<55] packets f;
     (packets, f) \<leftarrow> fill debug junk (\<lambda>i. i + 100) [45..<55] packets f;
     (packets, f) \<leftarrow> release_at (map (\<lambda>i. 2 * i) [0..<50]) packets f;
     (packets, f) \<leftarrow> fill debug junk (\<lambda>i. i + 200) (map (\<lambda>i. 2 * i) [0..<50]) packets f;
     output \<leftarrow> numbering f 0 packets;
     Some (FactoryMock_delete (s\<lparr>statics := f\<rparr>), output) }"

section \<open>The objects that a test holds\<close>

type_synonym held_objects = "(addr \<times> packet) multiset"

definition owns :: "factory \<Rightarrow> held_objects \<Rightarrow> bool" where
  "owns f M \<longleftrightarrow> (\<exists>es. mset es = M \<and> pool_inv f (map fst es)) \<and> list_all well_typed (heap f) \<and>
     (\<forall>(a, p)\<in>#M. heap f ! a = p)"

definition number_of :: "packet_class \<Rightarrow> held_objects \<Rightarrow> nat" where
  "number_of c M = size (filter_mset (\<lambda>(a, p). class_of p = c) M)"

lemma number_of_simps [simp]:
  "number_of c {#} = 0"
  "number_of c (add_mset (a, p) M) = number_of c M + (if class_of p = c then 1 else 0)"
  "number_of c (M + N) = number_of c M + number_of c N"
  by (simp_all add: number_of_def)

lemma class_of_set_gameInstanceId [simp]:
  "class_of (set_gameInstanceId v p) = class_of p" "gameInstanceId (base_view (set_gameInstanceId v p)) = v"
  by (cases p; simp add: BasePacket.defs)+

lemma well_typed_set_gameInstanceId [simp]: "well_typed (set_gameInstanceId v p) = well_typed p"
  by (cases p) (simp_all add: well_typed_def GetType_def GetSubType_def BasePacket.defs)

lemma held_of_number:
  assumes "\<forall>(a, p)\<in>set es. heap f ! a = p"
  shows "held_of f (map fst es) (class_key c) = number_of c (mset es)"
  using assms
proof (induction es)
  case (Cons e es)
  then show ?case using class_key_inj [of "class_of (snd e)" c]
    by (cases e) (simp add: held_of_def key_of_class)
qed (simp add: held_of_def)

lemma owns_obtain:
  assumes "owns f (add_mset (a, p) M)"
  obtains es where "pool_inv f (a # map fst es)" "mset es = M"
proof -
  obtain es where es: "mset es = add_mset (a, p) M" "pool_inv f (map fst es)"
    using assms by (auto simp: owns_def)
  have "mset (map fst es) = add_mset a (image_mset fst M)" by (simp add: es(1))
  moreover obtain fs where fs: "mset fs = M" by (metis ex_mset)
  ultimately have "pool_inv f (a # map fst fs)" by (intro pool_inv_mset [OF es(2)]) simp
  with fs that show ?thesis by blast
qed

lemma owns_content: "owns f M \<Longrightarrow> (b, x) \<in># M \<Longrightarrow> heap f ! b = x"
  by (auto simp: owns_def)

lemma owns_object: "owns f (add_mset (a, p) M) \<Longrightarrow> a < length (heap f) \<and> heap f ! a = p"
proof -
  assume o: "owns f (add_mset (a, p) M)"
  then obtain es where "pool_inv f (a # map fst es)" "mset es = M" using owns_obtain [OF o] by blast
  then have "a < length (heap f)" using pool_inv_held by fastforce
  then show ?thesis using owns_content [OF o, of a p] by simp
qed

lemma owns_deref: "owns f (add_mset (a, p) M) \<Longrightarrow> deref f (Some a) = Inr p"
  using owns_object by (simp add: deref_def)

lemma owns_typed:
  assumes "owns f (add_mset (a, p) M)"
  shows "well_typed p"
  using owns_object [OF assms] assms nth_mem [of a "heap f"] by (auto simp: owns_def list_all_iff)

lemma owns_write:
  assumes o: "owns f (add_mset (a, p) M)" and q: "class_of q = class_of p" "well_typed q"
  shows "owns (store (Some a) q f) (add_mset (a, q) M)"
proof -
  obtain es where es: "pool_inv f (a # map fst es)" "mset es = M" using owns_obtain [OF o] by blast
  note a = owns_object [OF o]
  have "pool_inv (store (Some a) q f) (a # map fst es)"
    using modify_inv [OF es(1), of q a] a q(1) by (simp add: store_def)
  then have "\<exists>fs. mset fs = add_mset (a, q) M \<and> pool_inv (store (Some a) q f) (map fst fs)"
    using es(2) by (intro exI [of _ "(a, q) # es"]) simp
  moreover have "a \<notin> set (map fst es)" using pool_inv_distinct [OF es(1)] by (auto simp: distinct_map)
  then have "(a, x) \<notin># M" for x using es(2) by force
  moreover have "list_all well_typed ((heap f)[a := q])"
    using o q(2) by (auto simp: owns_def list_all_iff dest!: set_update_subset_insert [THEN subsetD])
  ultimately show ?thesis using a owns_content [OF o] by (auto simp: owns_def store_def nth_list_update)
qed

lemma owns_create:
  assumes o: "owns f M" and few: "number_of c M < 100"
  obtains a p g where "Create debug (class_Type c) (class_SubType c) f = Inr (Some a, g)"
    "Create_by_name debug junk (class_Name c) f = Inr (Some a, g)"
    "owns g (add_mset (a, p) M)" "class_of p = c" "heap g = heap f"
proof -
  obtain es where es: "mset es = M" "pool_inv f (map fst es)" using o by (auto simp: owns_def)
  have eq: "\<forall>(a, p)\<in>set es. heap f ! a = p" using o es(1) by (auto simp: owns_def)
  then have "held_of f (map fst es) (class_key c) < numToCreate"
    using few es(1) by (simp add: held_of_number numToCreate_def)
  then obtain a g where g: "Create debug (class_Type c) (class_SubType c) f = Inr (Some a, g)"
    "Create_by_name debug junk (class_Name c) f = Inr (Some a, g)"
    "pool_inv g (a # map fst es)" "heap g = heap f" "class_of (heap f ! a) = c"
    using create_one [OF es(2)] by metis
  have "owns g (add_mset (a, heap f ! a) M)"
    unfolding owns_def using g(3,4) es(1) o
    by (auto simp: owns_def intro!: exI [of _ "(a, heap f ! a) # es"])
  then show ?thesis using that [of a g "heap f ! a"] g by simp
qed

lemma owns_release:
  assumes "owns f (add_mset (a, p) M)"
  obtains g where "Release (Some a) f = Inr (True, None, g)" "owns g M"
proof -
  obtain es where es: "pool_inv f (a # map fst es)" "mset es = M" using owns_obtain [OF assms] by blast
  obtain g where g: "Release (Some a) f = Inr (True, None, g)"
    "pool_inv g (remove1 a (a # map fst es))" "heap g = heap f"
    by (rule release_one [OF es(1), of a]) simp_all
  then have "owns g M" using assms es(2) by (auto simp: owns_def)
  with g(1) that show ?thesis by blast
qed

lemma owns_start:
  obtains s where "FactoryMock_new junk process_start = Some s" "owns (statics s) {#}"
proof -
  obtain s where s: "FactoryMock_new junk process_start = Some s" "pool_inv (statics s) []" "all_new (statics s)"
    using FactoryMock_new_ok [of junk] by blast
  have "list_all well_typed (heap (statics s))"
    using s(3) new_packets_well_typed unfolding all_new_def list_all_iff by metis
  with s that show ?thesis by (simp add: owns_def)
qed

section \<open>Arrays of pointers\<close>

type_synonym slots = "(addr \<times> packet) option list"

definition ptrs :: "slots \<Rightarrow> pointer list" where
  "ptrs os = map (map_option fst) os"

primrec objects :: "slots \<Rightarrow> held_objects" where
  "objects [] = {#}"
| "objects (e # os) = (case e of None \<Rightarrow> {#} | Some x \<Rightarrow> {#x#}) + objects os"

lemma objects_fill: "i < length os \<Longrightarrow> os ! i = None \<Longrightarrow> objects (os[i := Some e]) = add_mset e (objects os)"
  by (induction os arbitrary: i) (auto split: nat.splits option.splits simp: nth_Cons)

lemma objects_clear: "i < length os \<Longrightarrow> os ! i = Some e \<Longrightarrow> objects os = add_mset e (objects (os[i := None]))"
  by (induction os arbitrary: i) (auto split: nat.splits option.splits simp: nth_Cons)

lemma objects_full [simp]: "objects (map Some es) = mset es" "objects (replicate n None) = {#}"
  by (induction es, simp_all, induction n, simp_all)

lemma ptrs_simps [simp]:
  "length (ptrs os) = length os" "ptrs (replicate n None) = replicate n None" "ptrs [] = []"
  "ptrs (map Some es) = map (\<lambda>e. Some (fst e)) es" "ptrs (os[i := e]) = (ptrs os)[i := map_option fst e]"
  by (simp_all add: ptrs_def map_update)

lemma array_access [simp]:
  "i < length os \<Longrightarrow> get_at (ptrs os) i = Some (map_option fst (os ! i))"
  "i < length os \<Longrightarrow> set_at (ptrs os) i p = Some ((ptrs os)[i := p])"
  by (simp_all add: get_at_def set_at_def ptrs_def)

lemma full_array:
  assumes "\<forall>i<length os. os ! i \<noteq> None"
  obtains es where "os = map Some es"
proof (rule that [of "map the os"])
  show "os = map Some (map the os)" by (rule nth_equalityI) (use assms in auto)
qed

text \<open>What filling the places \<open>is\<close> with objects of class \<open>c\<close> does to an array.\<close>

definition filled :: "packet_class \<Rightarrow> (nat \<Rightarrow> nat) \<Rightarrow> nat list \<Rightarrow> slots \<Rightarrow> slots \<Rightarrow> bool" where
  "filled c label is os os' \<longleftrightarrow> length os' = length os \<and> (\<forall>j. j \<notin> set is \<longrightarrow> os' ! j = os ! j) \<and>
     (\<forall>i\<in>set is. \<exists>a p. os' ! i = Some (a, p) \<and> class_of p = c \<and>
        gameInstanceId (base_view p) = of_nat (label i)) \<and>
     (\<forall>k. number_of k (objects os') = number_of k (objects os) + (if k = c then length is else 0))"

lemma filled_Nil [simp]: "filled c label [] os os"
  by (simp add: filled_def)

lemma filled_Cons:
  assumes "filled c label is (os[i := Some (a, p)]) os'" and "i \<notin> set is" "i < length os" "os ! i = None"
    and "class_of p = c" "gameInstanceId (base_view p) = of_nat (label i)"
  shows "filled c label (i # is) os os'"
  using assms unfolding filled_def by (auto simp: objects_fill nth_list_update split: if_splits)

lemma fill_ok:
  assumes "owns f (objects os + R)" "distinct is" "\<forall>i\<in>set is. i < length os \<and> os ! i = None"
    and "number_of C_BasePacket (objects os + R) + length is \<le> 100"
  shows "\<exists>os' f'. fill debug junk label is (ptrs os) f = Some (ptrs os', f') \<and> owns f' (objects os' + R) \<and>
    filled C_BasePacket label is os os'"
  using assms
proof (induction "is" arbitrary: os f)
  case Nil
  then show ?case by auto
next
  case (Cons i "is")
  have few: "number_of C_BasePacket (objects os + R) < 100" using Cons.prems(4) by simp
  obtain a p g where g: "Create_by_name debug junk (class_Name C_BasePacket) f = Inr (Some a, g)"
    "owns g (add_mset (a, p) (objects os + R))" "class_of p = C_BasePacket"
    by (rule owns_create [OF Cons.prems(1) few, of debug junk]) (rule that)
  let ?q = "set_gameInstanceId (of_nat (label i)) p"
  let ?os = "os[i := Some (a, ?q)]"
  let ?g = "store (Some a) ?q g"
  have i: "i < length os" "os ! i = None" "i \<notin> set is" using Cons.prems(2,3) by auto
  have "owns ?g (add_mset (a, ?q) (objects os + R))"
    using owns_write [OF g(2), of ?q] owns_typed [OF g(2)] by simp
  then have o: "owns ?g (objects ?os + R)" using i by (simp add: objects_fill)
  have "number_of C_BasePacket (objects ?os + R) + length is \<le> 100"
    using Cons.prems(4) i g(3) by (simp add: objects_fill)
  moreover have "\<forall>j\<in>set is. j < length ?os \<and> ?os ! j = None"
    using Cons.prems(3) i by (auto simp: nth_list_update)
  ultimately obtain os' f' where o': "fill debug junk label is (ptrs ?os) ?g = Some (ptrs os', f')"
    "owns f' (objects os' + R)" "filled C_BasePacket label is ?os os'"
    using Cons.IH [OF o] Cons.prems(2) by auto
  have "fill debug junk label (i # is) (ptrs os) f = Some (ptrs os', f')"
    using g(1) owns_deref [OF g(2)] i(1) o'(1) by (simp add: dynamic_cast_def)
  moreover have "filled C_BasePacket label (i # is) os os'"
    by (rule filled_Cons [OF o'(3) i(3,1,2)]) (simp_all add: g(3))
  ultimately show ?case using o'(2) by blast
qed

lemma release_at_ok:
  assumes "owns f (objects os + R)" "distinct is"
    and "\<forall>i\<in>set is. i < length os \<and> (\<exists>a p. os ! i = Some (a, p) \<and> class_of p = c)"
  shows "\<exists>os' f'. release_at is (ptrs os) f = Some (ptrs os', f') \<and> owns f' (objects os' + R) \<and>
    length os' = length os \<and> (\<forall>j. os' ! j = (if j \<in> set is then None else os ! j)) \<and>
    number_of c (objects os') + length is = number_of c (objects os)"
  using assms
proof (induction "is" arbitrary: os f)
  case Nil
  then show ?case by auto
next
  case (Cons i "is")
  obtain a p where i: "i < length os" "os ! i = Some (a, p)" "class_of p = c" "i \<notin> set is"
    using Cons.prems(2,3) by auto
  let ?os = "os[i := None]"
  note clear = objects_clear [OF i(1,2)]
  have "owns f (add_mset (a, p) (objects ?os + R))" using Cons.prems(1) clear by simp
  then obtain g where g: "Release (Some a) f = Inr (True, None, g)" "owns g (objects ?os + R)"
    by (rule owns_release)
  have "\<forall>j\<in>set is. j < length ?os \<and> (\<exists>a p. ?os ! j = Some (a, p) \<and> class_of p = c)"
    using Cons.prems(3) i(4) by (auto simp: nth_list_update)
  then obtain os' f' where o': "release_at is (ptrs ?os) g = Some (ptrs os', f')" "owns f' (objects os' + R)"
    "length os' = length ?os" "\<forall>j. os' ! j = (if j \<in> set is then None else ?os ! j)"
    "number_of c (objects os') + length is = number_of c (objects ?os)"
    using Cons.IH [OF g(2)] Cons.prems(2) by auto
  have "release_at (i # is) (ptrs os) f = Some (ptrs os', f')"
    using i(1,2) g(1) o'(1) by simp
  moreover have "number_of c (objects os') + length (i # is) = number_of c (objects os)"
    using o'(5) clear i(3) by simp
  ultimately show ?case using o'(2-4) i(1) by (auto simp: nth_list_update)
qed

text \<open>Loops over full arrays, and over the printed numbers.\<close>

definition id_of :: "addr \<times> packet \<Rightarrow> int" where
  "id_of e = uint (gameInstanceId (base_view (snd e)))"

lemma owns_member: "owns f M \<Longrightarrow> (a, p) \<in># M \<Longrightarrow> deref f (Some a) = Inr p"
  by (metis owns_deref multi_member_split)

lemma verify_ok:
  assumes "owns f M" "set es \<subseteq> set_mset M" "distinct (map id_of es)" "id_of ` set es \<inter> S = {}"
  shows "verify f (map (\<lambda>e. Some (fst e)) es) S = Some (S \<union> id_of ` set es)"
  using assms(2-)
proof (induction es arbitrary: S)
  case (Cons e es)
  then show ?case using owns_member [OF assms(1), of "fst e" "snd e"]
    by (auto simp: dynamic_cast_def id_of_def IsTrue_def)
qed simp

lemma numbering_ok:
  assumes "owns f M" "set es \<subseteq> set_mset M"
  shows "numbering f i (map (\<lambda>e. Some (fst e)) es) = Some (zip [i..<i + length es] (map id_of es))"
  using assms(2)
proof (induction es arbitrary: i)
  case (Cons e es)
  then show ?case using owns_member [OF assms(1), of "fst e" "snd e"]
    by (simp add: dynamic_cast_def id_of_def upt_conv_Cons del: upt_Suc)
qed simp

lemma release_all_ok:
  "owns f (mset es + R) \<Longrightarrow> \<exists>f'. release_all (map (\<lambda>e. Some (fst e)) es) f = Some f' \<and> owns f' R"
proof (induction es arbitrary: f)
  case (Cons e es)
  have "owns f (add_mset (fst e, snd e) (mset es + R))" using Cons.prems by simp
  then obtain g where "Release (Some (fst e)) f = Inr (True, None, g)" "owns g (mset es + R)"
    by (rule owns_release)
  with Cons.IH show ?case by auto
qed auto

lemma fill_pairs_ok:
  assumes "owns f (objects os2 + objects os3 + R)" "distinct is"
    and "\<forall>i\<in>set is. i < length os2 \<and> os2 ! i = None" "\<forall>i\<in>set is. i < length os3 \<and> os3 ! i = None"
    and "\<forall>c\<in>{C_PositionPacket, C_MovementPacket}.
      number_of c (objects os2 + objects os3 + R) + length is \<le> 100"
  shows "\<exists>os2' os3' f'. fill_pairs debug junk is (ptrs os2) (ptrs os3) f = Some (ptrs os2', ptrs os3', f') \<and>
    owns f' (objects os2' + objects os3' + R) \<and>
    filled C_PositionPacket (\<lambda>i. i + 200) is os2 os2' \<and> filled C_MovementPacket (\<lambda>i. i + 400) is os3 os3'"
  using assms
proof (induction "is" arbitrary: os2 os3 f)
  case Nil
  then show ?case by (intro exI [of _ os2] exI [of _ os3] exI [of _ f]) simp
next
  case (Cons i "is")
  let ?M = "objects os2 + objects os3 + R"
  have few: "number_of C_PositionPacket ?M < 100" "number_of C_MovementPacket ?M < 100"
    using Cons.prems(5) by simp_all
  obtain a p g where g: "Create_by_name debug junk (class_Name C_PositionPacket) f = Inr (Some a, g)"
    "owns g (add_mset (a, p) ?M)" "class_of p = C_PositionPacket"
    by (rule owns_create [OF Cons.prems(1) few(1), of debug junk]) (rule that)
  have few': "number_of C_MovementPacket (add_mset (a, p) ?M) < 100" using few(2) g(3) by simp
  obtain b q h where h: "Create_by_name debug junk (class_Name C_MovementPacket) g = Inr (Some b, h)"
    "owns h (add_mset (b, q) (add_mset (a, p) ?M))" "class_of q = C_MovementPacket"
    by (rule owns_create [OF g(2) few', of debug junk]) (rule that)
  let ?p = "set_gameInstanceId (of_nat (i + 200)) p" and ?q = "set_gameInstanceId (of_nat (i + 400)) q"
  let ?os2 = "os2[i := Some (a, ?p)]" and ?os3 = "os3[i := Some (b, ?q)]"
  let ?h = "store (Some b) ?q (store (Some a) ?p h)"
  have i: "i < length os2" "os2 ! i = None" "i < length os3" "os3 ! i = None" "i \<notin> set is"
    using Cons.prems(2-4) by auto
  have h': "owns h (add_mset (a, p) (add_mset (b, q) ?M))" using h(2) by (simp add: add_mset_commute)
  have "owns (store (Some a) ?p h) (add_mset (a, ?p) (add_mset (b, q) ?M))"
    using owns_write [OF h', of ?p] owns_typed [OF h'] by simp
  then have w: "owns (store (Some a) ?p h) (add_mset (b, q) (add_mset (a, ?p) ?M))"
    by (simp add: add_mset_commute)
  have "owns ?h (add_mset (b, ?q) (add_mset (a, ?p) ?M))"
    using owns_write [OF w, of ?q] owns_typed [OF w] by simp
  then have o: "owns ?h (objects ?os2 + objects ?os3 + R)"
    using i by (simp add: objects_fill add_mset_commute)
  have "\<forall>c\<in>{C_PositionPacket, C_MovementPacket}.
      number_of c (objects ?os2 + objects ?os3 + R) + length is \<le> 100"
    using Cons.prems(5) i g(3) h(3) by (simp add: objects_fill)
  moreover have "\<forall>j\<in>set is. j < length ?os2 \<and> ?os2 ! j = None" "\<forall>j\<in>set is. j < length ?os3 \<and> ?os3 ! j = None"
    using Cons.prems(3,4) i by (auto simp: nth_list_update)
  ultimately obtain os2' os3' f' where
    o': "fill_pairs debug junk is (ptrs ?os2) (ptrs ?os3) ?h = Some (ptrs os2', ptrs os3', f')"
    "owns f' (objects os2' + objects os3' + R)" "filled C_PositionPacket (\<lambda>i. i + 200) is ?os2 os2'"
    "filled C_MovementPacket (\<lambda>i. i + 400) is ?os3 os3'"
    using Cons.IH [OF o] Cons.prems(2) by auto
  have "fill_pairs debug junk (i # is) (ptrs os2) (ptrs os3) f = Some (ptrs os2', ptrs os3', f')"
    using g(1,3) h(1,3) owns_deref [OF h(2)] owns_deref [OF h'] i o'(1) by (simp add: dynamic_cast_def)
  moreover have "filled C_PositionPacket (\<lambda>i. i + 200) (i # is) os2 os2'"
    by (rule filled_Cons [OF o'(3) i(5,1,2)]) (simp_all add: g(3))
  moreover have "filled C_MovementPacket (\<lambda>i. i + 400) (i # is) os3 os3'"
    by (rule filled_Cons [OF o'(4) i(5,3,4)]) (simp_all add: h(3))
  ultimately show ?case using o'(2) by blast
qed

lemma verify_pairs_ok:
  assumes "owns f M" "length es = length fs" "set (es @ fs) \<subseteq> set_mset M"
    and "\<forall>e\<in>set es. class_of (snd e) = C_PositionPacket" "\<forall>e\<in>set fs. class_of (snd e) = C_MovementPacket"
    and "distinct (map id_of (es @ fs))" "id_of ` set (es @ fs) \<inter> S = {}"
  shows "\<exists>T. verify_pairs f (zip (map (\<lambda>e. Some (fst e)) es) (map (\<lambda>e. Some (fst e)) fs)) S = Some T"
  using assms(2-)
proof (induction es fs arbitrary: S rule: list_induct2)
  case (Cons e es e' fs)
  let ?S = "insert (id_of e') (insert (id_of e) S)"
  have "\<exists>T. verify_pairs f (zip (map (\<lambda>e. Some (fst e)) es) (map (\<lambda>e. Some (fst e)) fs)) ?S = Some T"
    by (rule Cons.IH) (use Cons.prems in auto)
  then show ?case
    using Cons.prems owns_member [OF assms(1), of "fst e" "snd e"] owns_member [OF assms(1), of "fst e'" "snd e'"]
    by (auto simp: dynamic_cast_def id_of_def IsTrue_def)
qed simp

section \<open>The tests pass\<close>

lemma filled_array:
  assumes "filled c label [0..<n] (replicate n None) os" and "\<forall>i<n. label i < 65536"
  obtains es where "os = map Some es" "length es = n" "map id_of es = map (int \<circ> label) [0..<n]"
    "\<forall>e\<in>set es. class_of (snd e) = c" "\<And>k. number_of k (mset es) = (if k = c then n else 0)"
proof -
  have os: "length os = n" "\<forall>i<n. \<exists>a p. os ! i = Some (a, p) \<and> class_of p = c \<and>
      gameInstanceId (base_view p) = of_nat (label i)"
    using assms(1) by (auto simp: filled_def)
  then obtain es where es: "os = map Some es" using full_array [of os] by blast
  with os have n: "length es = n" "\<forall>i<n. class_of (snd (es ! i)) = c \<and>
      gameInstanceId (base_view (snd (es ! i))) = of_nat (label i)"
    by (simp, metis (no_types, lifting) length_map nth_map option.sel snd_conv)
  have "id_of (es ! i) = int (label i)" if "i < n" for i
    using that n(2) assms(2) by (simp add: id_of_def unsigned_of_nat take_bit_nat_eq_self)
  then have "map id_of es = map (int \<circ> label) [0..<n]" using n(1) by (simp add: list_eq_iff_nth_eq)
  moreover have "\<forall>e\<in>set es. class_of (snd e) = c" using n by (metis in_set_conv_nth)
  moreover have "number_of k (mset es) = (if k = c then n else 0)" for k
    using assms(1) by (simp add: filled_def es)
  ultimately show ?thesis using that es n(1) by blast
qed

lemma filled_start: "objects (replicate n None) + R = R"
  by simp

lemma FactoryTest_ValidateUniqueness_passes:
  "FactoryTest_ValidateUniqueness debug junk process_start = Some process_start"
proof -
  obtain s where s: "FactoryMock_new junk process_start = Some s" "owns (statics s) {#}"
    by (rule owns_start)
  let ?none = "replicate 100 None :: slots"
  obtain os f1 where 1: "fill debug junk (\<lambda>i. i) [0..<100] (ptrs ?none) (statics s) = Some (ptrs os, f1)"
    "owns f1 (objects os + {#})" "filled C_BasePacket (\<lambda>i. i) [0..<100] ?none os"
    using fill_ok [of "statics s" ?none "{#}" "[0..<100]" debug junk "\<lambda>i. i"] s(2) by auto
  obtain es where es: "os = map Some es" "length es = 100" "map id_of es = map int [0..<100]"
    "\<And>k. number_of k (mset es) = (if k = C_BasePacket then 100 else 0)"
    by (rule filled_array [OF 1(3)]) (auto simp: comp_def)
  have v: "verify f1 (map (\<lambda>e. Some (fst e)) es) {} = Some (id_of ` set es)"
    using verify_ok [of f1 "mset es" es "{}"] 1(2) es by (simp add: distinct_map inj_on_def)
  have "\<exists>os2 os3 f2. fill_pairs debug junk [0..<100] (ptrs ?none) (ptrs ?none) f1 =
        Some (ptrs os2, ptrs os3, f2) \<and> owns f2 (objects os2 + objects os3 + mset es) \<and>
      filled C_PositionPacket (\<lambda>i. i + 200) [0..<100] ?none os2 \<and>
      filled C_MovementPacket (\<lambda>i. i + 400) [0..<100] ?none os3"
    by (rule fill_pairs_ok) (use 1(2) es in auto)
  then obtain os2 os3 f2 where 2: "fill_pairs debug junk [0..<100] (ptrs ?none) (ptrs ?none) f1 =
      Some (ptrs os2, ptrs os3, f2)" "owns f2 (objects os2 + objects os3 + mset es)"
    "filled C_PositionPacket (\<lambda>i. i + 200) [0..<100] ?none os2"
    "filled C_MovementPacket (\<lambda>i. i + 400) [0..<100] ?none os3" by blast
  obtain es2 where es2: "os2 = map Some es2" "length es2 = 100" "map id_of es2 = map (\<lambda>i. int (i + 200)) [0..<100]"
    "\<forall>e\<in>set es2. class_of (snd e) = C_PositionPacket"
    by (rule filled_array [OF 2(3)]) (auto simp: comp_def)
  obtain es3 where es3: "os3 = map Some es3" "length es3 = 100" "map id_of es3 = map (\<lambda>i. int (i + 400)) [0..<100]"
    "\<forall>e\<in>set es3. class_of (snd e) = C_MovementPacket"
    by (rule filled_array [OF 2(4)]) (auto simp: comp_def)
  have ids: "id_of ` set es = int ` {0..<100}" "id_of ` set es2 = (\<lambda>i. int (i + 200)) ` {0..<100}"
    "id_of ` set es3 = (\<lambda>i. int (i + 400)) ` {0..<100}"
    using arg_cong [OF es(3), of set] arg_cong [OF es2(3), of set] arg_cong [OF es3(3), of set]
    by (simp_all only: set_map set_upt)
  have "\<exists>T. verify_pairs f2 (zip (map (\<lambda>e. Some (fst e)) es2) (map (\<lambda>e. Some (fst e)) es3)) (id_of ` set es) = Some T"
  proof (rule verify_pairs_ok [OF 2(2)])
    show "distinct (map id_of (es2 @ es3))"
      unfolding map_append es2(3) es3(3) by (auto simp: distinct_map inj_on_def)
    show "id_of ` set (es2 @ es3) \<inter> id_of ` set es = {}"
      unfolding set_append image_Un ids by auto
  qed (use es2 es3 in auto)
  then obtain T where v2: "verify_pairs f2 (zip (map (\<lambda>e. Some (fst e)) es2) (map (\<lambda>e. Some (fst e)) es3))
      (id_of ` set es) = Some T" by blast
  have o: "owns f2 (mset es + (mset es2 + (mset es3 + {#})))" using 2(2) es2(1) es3(1) by (simp add: ac_simps)
  obtain f3 where f3: "release_all (map (\<lambda>e. Some (fst e)) es) f2 = Some f3" "owns f3 (mset es2 + (mset es3 + {#}))"
    using release_all_ok [OF o] by blast
  obtain f4 where f4: "release_all (map (\<lambda>e. Some (fst e)) es2) f3 = Some f4" "owns f4 (mset es3 + {#})"
    using release_all_ok [OF f3(2)] by blast
  obtain f5 where f5: "release_all (map (\<lambda>e. Some (fst e)) es3) f4 = Some f5"
    using release_all_ok [OF f4(2)] by blast
  show ?thesis
    using 1(1) 2(1) v v2 f3(1) f4(1) f5 es(1) es2(1) es3(1)
    by (simp add: FactoryTest_ValidateUniqueness_def s(1) Let_def)
qed

text \<open>An array of 100 base packets, with the instance ids of their places.\<close>

definition numbered :: "(nat \<Rightarrow> nat) \<Rightarrow> slots \<Rightarrow> bool" where
  "numbered label os \<longleftrightarrow> length os = 100 \<and> number_of C_BasePacket (objects os) = 100 \<and>
     (\<forall>i<100. \<exists>a p. os ! i = Some (a, p) \<and> class_of p = C_BasePacket \<and>
        gameInstanceId (base_view p) = of_nat (label i))"

lemma refill_ok:
  assumes o: "owns f (objects os)" and n: "numbered label os" and d: "distinct is" "set is \<subseteq> {..<100}"
  shows "\<exists>os' f' os'' f''. release_at is (ptrs os) f = Some (ptrs os', f') \<and>
    fill debug junk new is (ptrs os') f' = Some (ptrs os'', f'') \<and> owns f'' (objects os'') \<and>
    numbered (\<lambda>i. if i \<in> set is then new i else label i) os''"
proof -
  have "owns f (objects os + {#})" using o by simp
  moreover have "\<forall>i\<in>set is. i < length os \<and> (\<exists>a p. os ! i = Some (a, p) \<and> class_of p = C_BasePacket)"
    using n d(2) unfolding numbered_def by (auto dest!: subsetD)
  ultimately obtain os' f' where r: "release_at is (ptrs os) f = Some (ptrs os', f')" "owns f' (objects os' + {#})"
    "length os' = length os" "\<forall>j. os' ! j = (if j \<in> set is then None else os ! j)"
    "number_of C_BasePacket (objects os') + length is = number_of C_BasePacket (objects os)"
    using release_at_ok [OF _ d(1)] by blast
  have "\<forall>i\<in>set is. i < length os' \<and> os' ! i = None"
    using r(3,4) n d(2) by (auto simp: numbered_def)
  then obtain os'' f'' where w: "fill debug junk new is (ptrs os') f' = Some (ptrs os'', f'')"
    "owns f'' (objects os'' + {#})" "filled C_BasePacket new is os' os''"
    using fill_ok [OF r(2) d(1)] r(5) n by (metis (no_types, lifting) numbered_def number_of_simps(1,3) add_0_right order_refl)
  have "numbered (\<lambda>i. if i \<in> set is then new i else label i) os''"
    using w(3) r(3-5) n unfolding numbered_def filled_def by auto
  with r(1) w(1,2) show ?thesis by (intro exI conjI) auto
qed

lemma FactoryTest_DeleteItemsInMiddle_prints:
  "FactoryTest_DeleteItemsInMiddle debug junk process_start = Some (process_start,
     map (\<lambda>i. (i, int (if even i then i + 200 else if 45 \<le> i \<and> i < 55 then i + 100 else i))) [0..<100])"
proof -
  obtain s where s: "FactoryMock_new junk process_start = Some s" "owns (statics s) {#}"
    by (rule owns_start)
  let ?none = "replicate 100 None :: slots"
  obtain os f1 where 1: "fill debug junk (\<lambda>i. i) [0..<100] (ptrs ?none) (statics s) = Some (ptrs os, f1)"
    "owns f1 (objects os + {#})" "filled C_BasePacket (\<lambda>i. i) [0..<100] ?none os"
    using fill_ok [of "statics s" ?none "{#}" "[0..<100]" debug junk "\<lambda>i. i"] s(2) by auto
  have n: "numbered (\<lambda>i. i) os" using 1(3) by (auto simp: numbered_def filled_def)
  let ?l2 = "\<lambda>i. if i \<in> set [45..<55] then i + 100 else i"
  have "owns f1 (objects os)" using 1(2) by simp
  from refill_ok [OF this n, of "[45..<55]" debug junk "\<lambda>i. i + 100"]
  obtain os2 f2 os3 f3 where 2: "release_at [45..<55] (ptrs os) f1 = Some (ptrs os2, f2)"
    "fill debug junk (\<lambda>i. i + 100) [45..<55] (ptrs os2) f2 = Some (ptrs os3, f3)" "owns f3 (objects os3)"
    "numbered ?l2 os3"
    by auto
  let ?ev = "map (\<lambda>i. 2 * i) [0..<50]"
  let ?l = "\<lambda>i. if i \<in> set ?ev then i + 200 else ?l2 i"
  have "distinct ?ev" "set ?ev \<subseteq> {..<100}" by (auto simp: distinct_map inj_on_def)
  from refill_ok [OF 2(3,4) this, of debug junk "\<lambda>i. i + 200"]
  obtain os4 f4 os5 f5 where 3: "release_at ?ev (ptrs os3) f3 = Some (ptrs os4, f4)"
    "fill debug junk (\<lambda>i. i + 200) ?ev (ptrs os4) f4 = Some (ptrs os5, f5)" "owns f5 (objects os5)"
    "numbered ?l os5"
    by blast
  have "\<forall>i<length os5. os5 ! i \<noteq> None" using 3(4) unfolding numbered_def by fastforce
  then obtain es where es: "os5 = map Some es" by (rule full_array)
  have len: "length es = 100" using 3(4) es by (simp add: numbered_def)
  have "id_of (es ! i) = int (?l i)" if "i < 100" for i
  proof -
    have "gameInstanceId (base_view (snd (es ! i))) = of_nat (?l i)" "?l i < 65536"
      using 3(4) that es len by (auto simp: numbered_def)
    then show ?thesis by (simp only: id_of_def) (simp add: unsigned_of_nat take_bit_nat_eq_self)
  qed
  moreover have "?l i = (if even i then i + 200 else if 45 \<le> i \<and> i < 55 then i + 100 else i)" if "i < 100" for i
  proof -
    have ev: "i \<in> set ?ev \<longleftrightarrow> even i" using that by (auto elim!: evenE)
    have mid: "i \<in> set [45..<55] \<longleftrightarrow> 45 \<le> i \<and> i < 55" by (simp only: set_upt atLeastLessThan_iff)
    show ?thesis by (simp only: ev mid)
  qed
  ultimately have out: "zip [0..<0 + length es] (map id_of es) =
      map (\<lambda>i. (i, int (if even i then i + 200 else if 45 \<le> i \<and> i < 55 then i + 100 else i))) [0..<100]"
    by (intro nth_equalityI) (simp_all add: len)
  show ?thesis
    using 1(1) 2(1,2) 3(1,2) numbering_ok [of f5 "mset es" es 0] 3(3) es out
    by (simp add: FactoryTest_DeleteItemsInMiddle_def s(1) Let_def del: fill.simps release_at.simps)
qed

end
