(* ===== verification/Stream_Tests.thy ===== *)
theory Stream_Tests
  imports Pool_Tests
begin

text \<open>
  The test class \<^verbatim>\<open>UnitTestBasicNetworking_StreamOfPackets\<close>: frames (\<^verbatim>\<open>SizePacket\<close>) that are written
  into a buffer and taken out of it again, one after the other, into new pool objects. A \<^verbatim>\<open>SizePacket\<close>
  is the pointer that it holds.
\<close>

section \<open>The methods\<close>

definition FactoryTest_Deserialize_1WrappedPacket ::
  "bool \<Rightarrow> (addr \<Rightarrow> U16) \<Rightarrow> bytes \<Rightarrow> test_process \<Rightarrow> test_process option" where
  "FactoryTest_Deserialize_1WrappedPacket debug junk buffer s = do {
     s \<leftarrow> FactoryMock_new junk s;
     let num = 100;
     (pack, f) \<leftarrow> run (Create_by_name debug junk ''BasePacket'' (statics s));
     p \<leftarrow> run (deref f pack);
     bp \<leftarrow> dynamic_cast C_BasePacket p;
     let bp = set_gameProductId 51 (set_gameInstanceId 13 bp);
     let f = store pack bp f;
     (buffer, outOffset) \<leftarrow> run (SizePacket_SerializeOut f buffer 0 pack);
     enough \<leftarrow> IsRemainingBufferBigenough buffer 0 num;
     (sp2, inOffset, f) \<leftarrow>
       (if enough then run (SizePacket_SerializeIn debug buffer 0 f) else Some (None, 0, f));
     p \<leftarrow> run (deref f sp2);
     bp2 \<leftarrow> dynamic_cast C_BasePacket p;
     AreEqual inOffset outOffset;
     p \<leftarrow> run (deref f pack);
     same_header (base_view p) (base_view bp2);
     Some (FactoryMock_delete (s\<lparr>statics := f\<rparr>)) }"

definition packet_types :: "(U8 \<times> U8) list" where
  "packet_types =
     [(packet_type_code PacketType_Base, BasePacket_Type),
      (packet_type_code PacketType_Base, BasePacket_Type),
      (packet_type_code PacketType_ServerTick, ServerTick_Position),
      (packet_type_code PacketType_ServerTick, ServerTick_Movement),
      (packet_type_code PacketType_ServerTick, ServerTick_Position)]"

fun create_all :: "bool \<Rightarrow> (U8 \<times> U8) list \<Rightarrow> factory \<Rightarrow> (pointer list \<times> factory) option" where
  "create_all debug [] f = Some ([], f)"
| "create_all debug ((type, subType) # types) f = do {
     (pack, f) \<leftarrow> run (Create debug type subType f);
     p \<leftarrow> run (deref f pack);
     bp \<leftarrow> dynamic_cast C_BasePacket p;
     let f = store pack (set_gameProductId 51 (set_gameInstanceId 13 bp)) f;
     (packs, f) \<leftarrow> create_all debug types f;
     Some (pack # packs, f) }"

text \<open>The \<^verbatim>\<open>while\<close> loop. \<open>packs\<close> is \<^verbatim>\<open>pack[index]\<close> and what follows; an index behind the array faults.\<close>

fun check_frames :: "bool \<Rightarrow> bytes \<Rightarrow> nat \<Rightarrow> pointer list \<Rightarrow> factory \<Rightarrow> (nat \<times> factory) option" where
  "check_frames debug buffer inOffset [] f = do {
     enough \<leftarrow> IsRemainingBufferBigenough buffer inOffset 100;
     if enough then None else Some (inOffset, f) }"
| "check_frames debug buffer inOffset (pack # packs) f = do {
     enough \<leftarrow> IsRemainingBufferBigenough buffer inOffset 100;
     if \<not> enough then Some (inOffset, f)
     else do {
       (sp2, inOffset, f) \<leftarrow> run (SizePacket_SerializeIn debug buffer inOffset f);
       p \<leftarrow> run (deref f sp2);
       bp2 \<leftarrow> dynamic_cast C_BasePacket p;
       p \<leftarrow> run (deref f pack);
       bp \<leftarrow> dynamic_cast C_BasePacket p;
       same_header (base_view bp) (base_view bp2);
       (ok, sp2, f) \<leftarrow> run (Release sp2 f);
       check_frames debug buffer inOffset packs f } }"

definition FactoryTest_Deserialize_WrappedPackets ::
  "bool \<Rightarrow> (addr \<Rightarrow> U16) \<Rightarrow> bytes \<Rightarrow> test_process \<Rightarrow> test_process option" where
  "FactoryTest_Deserialize_WrappedPackets debug junk buffer s = do {
     s \<leftarrow> FactoryMock_new junk s;
     (pack, f) \<leftarrow> create_all debug packet_types (statics s);
     (buffer, outOffset) \<leftarrow> run (write_frames f buffer 0 pack);
     (inOffset, f) \<leftarrow> check_frames debug buffer 0 pack f;
     AreEqual inOffset outOffset;
     f \<leftarrow> release_all pack f;
     Some (FactoryMock_delete (s\<lparr>statics := f\<rparr>)) }"

section \<open>Frames and the objects a test holds\<close>

lemma class_of_set_gameProductId [simp]: "class_of (set_gameProductId v p) = class_of p"
  by (cases p) simp_all

lemma well_typed_set_gameProductId [simp]: "well_typed (set_gameProductId v p) = well_typed p"
  by (cases p) (simp_all add: well_typed_def GetType_def GetSubType_def BasePacket.defs)

lemma same_header_view [simp]: "same_header (base_view p) (base_view p) = Some ()"
  by simp

lemma owns_frame:
  assumes o: "owns f M" and few: "number_of (class_of p) M < 100"
    and h: "holds_at buffer off (enc_frame p)" and wt: "well_typed p"
  obtains a g where "SizePacket_SerializeIn debug buffer off f = Inr (Some a, off + length (enc_frame p), g)"
    "owns g (add_mset (a, p) M)"
proof -
  obtain a q g where g: "Create debug (class_Type (class_of p)) (class_SubType (class_of p)) f = Inr (Some a, g)"
    "owns g (add_mset (a, q) M)" "class_of q = class_of p"
    by (rule owns_create [OF o few, of debug "\<lambda>_. 0"]) (rule that)
  have "SizePacket_SerializeIn debug buffer off f =
      Inr (Some a, off + length (enc_frame p), g\<lparr>heap := (heap g)[a := p]\<rparr>)"
    by (rule SizePacket_In_frame [OF h wt])
      (use g owns_object [OF g(2)] in \<open>auto simp: GetType_def GetSubType_def\<close>)
  then show ?thesis using owns_write [OF g(2), of p] g(3) wt that by (simp add: store_def)
qed

lemma create_all_ok:
  assumes "owns f M" "\<forall>c. number_of c M + length cs \<le> 100"
  shows "\<exists>es g. create_all debug (map (\<lambda>c. (class_Type c, class_SubType c)) cs) f =
      Some (map (\<lambda>e. Some (fst e)) es, g) \<and> owns g (mset es + M) \<and> map (class_of \<circ> snd) es = cs"
  using assms
proof (induction cs arbitrary: f M)
  case Nil
  then show ?case by (intro exI [of _ "[]"]) simp
next
  case (Cons c cs)
  have few: "number_of c M < 100" using spec [OF Cons.prems(2), of c] by simp
  obtain a p g where g: "Create debug (class_Type c) (class_SubType c) f = Inr (Some a, g)"
    "owns g (add_mset (a, p) M)" "class_of p = c"
    by (rule owns_create [OF Cons.prems(1) few, of debug "\<lambda>_. 0"]) (rule that)
  let ?q = "set_gameProductId 51 (set_gameInstanceId 13 p)"
  have o: "owns (store (Some a) ?q g) (add_mset (a, ?q) M)"
    using owns_write [OF g(2), of ?q] owns_typed [OF g(2)] by simp
  have "\<forall>k. number_of k (add_mset (a, ?q) M) + length cs \<le> 100"
  proof
    fix k
    show "number_of k (add_mset (a, ?q) M) + length cs \<le> 100"
      using spec [OF Cons.prems(2), of k] by simp
  qed
  then obtain es h where h: "create_all debug (map (\<lambda>c. (class_Type c, class_SubType c)) cs) (store (Some a) ?q g) =
      Some (map (\<lambda>e. Some (fst e)) es, h)" "owns h (mset es + add_mset (a, ?q) M)" "map (class_of \<circ> snd) es = cs"
    using Cons.IH [OF o] by blast
  have "create_all debug (map (\<lambda>c. (class_Type c, class_SubType c)) (c # cs)) f =
      Some (map (\<lambda>e. Some (fst e)) ((a, ?q) # es), h)"
    using g(1) owns_deref [OF g(2)] h(1) by (simp add: dynamic_cast_def)
  then show ?case using h(2,3) g(3) by (intro exI [of _ "(a, ?q) # es"] exI [of _ h]) (simp add: comp_def)
qed

lemma check_frames_ok:
  assumes "owns f M" "set es \<subseteq> set_mset M" "\<forall>c. number_of c M < 100"
    and "holds_at buffer off (enc_stream (map snd es))" "off + length (enc_stream (map snd es)) = 100"
    and len: "length buffer = 120"
  shows "\<exists>g. check_frames debug buffer off (map (\<lambda>e. Some (fst e)) es) f = Some (100, g) \<and> owns g M"
  using assms(1-5)
proof (induction es arbitrary: f off)
  case Nil
  obtain v where "In_U16 buffer 101 = Some (v, 103)"
    using takes_Some [OF s_U16.takes_inp, of 101 buffer] len by auto
  then show ?case using Nil by (simp add: IsRemainingBufferBigenough_def)
next
  case (Cons e es)
  let ?p = "snd e"
  have h: "holds_at buffer off (enc_frame ?p)" "holds_at buffer (off + length (enc_frame ?p)) (enc_stream (map snd es))"
    using Cons.prems(4) by (simp_all add: holds_at_append)
  have m: "add_mset (fst e, ?p) (M - {#e#}) = M" using Cons.prems(2) by simp
  have wt: "well_typed ?p" using owns_typed [of f "fst e" ?p "M - {#e#}"] m Cons.prems(1) by simp
  obtain a g where g: "SizePacket_SerializeIn debug buffer off f = Inr (Some a, off + length (enc_frame ?p), g)"
    "owns g (add_mset (a, ?p) M)"
    by (rule owns_frame [OF Cons.prems(1) _ h(1) wt]) (use Cons.prems(3) in auto)
  obtain g' where g': "Release (Some a) g = Inr (True, None, g')" "owns g' M"
    by (rule owns_release [OF g(2)])
  have "\<exists>g. check_frames debug buffer (off + length (enc_frame ?p)) (map (\<lambda>e. Some (fst e)) es) g' = Some (100, g) \<and> owns g M"
    by (rule Cons.IH [OF g'(2) _ Cons.prems(3) h(2)]) (use Cons.prems(2,5) in auto)
  then show ?case
    using frame_fits [OF h(1), of 100] Cons.prems(2,5) g g' owns_deref [OF g(2)] owns_member [OF g(2), of "fst e" ?p]
    by (simp add: dynamic_cast_def)
qed

section \<open>The tests pass\<close>

lemma FactoryTest_Deserialize_WrappedPackets_passes:
  assumes len: "length buffer = 120"
  shows "FactoryTest_Deserialize_WrappedPackets debug junk buffer process_start = Some process_start"
proof -
  obtain s where s: "FactoryMock_new junk process_start = Some s" "owns (statics s) {#}"
    by (rule owns_start)
  let ?cs = "[C_BasePacket, C_BasePacket, C_PositionPacket, C_MovementPacket, C_PositionPacket]"
  have types: "packet_types = map (\<lambda>c. (class_Type c, class_SubType c)) ?cs"
    by (simp add: packet_types_def)
  obtain es f where f: "create_all debug packet_types (statics s) = Some (map (\<lambda>e. Some (fst e)) es, f)"
    "owns f (mset es + {#})" "map (class_of \<circ> snd) es = ?cs"
  proof -
    have "\<forall>c. number_of c {#} + length ?cs \<le> 100" by simp
    from create_all_ok [OF s(2) this, of debug] show thesis
      unfolding types [symmetric] by (elim exE conjE) (rule that)
  qed
  have len_stream: "length (enc_stream (map snd es)) = 100"
    using f(3) by (auto simp: map_eq_Cons_conv)
  have es: "\<forall>e\<in>set es. fst e < length (heap f) \<and> heap f ! fst e = snd e"
    using owns_object [of f] f(2) by (metis add.right_neutral multi_member_split prod.collapse set_mset_mset)
  then have vals: "map (\<lambda>a. heap f ! a) (map fst es) = map snd es" by simp
  obtain b where b: "wr buffer 0 (enc_stream (map snd es)) = Some b"
    "write_frames f buffer 0 (map (\<lambda>e. Some (fst e)) es) = Inr (b, 100)"
    using write_frames_enc [of "map fst es" f 0 buffer, unfolded vals] es len len_stream
    by (auto simp: comp_def)
  have few: "number_of c (mset es) < 100" for c
    using f(3) by (auto simp: map_eq_Cons_conv)
  obtain g where g: "check_frames debug b 0 (map (\<lambda>e. Some (fst e)) es) f = Some (100, g)" "owns g (mset es + {#})"
    using check_frames_ok [of f "mset es" es b 0 debug] f(2) few wr_holds_at [OF b(1)] len_stream
      length_wr [OF b(1)] len by auto
  obtain h where "release_all (map (\<lambda>e. Some (fst e)) es) g = Some h"
    using release_all_ok [OF g(2)] by blast
  then show ?thesis using f(1) b(2) g(1) by (simp add: FactoryTest_Deserialize_WrappedPackets_def s(1))
qed

lemma FactoryTest_Deserialize_1WrappedPacket_passes:
  assumes len: "length buffer = 100"
  shows "FactoryTest_Deserialize_1WrappedPacket debug junk buffer process_start = Some process_start"
proof -
  obtain s where s: "FactoryMock_new junk process_start = Some s" "owns (statics s) {#}"
    by (rule owns_start)
  obtain a p f where f: "Create_by_name debug junk (class_Name C_BasePacket) (statics s) = Inr (Some a, f)"
    "owns f (add_mset (a, p) {#})" "class_of p = C_BasePacket"
    by (rule owns_create [OF s(2), of C_BasePacket debug junk]) (simp, rule that)
  let ?q = "set_gameProductId 51 (set_gameInstanceId 13 p)"
  let ?f = "store (Some a) ?q f"
  have wt: "well_typed ?q" using owns_typed [OF f(2)] by simp
  have o: "owns ?f (add_mset (a, ?q) {#})" using owns_write [OF f(2), of ?q] wt by simp
  obtain b where b: "wr buffer 0 (enc_frame ?q) = Some b" using len f(3) by (auto simp: wr_def)
  then have out: "SizePacket_SerializeOut ?f buffer 0 (Some a) = Inr (b, 10)"
    using SizePacket_Out_frame [of a ?f buffer 0] owns_object [OF o] f(3) by simp
  have h: "holds_at b 0 (enc_frame ?q)" using wr_holds_at [OF b] by simp
  have "number_of (class_of ?q) {#(a, ?q)#} < 100" by simp
  then obtain c g where g: "SizePacket_SerializeIn debug b 0 ?f = Inr (Some c, 0 + length (enc_frame ?q), g)"
    "owns g (add_mset (c, ?q) {#(a, ?q)#})"
    by (rule owns_frame [OF o _ h wt]) (rule that)
  have "IsRemainingBufferBigenough b 0 100 = Some True" by (rule frame_fits [OF h]) (simp add: f(3))
  then show ?thesis
    using f(1,3) owns_deref [OF f(2)] out g(1) owns_deref [OF g(2)] owns_member [OF g(2), of a ?q]
    by (simp add: FactoryTest_Deserialize_1WrappedPacket_def s(1) Let_def dynamic_cast_def)
qed

end
