(* ===== verification/Observers.thy ===== *)
theory Observers
  imports Tcp_Server Std_Map
begin

text \<open>
  \<^verbatim>\<open>ServerSocket\<close> (\<^verbatim>\<open>Socket/ServerSocket.h\<close>), which owns a \<^verbatim>\<open>TCPThreader\<close> and a list of
  listeners, and \<^verbatim>\<open>PacketObserver\<close> (\<^verbatim>\<open>Socket/PacketObserver.h\<close>), which counts packets by
  type. A \<^verbatim>\<open>PacketObserver*\<close> in the list is a natural number.
\<close>

section \<open>ServerSocket\<close>

record server_socket =
  ss_threader :: "threader option"
  listeners :: "nat list"

definition new_ServerSocket :: "U16 \<Rightarrow> bytes \<Rightarrow> U16 \<times> string \<Rightarrow> factory \<Rightarrow> server_socket" where
  "new_ServerSocket port mem ep f =
     \<lparr>ss_threader = Some (BeginService mem ep f (new_TCPThreader port)), listeners = []\<rparr>"

text \<open>The destructor, up to the deletion of the threader.\<close>

definition delete_ServerSocket :: "server_socket \<Rightarrow> server_socket" where
  "delete_ServerSocket ss =
     (case ss_threader ss of
        None \<Rightarrow> ss
      | Some t \<Rightarrow> ss\<lparr>ss_threader := Some (Threader_Stop (Threader_PrepareStop t))\<rparr>)"

definition ServerSocket_NumConnectedClients :: "server_socket \<Rightarrow> nat res" where
  "ServerSocket_NumConnectedClients ss =
     (case ss_threader ss of None \<Rightarrow> Inr 0 | Some t \<Rightarrow> Threader_NumConnectedClients t)"

definition Register_listener :: "nat \<Rightarrow> server_socket \<Rightarrow> server_socket" where
  "Register_listener listener ss =
     (if listener \<in> set (listeners ss) then ss
      else ss\<lparr>listeners := listeners ss @ [listener]\<rparr>)"

definition Unregister_listener :: "nat \<Rightarrow> server_socket \<Rightarrow> server_socket" where
  "Unregister_listener listener ss =
     (if listener \<in> set (listeners ss)
      then ss\<lparr>listeners := remove1 listener (listeners ss)\<rparr> else ss)"

definition GetNumListeners :: "server_socket \<Rightarrow> nat" where
  "GetNumListeners ss = length (listeners ss)"

inductive listener_step :: "server_socket \<Rightarrow> server_socket \<Rightarrow> bool" where
  register: "listener_step ss (Register_listener l ss)"
| unregister: "listener_step ss (Unregister_listener l ss)"

lemma listener_step_distinct:
  "listener_step ss ss' \<Longrightarrow> distinct (listeners ss) \<Longrightarrow> distinct (listeners ss')"
  by (auto elim!: listener_step.cases simp: Register_listener_def Unregister_listener_def)

lemma listeners_distinct:
  "listener_step\<^sup>*\<^sup>* ss ss' \<Longrightarrow> distinct (listeners ss) \<Longrightarrow> distinct (listeners ss')"
  by (induction rule: rtranclp_induct) (auto intro: listener_step_distinct)

lemma Register_set [simp]:
  "set (listeners (Register_listener l ss)) = insert l (set (listeners ss))"
  by (auto simp: Register_listener_def)

lemma Unregister_set:
  "distinct (listeners ss) \<Longrightarrow> set (listeners (Unregister_listener l ss)) = set (listeners ss) - {l}"
  by (auto simp: Unregister_listener_def)

section \<open>PacketObserver\<close>

type_synonym observer = "(int \<times> int, S32) std_map"

definition Update :: "S32 \<Rightarrow> S32" where "Update value = value + 1"

definition PacketReceived :: "'a BasePacket_scheme \<Rightarrow> observer \<Rightarrow> observer" where
  "PacketReceived bp numberOfEachType =
     (let key = (uint (packetType bp), uint (packetSubType bp))
      in case map_find numberOfEachType key of
           None \<Rightarrow> map_set key 1 numberOfEachType
         | Some i \<Rightarrow> map_set key (Update i) numberOfEachType)"

text \<open>The condition is the wrong way round: it reads through the end iterator.\<close>

definition GetCount :: "U8 \<Rightarrow> U8 \<Rightarrow> observer \<Rightarrow> S32 res" where
  "GetCount type subType numberOfEachType =
     (let key = (uint type, uint subType)
      in case map_find numberOfEachType key of
           None \<Rightarrow> Inl EndIteratorDeref
         | Some i \<Rightarrow> Inr 0)"

text \<open>What the map holds after a sequence of packets: their numbers, modulo \<open>2\<^sup>3\<^sup>2\<close>.\<close>

definition seen :: "BasePacket list \<Rightarrow> int \<times> int \<Rightarrow> nat" where
  "seen ps key = length (filter (\<lambda>p. (uint (packetType p), uint (packetSubType p)) = key) ps)"

lemma PacketReceived_find:
  "map_find (PacketReceived p m) key =
     (if key = (uint (packetType p), uint (packetSubType p))
      then Some (case map_find m key of None \<Rightarrow> 1 | Some i \<Rightarrow> i + 1) else map_find m key)"
  by (auto simp: PacketReceived_def Let_def map_find_set Update_def split: option.split)

lemma observer_counts:
  "map_find (fold PacketReceived ps []) key =
     (if seen ps key = 0 then None else Some (of_nat (seen ps key)))"
proof (induction ps rule: rev_induct)
  case Nil
  then show ?case by (simp add: seen_def)
next
  case (snoc p ps)
  have "fold PacketReceived (ps @ [p]) [] = PacketReceived p (fold PacketReceived ps [])" by simp
  then show ?case using snoc by (auto simp: PacketReceived_find seen_def)
qed

end
