(* ===== verification/Socket_Tests.thy ===== *)
theory Socket_Tests
  imports Observers Tcp_Client Factory_Tests
begin

text \<open>
  Two methods of the test class \<^verbatim>\<open>UnitTestBasicNetworking_TcpSocket\<close>. A \<^verbatim>\<open>Sleep\<close> lets the server's
  threads run: it is a function on the server, an argument of the method. The client has an
  \<^verbatim>\<open>io_context\<close> of its own, which runs in \<^verbatim>\<open>run_for\<close> only, so a \<^verbatim>\<open>Sleep\<close> does not change the client.
  \<open>mem\<close> is the memory of the connection that the server prepares, \<open>ep\<close> the acceptor's local endpoint.
\<close>

section \<open>The methods\<close>

definition on_server :: "(tcp_server \<Rightarrow> tcp_server) \<Rightarrow> threader \<Rightarrow> threader" where
  "on_server h t = t\<lparr>tcpServer := map_option h (tcpServer t)\<rparr>"

definition SocketTest_CreateTCPServer ::
  "bytes \<Rightarrow> U16 \<times> string \<Rightarrow> (tcp_server \<Rightarrow> tcp_server) \<Rightarrow> test_process \<Rightarrow> unit option" where
  "SocketTest_CreateTCPServer mem ep sleep s = do {
     let threader = BeginService mem ep (statics s) (new_TCPThreader 1313);
     IsTrue (Threader_IsConnected threader);
     AreEqual (uint (Threader_GetPortAddr threader)) 1313;
     let threader = on_server sleep threader;
     AreEqual ''0.0.0.0'' (Threader_GetSocketAddr threader);
     let threader = on_server sleep (Threader_Stop threader);
     Some () }"

text \<open>Client and server of one process share the static factory.\<close>

definition shared_factory :: "server_socket \<Rightarrow> factory option" where
  "shared_factory server = do { t \<leftarrow> ss_threader server; s \<leftarrow> tcpServer t; Some (packets s) }"

definition pause :: "(tcp_server \<Rightarrow> tcp_server) \<Rightarrow> server_socket \<Rightarrow> server_socket" where
  "pause sleep server = server\<lparr>ss_threader := map_option (on_server sleep) (ss_threader server)\<rparr>"

definition SocketTest_FirstComms2 ::
  "bool \<Rightarrow> (addr \<Rightarrow> U16) \<Rightarrow> bytes \<Rightarrow> U16 \<times> string \<Rightarrow> (tcp_server \<Rightarrow> tcp_server) \<Rightarrow> nat \<Rightarrow> string list \<Rightarrow>
   (tcp_client \<times> observer \<Rightarrow> tcp_client \<times> observer) \<Rightarrow> test_process \<Rightarrow> test_process option" where
  "SocketTest_FirstComms2 debug junk mem ep sleep now resolved run_for s = do {
     f \<leftarrow> run (InitFactory junk (statics s));
     let server = new_ServerSocket 1313 mem ep f;
     let serverPacketObserver = ([] :: observer);
     let server = Register_listener 0 server;
     AreEqual (GetNumListeners server) 1;
     let server = pause sleep server;
     f \<leftarrow> shared_factory server;
     let testClient = start now resolved (new_TCPClient f);
     let server = pause sleep server;
     n \<leftarrow> run (ServerSocket_NumConnectedClients server);
     IsTrue (n \<noteq> 0);
     AreEqual (client_connected testClient) True;
     f \<leftarrow> shared_factory server;
     (pack, f) \<leftarrow> run (Create debug (packet_type_code PacketType_Base) BasePacket_Type f);
     bp \<leftarrow> run (deref f pack);
     let f = store pack (set_gameProductId 51 (set_gameInstanceId 13 bp)) f;
     let testClient = Client_Write pack (testClient\<lparr>client_packets := f\<rparr>);
     AreEqual (GetNumPendingOutgoingPackets testClient) 1;
     let (testClient, serverPacketObserver) = run_for (testClient, serverPacketObserver);
     count \<leftarrow> run (GetCount (packet_type_code PacketType_Base) BasePacket_Type serverPacketObserver);
     AreEqual count 1;
     let server = Unregister_listener 0 server;
     let server = pause sleep server;
     f \<leftarrow> shared_factory server;
     Some (s\<lparr>statics := Shutdown f\<rparr>) }"

section \<open>What they show\<close>

text \<open>The server's threads while no client sends: connections are accepted, scheduled and cleaned up.\<close>

inductive service_step :: "U16 \<times> string \<Rightarrow> tcp_server \<Rightarrow> tcp_server \<Rightarrow> bool" for ep where
  accepted: "service_step ep s (NewConnectionAcceptedHandler c error mem ep (complete (Accept c) s))"
| reschedule: "service_step ep s (HandleReschedule s)"
| cleanup: "service_step ep s (CleanupClosedConnections s)"

lemma service_step_address:
  "service_step ep s s' \<Longrightarrow> boundIpAddress s = snd ep \<Longrightarrow> boundIpAddress s' = snd ep"
  by (auto elim!: service_step.cases simp: NewConnectionAcceptedHandler_def BeginAcceptingNewConnections_def
      HandleReschedule_eq CleanupClosedConnections_def Let_def)

lemma service_steps_address:
  "(service_step ep)\<^sup>*\<^sup>* s s' \<Longrightarrow> boundIpAddress s = snd ep \<Longrightarrow> boundIpAddress s' = snd ep"
  by (induction rule: rtranclp_induct) (auto intro: service_step_address)

lemma CreateTCPServer_passes:
  assumes "\<And>s. (service_step ep)\<^sup>*\<^sup>* s (sleep s)"
  shows "SocketTest_CreateTCPServer mem ep sleep s = Some () \<longleftrightarrow> ep = (1313, ''0.0.0.0'')"
proof -
  let ?s = "BeginAcceptingNewConnections mem ep (new_server (statics s))"
  have s: "boundIpAddress ?s = snd ep" "boundPortAddress ?s = fst ep" "isAccepting ?s"
    by (simp_all add: BeginAcceptingNewConnections_def Let_def)
  have "boundIpAddress (sleep ?s) = snd ep" by (rule service_steps_address [OF assms s(1)])
  moreover have "uint (fst ep) = 1313 \<longleftrightarrow> fst ep = 1313" by (auto simp: word_uint_eq_iff)
  ultimately show ?thesis using s
    by (cases ep)
      (auto simp: SocketTest_CreateTCPServer_def BeginService_def new_TCPThreader_def Threader_IsConnected_def
        Threader_GetPortAddr_def Threader_GetSocketAddr_def on_server_def AreEqual_def IsTrue_def Let_def
        split: if_splits)
qed

text \<open>\<^verbatim>\<open>IsConnected\<close> is asked before the client's \<^verbatim>\<open>io_context\<close> has run, so it is false.\<close>

lemma client_connected_start: "\<not> client_connected (start now resolved (new_TCPClient f))"
  by (simp add: start_def start_connect_def new_TCPClient_def async_def stop_def Let_def)

lemma FirstComms2_fails: "SocketTest_FirstComms2 debug junk mem ep sleep now resolved run_for s = None"
  unfolding SocketTest_FirstComms2_def Let_def
  by (auto simp: client_connected_start AreEqual_def bind_eq_None_conv)

text \<open>No class is registered either, because the test has no mock: the object could not be created.\<close>

lemma Create_without_mock:
  assumes "InitFactory junk factory_0 = Inr f"
  shows "Create debug t st f = (if debug then Inl AssertFailed else Inr (None, f))"
  using assms by (auto simp: InitFactory_def factory_0_def Create_def)

end
