(* ===== verification/Factory_Demo.thy ===== *)
theory Factory_Demo
  imports Circular_Buffer Std_Map Machine_Words
begin

text \<open>
  \<^verbatim>\<open>ConsoleApplication1/PacketFactoryTesting.cpp\<close>: an earlier version of the packet factory with one
  class, \<^verbatim>\<open>ZipCompression\<close>, and the program that tries it out. Unlike the later version it stores
  pointers to the pools, which \<^verbatim>\<open>Shutdown\<close> deletes and leaves in the map: a deleted pool is
  \<^term>\<open>None\<close>, and using one is a fault. An object is its \<^verbatim>\<open>gameInstanceId\<close>. The result of \<^verbatim>\<open>main\<close> is
  the lines it prints; what it does with the local string \<^verbatim>\<open>ret\<close> has no effect.
\<close>

section \<open>The factory\<close>

datatype demo_class = ZipCompression

type_synonym demo_pool = "nat option circular_buffer option"

record demo_factory =
  d_methods :: "(string, demo_class) std_map"
  d_allocationMethods :: "(U8 \<times> U8, demo_class) std_map"
  d_creationPool :: "(U8 \<times> U8, demo_pool) std_map"
  d_heap :: "int list"

fun Zip_GetFactoryName :: "demo_class \<Rightarrow> string" where "Zip_GetFactoryName ZipCompression = ''ZIP''"
fun Zip_Type :: "demo_class \<Rightarrow> U8" where "Zip_Type ZipCompression = 0"
fun Zip_SubType :: "demo_class \<Rightarrow> U8" where "Zip_SubType ZipCompression = 1"

definition demo_0 :: demo_factory where
  "demo_0 = \<lparr>d_methods = [], d_allocationMethods = [], d_creationPool = [], d_heap = []\<rparr>"

definition Demo_Register :: "string \<Rightarrow> U8 \<Rightarrow> U8 \<Rightarrow> demo_class \<Rightarrow> demo_factory \<Rightarrow> bool \<times> demo_factory" where
  "Demo_Register name type subType funcCreate f =
     (let success = False;
          matchPair = (type, subType);
          (success, f) =
            (if map_find (d_allocationMethods f) matchPair = None
             then (True, f\<lparr>d_allocationMethods := map_set matchPair funcCreate (d_allocationMethods f)\<rparr>)
             else (success, f))
      in if map_find (d_methods f) name = None
         then (True, f\<lparr>d_methods := map_set name funcCreate (d_methods f)\<rparr>)
         else (success, f))"

definition Demo_Allocate :: "U8 \<Rightarrow> U8 \<Rightarrow> demo_factory \<Rightarrow> nat option \<times> demo_factory" where
  "Demo_Allocate type subType f =
     (case map_find (d_allocationMethods f) (type, subType) of
        Some ZipCompression \<Rightarrow> (Some (length (d_heap f)), f\<lparr>d_heap := d_heap f @ [0]\<rparr>)
      | None \<Rightarrow> (None, f))"

fun demo_fill :: "nat \<Rightarrow> U8 \<times> U8 \<Rightarrow> nat option circular_buffer \<Rightarrow> demo_factory \<Rightarrow>
    (nat option circular_buffer \<times> demo_factory) res" where
  "demo_fill 0 typePair buff f = Inr (buff, f)"
| "demo_fill (Suc n) typePair buff f =
     (let (ptr, f) = Demo_Allocate (fst typePair) (snd typePair) f
      in and_then (from_option OutOfBounds (cb_put buff ptr)) (\<lambda>buff. demo_fill n typePair buff f))"

fun demo_init_loop :: "(U8 \<times> U8, demo_class) std_map \<Rightarrow> demo_factory \<Rightarrow> demo_factory res" where
  "demo_init_loop [] f = Inr f"
| "demo_init_loop ((typePair, method) # it) f =
     (let numToCreate = 100
      in and_then (demo_fill numToCreate typePair (cb_new None numToCreate) f)
        (\<lambda>(buff, f). demo_init_loop it
           (f\<lparr>d_creationPool := map_set typePair (Some buff) (d_creationPool f)\<rparr>)))"

definition Demo_Init :: "demo_factory \<Rightarrow> demo_factory res" where
  "Demo_Init f = demo_init_loop (d_allocationMethods f) f"

definition Demo_Shutdown :: "demo_factory \<Rightarrow> demo_factory" where
  "Demo_Shutdown f = f\<lparr>d_creationPool := map (\<lambda>(typePair, buff). (typePair, None)) (d_creationPool f)\<rparr>"

definition Demo_Create :: "bool \<Rightarrow> U8 \<Rightarrow> U8 \<Rightarrow> demo_factory \<Rightarrow> (nat option \<times> demo_factory) res" where
  "Demo_Create debug type subType f =
     (case map_find (d_creationPool f) (type, subType) of
        Some (Some pool) \<Rightarrow>
          let (ptr, pool) = cb_get None None pool
          in Inr (ptr, f\<lparr>d_creationPool := map_set (type, subType) (Some pool) (d_creationPool f)\<rparr>)
      | Some None \<Rightarrow> Inl OutOfBounds
      | None \<Rightarrow> if debug then Inl AssertFailed else Inr (None, f))"

definition Demo_Create_by_name :: "bool \<Rightarrow> string \<Rightarrow> demo_factory \<Rightarrow> (nat option \<times> demo_factory) res" where
  "Demo_Create_by_name debug name f =
     (case map_find (d_methods f) name of
        Some funcCreate \<Rightarrow> Demo_Create debug (Zip_Type funcCreate) (Zip_SubType funcCreate) f
      | None \<Rightarrow> Inr (None, f))"

definition demo_deref :: "demo_factory \<Rightarrow> nat option \<Rightarrow> int res" where
  "demo_deref f p = (case p of None \<Rightarrow> Inl NullDeref
     | Some a \<Rightarrow> if a < length (d_heap f) then Inr (d_heap f ! a) else Inl OutOfBounds)"

definition Demo_Release :: "nat option \<Rightarrow> demo_factory \<Rightarrow> (bool \<times> nat option \<times> demo_factory) res" where
  "Demo_Release data f = and_then (demo_deref f data) (\<lambda>_.
     let typePair = (Zip_Type ZipCompression, Zip_SubType ZipCompression)
     in case map_find (d_creationPool f) typePair of
          Some (Some pool) \<Rightarrow> and_then (from_option OutOfBounds (cb_put pool data)) (\<lambda>pool.
            Inr (True, None, f\<lparr>d_creationPool := map_set typePair (Some pool) (d_creationPool f)\<rparr>))
        | Some None \<Rightarrow> Inl OutOfBounds
        | None \<Rightarrow> Inr (False, data, f))"

section \<open>The program\<close>

text \<open>The static initialiser of \<^verbatim>\<open>s_typeRegistered\<close>.\<close>

definition demo_registered :: demo_factory where
  "demo_registered = snd (Demo_Register (Zip_GetFactoryName ZipCompression) (Zip_Type ZipCompression)
     (Zip_SubType ZipCompression) ZipCompression demo_0)"

definition Zip_Compress :: "demo_factory \<Rightarrow> nat option \<Rightarrow> string res" where
  "Zip_Compress f p = and_then (demo_deref f p) (\<lambda>_. Inr ''Zip'')"

text \<open>The three loops over the array \<^verbatim>\<open>packets\<close>, from the index \<open>i\<close> on.\<close>

fun demo_create_loop :: "bool \<Rightarrow> nat \<Rightarrow> nat \<Rightarrow> demo_factory \<Rightarrow> (nat option list \<times> demo_factory) res" where
  "demo_create_loop debug i 0 f = Inr ([], f)"
| "demo_create_loop debug i (Suc n) f =
     and_then (Demo_Create_by_name debug ''ZIP'' f) (\<lambda>(pack, f).
     and_then (demo_deref f pack) (\<lambda>_.
     let f = (case pack of Some a \<Rightarrow> f\<lparr>d_heap := (d_heap f)[a := int i]\<rparr> | None \<Rightarrow> f)
     in and_then (demo_create_loop debug (i + 1) n f) (\<lambda>(packets, f). Inr (pack # packets, f))))"

fun demo_check_loop :: "demo_factory \<Rightarrow> nat option list \<Rightarrow> int set \<Rightarrow> string list res" where
  "demo_check_loop f [] instanceIds = Inr []"
| "demo_check_loop f (pack # packets) instanceIds =
     and_then (demo_deref f pack) (\<lambda>id.
     and_then (demo_check_loop f packets (insert id instanceIds)) (\<lambda>out.
     Inr ((if id \<in> instanceIds then [''Duplicate''] else []) @ out)))"

fun demo_release_loop :: "nat option list \<Rightarrow> demo_factory \<Rightarrow> demo_factory res" where
  "demo_release_loop [] f = Inr f"
| "demo_release_loop (pack # packets) f =
     and_then (Demo_Release pack f) (\<lambda>(ok, pack, f). demo_release_loop packets f)"

definition demo_main :: "bool \<Rightarrow> demo_factory \<Rightarrow> (string list \<times> demo_factory) res" where
  "demo_main debug f =
     and_then (Demo_Init f) (\<lambda>f.
     and_then (Demo_Create_by_name debug ''ZIP'' f) (\<lambda>(method, f).
     and_then (Zip_Compress f method) (\<lambda>line1.
     and_then (Demo_Create debug 0 1 f) (\<lambda>(method2, f).
     and_then (Zip_Compress f method2) (\<lambda>line2.
     and_then (Demo_Release method f) (\<lambda>(ok, method, f).
     and_then (Demo_Release method2 f) (\<lambda>(ok, method2, f).
     let num = 100
     in and_then (demo_create_loop debug 0 num f) (\<lambda>(packets, f).
        and_then (demo_check_loop f packets {}) (\<lambda>out.
        and_then (demo_release_loop packets f) (\<lambda>f.
        Inr ([line1, line2] @ out @ [''Hello World!''], Demo_Shutdown f)))))))))))"

section \<open>The pool\<close>

text \<open>The factory once the class is registered and its pool holds the objects \<open>xs\<close>, in this order.\<close>

definition pool_is :: "demo_factory \<Rightarrow> nat list \<Rightarrow> bool" where
  "pool_is f xs \<longleftrightarrow> map_find (d_methods f) ''ZIP'' = Some ZipCompression \<and>
     (\<exists>cb. map_find (d_creationPool f) (0, 1) = Some (Some cb) \<and> cb_invar cb \<and> cb_max_size cb = 100 \<and>
        cb_contents cb = map Some xs)"

lemma pool_is_heap [simp]: "pool_is (f\<lparr>d_heap := h\<rparr>) xs = pool_is f xs"
  by (simp add: pool_is_def)

lemma demo_create:
  assumes "pool_is f (x # xs)"
  shows "\<exists>g. Demo_Create debug 0 1 f = Inr (Some x, g) \<and>
    Demo_Create_by_name debug ''ZIP'' f = Inr (Some x, g) \<and> pool_is g xs \<and> d_heap g = d_heap f"
proof -
  obtain cb where cb: "map_find (d_creationPool f) (0, 1) = Some (Some cb)" "cb_invar cb" "cb_max_size cb = 100"
    "cb_contents cb = Some x # map Some xs" "map_find (d_methods f) ''ZIP'' = Some ZipCompression"
    using assms by (auto simp: pool_is_def)
  obtain cb' where "cb_get None None cb = (Some x, cb')" "cb_invar cb'" "cb_max_size cb' = cb_max_size cb"
    "cb_contents cb' = map Some xs"
    using cb_get_Cons [OF cb(2,4)] by blast
  then show ?thesis using cb by (simp add: Demo_Create_def Demo_Create_by_name_def pool_is_def map_find_set)
qed

lemma demo_release:
  assumes "pool_is f xs" and "length xs < 100" and "a < length (d_heap f)"
  shows "\<exists>g. Demo_Release (Some a) f = Inr (True, None, g) \<and> pool_is g (xs @ [a]) \<and> d_heap g = d_heap f"
proof -
  obtain cb where cb: "map_find (d_creationPool f) (0, 1) = Some (Some cb)" "cb_invar cb" "cb_max_size cb = 100"
    "cb_contents cb = map Some xs" "map_find (d_methods f) ''ZIP'' = Some ZipCompression"
    using assms(1) by (auto simp: pool_is_def)
  obtain cb' where "cb_put cb (Some a) = Some cb'" "cb_invar cb'" "cb_max_size cb' = cb_max_size cb"
    "cb_contents cb' = cb_contents cb @ [Some a]"
    using ring.put_space [OF cb(2), of "Some a"] cb(3,4) assms(2) by auto
  then show ?thesis
    using cb assms(3) by (simp add: Demo_Release_def demo_deref_def pool_is_def map_find_set)
qed

lemma demo_fill_ok:
  "map_find (d_allocationMethods f) (0, 1) = Some ZipCompression \<Longrightarrow> cb_invar cb \<Longrightarrow>
   length (cb_contents cb) + n \<le> cb_max_size cb \<Longrightarrow>
   \<exists>cb'. demo_fill n (0, 1) cb f = Inr (cb', f\<lparr>d_heap := d_heap f @ replicate n 0\<rparr>) \<and> cb_invar cb' \<and>
     cb_max_size cb' = cb_max_size cb \<and>
     cb_contents cb' = cb_contents cb @ map Some [length (d_heap f)..<length (d_heap f) + n]"
proof (induction n arbitrary: f cb)
  case 0
  then show ?case by simp
next
  case (Suc n)
  let ?a = "length (d_heap f)"
  let ?f = "f\<lparr>d_heap := d_heap f @ [0]\<rparr>"
  obtain cb1 where cb1: "cb_put cb (Some ?a) = Some cb1" "cb_invar cb1" "cb_max_size cb1 = cb_max_size cb"
    "cb_contents cb1 = cb_contents cb @ [Some ?a]"
    using ring.put_space [OF Suc.prems(2), of "Some ?a"] Suc.prems(3) by auto
  have "length (cb_contents cb1) + n \<le> cb_max_size cb1"
    unfolding cb1(3,4) using Suc.prems(3) by (simp del: length_cb_contents)
  then obtain cb2 where "demo_fill n (0, 1) cb1 ?f = Inr (cb2, ?f\<lparr>d_heap := d_heap ?f @ replicate n 0\<rparr>)"
    "cb_invar cb2" "cb_max_size cb2 = cb_max_size cb1"
    "cb_contents cb2 = cb_contents cb1 @ map Some [length (d_heap ?f)..<length (d_heap ?f) + n]"
    using Suc.IH [of ?f cb1] Suc.prems(1) cb1(2) by auto
  then show ?case using cb1 Suc.prems(1)
    by (simp add: Demo_Allocate_def Let_def upt_conv_Cons del: length_cb_contents)
qed

lemma demo_started:
  "\<exists>f. Demo_Init demo_registered = Inr f \<and> pool_is f [0..<100] \<and> length (d_heap f) = 100"
proof -
  have r: "map_find (d_allocationMethods demo_registered) (0, 1) = Some ZipCompression"
    "d_allocationMethods demo_registered = [((0, 1), ZipCompression)]" "d_heap demo_registered = []"
    "map_find (d_methods demo_registered) ''ZIP'' = Some ZipCompression"
    by (simp_all add: demo_registered_def Demo_Register_def demo_0_def map_find_def)
  have new: "cb_invar (cb_new None 100 :: nat option circular_buffer)" by (rule cb_new_invar) simp
  obtain cb where "demo_fill 100 (0, 1) (cb_new None 100) demo_registered =
      Inr (cb, demo_registered\<lparr>d_heap := replicate 100 0\<rparr>)"
    "cb_invar cb" "cb_max_size cb = 100" "cb_contents cb = map Some [0..<100]"
    using demo_fill_ok [OF r(1) new, of 100] r(3) by (auto simp: cb_new_contents simp del: length_cb_contents)
  then show ?thesis using r
    by (simp add: Demo_Init_def Let_def pool_is_def map_find_set)
qed

section \<open>The loops of main\<close>

lemma demo_create_loop_ok:
  "pool_is f (as @ xs) \<Longrightarrow> distinct as \<Longrightarrow> set as \<subseteq> {..<length (d_heap f)} \<Longrightarrow>
   \<exists>g. demo_create_loop debug i (length as) f = Inr (map Some as, g) \<and> pool_is g xs \<and>
     length (d_heap g) = length (d_heap f) \<and> map (\<lambda>a. d_heap g ! a) as = map int [i..<i + length as] \<and>
     (\<forall>b. b \<notin> set as \<longrightarrow> d_heap g ! b = d_heap f ! b)"
proof (induction as arbitrary: f i)
  case Nil
  then show ?case by simp
next
  case (Cons a as)
  obtain h where h: "Demo_Create_by_name debug ''ZIP'' f = Inr (Some a, h)" "pool_is h (as @ xs)"
    "d_heap h = d_heap f"
    using demo_create [of f a "as @ xs" debug] Cons.prems(1) by auto
  let ?h = "h\<lparr>d_heap := (d_heap h)[a := int i]\<rparr>"
  have a: "a < length (d_heap f)" "a \<notin> set as" using Cons.prems(2,3) by auto
  obtain g where g: "demo_create_loop debug (i + 1) (length as) ?h = Inr (map Some as, g)" "pool_is g xs"
    "length (d_heap g) = length (d_heap ?h)" "map (\<lambda>a. d_heap g ! a) as = map int [i + 1..<i + 1 + length as]"
    "\<forall>b. b \<notin> set as \<longrightarrow> d_heap g ! b = d_heap ?h ! b"
    using Cons.IH [of ?h "i + 1"] h(2,3) Cons.prems(2,3) by auto
  have "demo_create_loop debug i (length (a # as)) f = Inr (map Some (a # as), g)"
    using h a(1) g(1) by (simp add: demo_deref_def)
  moreover have "d_heap g ! a = int i" using g(5) a h(3) by simp
  moreover have "[i..<i + length (a # as)] = i # [i + 1..<i + 1 + length as]"
    by (simp add: upt_conv_Cons del: upt_Suc)
  ultimately show ?case using g(2-5) h(3)
    by (intro exI [of _ g]) (simp del: demo_create_loop.simps upt_Suc)
qed

lemma demo_check_loop_ok:
  "set as \<subseteq> {..<length (d_heap f)} \<Longrightarrow> distinct (map (\<lambda>a. d_heap f ! a) as) \<Longrightarrow>
   (\<lambda>a. d_heap f ! a) ` set as \<inter> S = {} \<Longrightarrow> demo_check_loop f (map Some as) S = Inr []"
  by (induction as arbitrary: S) (auto simp: demo_deref_def)

lemma demo_release_loop_ok:
  "pool_is f xs \<Longrightarrow> length xs + length as \<le> 100 \<Longrightarrow> set as \<subseteq> {..<length (d_heap f)} \<Longrightarrow>
   \<exists>g. demo_release_loop (map Some as) f = Inr g \<and> pool_is g (xs @ as)"
proof (induction as arbitrary: f xs)
  case (Cons a as)
  obtain h where "Demo_Release (Some a) f = Inr (True, None, h)" "pool_is h (xs @ [a])" "d_heap h = d_heap f"
    using demo_release [of f xs a] Cons.prems by auto
  moreover from this obtain g where "demo_release_loop (map Some as) h = Inr g" "pool_is g ((xs @ [a]) @ as)"
    using Cons.IH [of h "xs @ [a]"] Cons.prems by auto
  ultimately show ?case by auto
qed auto

text \<open>The program: no duplicate is found, and in the end the pool is full again.\<close>

lemma demo_main_prints:
  "\<exists>f. demo_main debug demo_registered = Inr ([''Zip'', ''Zip'', ''Hello World!''], Demo_Shutdown f) \<and>
     pool_is f ([2..<100] @ [0, 1])"
proof -
  obtain f where f: "Demo_Init demo_registered = Inr f" "pool_is f [0..<100]" "length (d_heap f) = 100"
    using demo_started by blast
  have "[0..<100] = 0 # 1 # [2..<100]" by (simp add: upt_conv_Cons)
  then have "pool_is f (0 # 1 # [2..<100])" using f(2) by simp
  from demo_create [OF this, of debug] obtain g where g: "Demo_Create_by_name debug ''ZIP'' f = Inr (Some 0, g)"
    "pool_is g (1 # [2..<100])" "d_heap g = d_heap f" by blast
  from demo_create [OF g(2), of debug] obtain h where h: "Demo_Create debug 0 1 g = Inr (Some 1, h)"
    "pool_is h [2..<100]" "d_heap h = d_heap f" using g(3) by auto
  obtain k where k: "Demo_Release (Some 0) h = Inr (True, None, k)" "pool_is k ([2..<100] @ [0])"
    "d_heap k = d_heap f"
    using demo_release [OF h(2), of 0] h(3) f(3) by auto
  obtain l where l: "Demo_Release (Some 1) k = Inr (True, None, l)" "pool_is l (([2..<100] @ [0]) @ [1])"
    "d_heap l = d_heap f"
    using demo_release [OF k(2), of 1] k(3) f(3) by auto
  define as where "as = [2..<100] @ [0, 1 :: nat]"
  have "set as = {2..<100} \<union> {0, 1}" by (simp only: as_def set_append set_upt list.set)
  then have as: "length as = 100" "distinct as" "set as = {..<100}" by (auto simp: as_def)
  have "pool_is l (as @ [])" using l(2) by (simp add: as_def)
  from demo_create_loop_ok [OF this as(2), of debug 0] obtain m where
    m: "demo_create_loop debug 0 100 l = Inr (map Some as, m)" "pool_is m []"
    "length (d_heap m) = 100" "map (\<lambda>a. d_heap m ! a) as = map int [0..<100]"
    using as l(3) f(3) by auto
  have "distinct (map (\<lambda>a. d_heap m ! a) as)" unfolding m(4) by (simp add: distinct_map)
  then have c: "demo_check_loop m (map Some as) {} = Inr []"
    by (intro demo_check_loop_ok) (simp_all add: m(3) as(3))
  obtain n where n: "demo_release_loop (map Some as) m = Inr n" "pool_is n ([] @ as)"
    using demo_release_loop_ok [OF m(2), of as] as(1,3) m(3) by auto
  have nonempty: "d_heap f \<noteq> []" using f(3) by auto
  have "demo_main debug demo_registered = Inr ([''Zip'', ''Zip'', ''Hello World!''], Demo_Shutdown n)"
    using f(1,3) g(1,3) h(1,3) k(1) l(1) m(1) c n(1) nonempty
    by (simp add: demo_main_def Zip_Compress_def demo_deref_def Let_def)
  then show ?thesis using n(2) as_def by auto
qed

text \<open>After \<^verbatim>\<open>Shutdown\<close> the map still holds the deleted pool, so a further \<^verbatim>\<open>Create\<close> uses freed memory.\<close>

lemma map_find_map_values:
  "map_find (map (\<lambda>(k, v). (k, h v)) m) key = map_option h (map_find m key)"
  by (induction m) (auto simp: map_find_def)

lemma demo_create_after_shutdown:
  "pool_is f xs \<Longrightarrow> Demo_Create debug 0 1 (Demo_Shutdown f) = Inl OutOfBounds"
  using map_find_map_values [of "\<lambda>_. None :: demo_pool" "d_creationPool f" "(0, 1)"]
  by (auto simp: Demo_Create_def Demo_Shutdown_def pool_is_def)

end
