(* ===== verification/Server_Types.thy ===== *)
theory Server_Types
  imports Tcp_Server
begin

text \<open>
  What keeps the dynamic types of the server's objects in order although every byte of an object comes
  from a peer: the header that chooses the class of the object is the header that the object reads, so
  its type fields stay those of its class.
\<close>

section \<open>One frame\<close>

text \<open>The header of a packet does not depend on the object that reads it.\<close>

definition wire_type :: "bytes \<Rightarrow> nat \<Rightarrow> (U8 \<times> U8) option" where
  "wire_type buf off = do {
     (t, off) \<leftarrow> In_U8 buf off;
     (st, off) \<leftarrow> In_U8 buf off;
     Some (t, st) }"

lemma BasePacket_In_type:
  "BasePacket_SerializeIn buf off this = Some (q, off') \<Longrightarrow>
     wire_type buf off = Some (packetType q, packetSubType q)"
  by (auto simp: BasePacket_SerializeIn_def wire_type_def bind_eq_Some_conv Let_def)

lemma ServerTick_In_type:
  "ServerTick_SerializeIn buf off this = Some (q, off') \<Longrightarrow>
     wire_type buf off = Some (packetType q, packetSubType q)"
  by (auto simp: ServerTick_SerializeIn_def bind_eq_Some_conv dest!: BasePacket_In_type)

lemma PositionPacket_In_type:
  "PositionPacket_SerializeIn buf off this = Some (q, off') \<Longrightarrow>
     wire_type buf off = Some (packetType q, packetSubType q)"
  by (auto simp: PositionPacket_SerializeIn_def bind_eq_Some_conv Let_def dest!: ServerTick_In_type)

lemma packet_In_type:
  "packet_SerializeIn buf off p = Some (q, off') \<Longrightarrow>
     wire_type buf off = Some (packetType (base_view q), packetSubType (base_view q))"
  by (cases p)
    (auto simp: ConnectionComms_SerializeIn_def MovementPacket_SerializeIn_def bind_eq_Some_conv BasePacket.defs
       dest!: BasePacket_In_type PositionPacket_In_type)

definition classes :: "factory \<Rightarrow> packet_class list" where
  "classes f = map class_of (heap f)"

definition types_ok :: "packet_class list \<Rightarrow> factory \<Rightarrow> bool" where
  "types_ok cs f \<longleftrightarrow> classes f = cs \<and> list_all well_typed (heap f)"

lemma Create_heap: "Create debug t st f = Inr (ptr, g) \<Longrightarrow> heap g = heap f"
  by (auto simp: Create_def Let_def split: option.splits if_splits prod.splits)

text \<open>\<^verbatim>\<open>Create\<close> answers with an object of the type it was asked for.\<close>

lemma Create_type:
  assumes ok: "factory_ok f" and c: "Create debug t st f = Inr (Some a, g)"
  shows "GetType (heap f ! a) = t \<and> GetSubType (heap f ! a) = st"
proof -
  obtain pool where pool: "map_find (s_creationPool f) (t, st) = Some pool" "fst (cb_get None None pool) = Some a"
    using c by (auto simp: Create_def Let_def split: option.splits if_splits prod.splits)
  note pk = pool_okD [OF factory_okD(5) [OF ok pool(1)]]
  have "Some a \<in> set (cb_contents pool)"
  proof (cases "cb_contents pool")
    case Nil
    then show ?thesis using cb_get_Nil [OF pk(1) Nil, of None None] pool(2) by simp
  next
    case (Cons x xs)
    then show ?thesis using cb_get_Cons [OF pk(1) Cons, of None None] pool(2) by auto
  qed
  then show ?thesis using pk(3) [of "Some a"] by auto
qed

lemma SizePacket_In_types:
  assumes ok: "types_ok cs f" "factory_ok f" and s: "SizePacket_SerializeIn debug buf off f = Inr (ptr, off', g)"
  shows "types_ok cs g"
proof -
  obtain probe o1 o2 g1 p q where probe: "BasePacket_SerializeIn buf o1
        (new_BasePacket (packet_type_code PacketType_Base) BasePacket_Type) = Some (probe, o2)"
    and cr: "Create debug (packetType probe) (packetSubType probe) f = Inr (ptr, g1)" and d: "deref g1 ptr = Inr p"
    and i: "packet_SerializeIn buf o1 p = Some (q, off')"
    and g: "g = (case ptr of None \<Rightarrow> g1 | Some a \<Rightarrow> g1\<lparr>heap := (heap g1)[a := q]\<rparr>)"
    using s by (auto simp: SizePacket_SerializeIn_def)
  obtain a where a: "ptr = Some a" "a < length (heap g1)" "p = heap g1 ! a"
    using d by (auto simp: deref_def split: option.splits if_splits)
  have h: "heap g1 = heap f" by (rule Create_heap [OF cr])
  have cls: "class_of q = class_of (heap f ! a)" using packet_SerializeIn_class [OF i] a(3) h by simp
  have "packetType (base_view q) = packetType probe" "packetSubType (base_view q) = packetSubType probe"
    using packet_In_type [OF i] BasePacket_In_type [OF probe] by simp_all
  then have "well_typed q"
    using Create_type [OF ok(2) cr [unfolded a(1)]] cls by (simp add: well_typed_def GetType_def GetSubType_def)
  then have "list_all well_typed ((heap f)[a := q])"
    using ok(1) by (auto simp: types_ok_def list_all_iff dest!: set_update_subset_insert [THEN subsetD])
  moreover have "map class_of ((heap f)[a := q]) = cs"
    using ok(1) cls a(2) h by (simp add: types_ok_def classes_def map_update_same)
  ultimately show ?thesis using g a(1) h by (simp add: types_ok_def classes_def)
qed

section \<open>The receive loop and the server\<close>

lemma receive_loop_types:
  "receive_loop debug buf received off inward f = Inr (inward', off', g) \<Longrightarrow> pool_inv f held \<Longrightarrow> types_ok cs f \<Longrightarrow>
     types_ok cs g"
proof (induction debug buf received off inward f arbitrary: held rule: receive_loop.induct)
  case (1 debug buf received off inward f)
  show ?case
  proof (cases "IsRemainingBufferBigenough buf off received = Some True")
    case False
    then show ?thesis using "1.prems"
      by (subst (asm) receive_loop.simps) (auto split: option.splits bool.splits)
  next
    case True
    then obtain ptr o1 g1 where s: "SizePacket_SerializeIn debug buf off f = Inr (ptr, o1, g1)"
      and l: "receive_loop debug buf received o1 (inward @ [ptr]) g1 = Inr (inward', off', g)"
      using "1.prems" by (subst (asm) receive_loop.simps) auto
    obtain a where "pool_inv g1 (a # held)" using SizePacket_In_inv [OF "1.prems"(2) s] by blast
    moreover have "types_ok cs g1"
      by (rule SizePacket_In_types [OF "1.prems"(3) pool_invD(1) [OF "1.prems"(2)] s])
    ultimately show ?thesis using "1.IH" [OF True refl s refl refl l] by blast
  qed
qed

lemma types_ok_heap: "types_ok cs f \<Longrightarrow> heap g = heap f \<Longrightarrow> types_ok cs g"
  by (simp add: types_ok_def classes_def)

lemma Release_heap_same: "Release p f = Inr (b, q, g) \<Longrightarrow> heap g = heap f"
  by (auto simp: Release_def split: option.splits)

lemma server_step_types:
  assumes "server_step debug s s'" and own: "own_inv s" and sch: "sched_inv s" and ok: "types_ok cs (packets s)"
  shows "types_ok cs (packets s')"
  using assms(1)
proof (cases rule: server_step.cases)
  case (received c result)
  have c: "c < length (conns (complete (ReadSome c) s))"
    using read_connection(4) [OF sch received(1)] by (simp add: complete_def)
  show ?thesis
  proof (cases result)
    case (Some bs)
    then show ?thesis
      using on_read_data [OF received(3) [unfolded Some] c] receive_loop_types [OF _ own_invD(1) [OF own] ok]
      by (auto simp: complete_def)
  next
    case None
    then show ?thesis using received(3) ok by (simp add: on_read_error complete_def)
  qed
next
  case (dequeue c)
  then show ?thesis using DequeMessage_state [OF dequeue(2)] types_ok_heap [OF ok] Release_heap_same by fastforce
next
  case (send c mem bp)
  then show ?thesis using SendMessage_state ok by fastforce
qed (use ok in \<open>auto simp: complete_def HandleReschedule_eq CleanupClosedConnections_def
    NewConnectionAcceptedHandler_def BeginAcceptingNewConnections_def RescheduleMe_def Let_def split: if_splits\<close>)

lemma server_reach_types:
  "server_reach debug junk s \<Longrightarrow>
     \<exists>f. InitFactory junk self_registered = Inr f \<and> types_ok (classes f) (packets s)"
proof (induction rule: server_reach.induct)
  case (start f mem ep)
  have "types_ok (classes f) f"
    using InitFactory_new [OF start(1)] new_packets_well_typed
    unfolding types_ok_def all_new_def list_all_iff by metis
  then show ?case using start(1)
    by (auto simp: BeginAcceptingNewConnections_def new_server_def Let_def)
next
  case (step s s')
  then show ?case using server_step_types server_reach_inv by blast
qed

end
