(* ===== verification/Tcp_Service.thy ===== *)
theory Tcp_Service
  imports Tcp_Server
begin

text \<open>
  \<^verbatim>\<open>TCPThreader\<close> with its \<^verbatim>\<open>io_service\<close>: which handlers of the server are run at all. The five threads of
  the group run the \<^verbatim>\<open>io_service\<close>, and \<^verbatim>\<open>ThreadRun\<close> calls \<^verbatim>\<open>run()\<close> as well. A call of \<^verbatim>\<open>run()\<close> runs
  handlers until the \<^verbatim>\<open>io_service\<close> is stopped, by \<^verbatim>\<open>stop()\<close> or because there is no work left, and nothing
  restarts a stopped \<^verbatim>\<open>io_service\<close>. \<^verbatim>\<open>BeginService\<close> waits for signals on a \<^verbatim>\<open>signal_set\<close> that is a local
  variable: its destruction cancels the wait, and the handler of a cancelled wait, here \<^verbatim>\<open>stop()\<close>, runs
  like that of any other operation.
\<close>

section \<open>The service\<close>

text \<open>\<open>wait_aborted\<close>: the handler of the cancelled wait has still to run.\<close>

record tcp_service =
  service_threader :: threader
  io_stopped :: bool
  wait_aborted :: bool

definition TCPThreader_BeginService :: "bytes \<Rightarrow> U16 \<times> string \<Rightarrow> factory \<Rightarrow> threader \<Rightarrow> tcp_service" where
  "TCPThreader_BeginService mem ep f t =
     \<lparr>service_threader = BeginService mem ep f t, io_stopped = False, wait_aborted = True\<rparr>"

definition service_stop :: "tcp_service \<Rightarrow> tcp_service" where
  "service_stop v = v\<lparr>io_stopped := True, wait_aborted := False\<rparr>"

definition with_server :: "tcp_server \<Rightarrow> tcp_service \<Rightarrow> tcp_service" where
  "with_server s v = v\<lparr>service_threader := (service_threader v)\<lparr>tcpServer := Some s\<rparr>\<rparr>"

text \<open>The destructor: \<^verbatim>\<open>join_all\<close> waits for the five threads, so it returns only if \<^verbatim>\<open>run()\<close> does.\<close>

definition delete_TCPThreader :: "tcp_service \<Rightarrow> tcp_service option" where
  "delete_TCPThreader v =
     (let v = v\<lparr>service_threader := Threader_Stop (service_threader v)\<rparr>
      in if \<not> io_stopped v then None
         else Some (v\<lparr>service_threader := (service_threader v)\<lparr>tcpServer := None\<rparr>\<rparr>))"

text \<open>A completion handler of the server.\<close>

inductive io_handler :: "bool \<Rightarrow> tcp_server \<Rightarrow> tcp_server \<Rightarrow> bool" for debug where
  accepted: "Accept c \<in> set (pending s) \<Longrightarrow> length mem = max_length \<Longrightarrow>
     io_handler debug s (NewConnectionAcceptedHandler c error mem ep (complete (Accept c) s))"
| received: "ReadSome c \<in> set (pending s) \<Longrightarrow>
     (case result of Some bs \<Rightarrow> length bs \<le> max_length | None \<Rightarrow> True) \<Longrightarrow>
     on_read debug c result (complete (ReadSome c) s) = Inr s' \<Longrightarrow> io_handler debug s s'"
| written: "Write c bs \<in> set (pending s) \<Longrightarrow> io_handler debug s (complete (Write c bs) s)"

text \<open>
  \<open>service_round\<close> is a round of \<^verbatim>\<open>ThreadRun\<close> from the return of \<^verbatim>\<open>run()\<close> to the next return, which is
  immediate since the \<^verbatim>\<open>io_service\<close> is stopped. The rest are calls of the user.
\<close>

inductive tcp_service_step :: "bool \<Rightarrow> tcp_service \<Rightarrow> tcp_service \<Rightarrow> bool" for debug where
  handler: "\<not> io_stopped v \<Longrightarrow> tcpServer (service_threader v) = Some s \<Longrightarrow> io_handler debug s s' \<Longrightarrow>
     tcp_service_step debug v (with_server s' v)"
| wait_handler: "\<not> io_stopped v \<Longrightarrow> wait_aborted v \<Longrightarrow> tcp_service_step debug v (service_stop v)"
| no_work: "\<not> work_guard (service_threader v) \<Longrightarrow> tcpServer (service_threader v) = Some s \<Longrightarrow> pending s = [] \<Longrightarrow>
     tcp_service_step debug v (service_stop v)"
| service_round: "io_stopped v \<Longrightarrow>
     tcp_service_step debug v (v\<lparr>service_threader := snd (ThreadRun_round id (service_threader v))\<rparr>)"
| prepare_stop: "tcp_service_step debug v (v\<lparr>service_threader := Threader_PrepareStop (service_threader v)\<rparr>)"
| stop_call: "tcp_service_step debug v (v\<lparr>service_threader := Threader_Stop (service_threader v)\<rparr>)"
| send: "tcpServer (service_threader v) = Some s \<Longrightarrow> length mem = 120 \<Longrightarrow> SendMessage mem c bp s = Inr s' \<Longrightarrow>
     tcp_service_step debug v (with_server s' v)"

inductive tcp_service_reach :: "bool \<Rightarrow> factory \<Rightarrow> tcp_service \<Rightarrow> bool" for debug f where
  begun: "tcp_service_reach debug f (TCPThreader_BeginService mem ep f (new_TCPThreader port))"
| step: "tcp_service_reach debug f v \<Longrightarrow> tcp_service_step debug v v' \<Longrightarrow> tcp_service_reach debug f v'"

section \<open>What it does\<close>

text \<open>Reads are only started by \<^verbatim>\<open>ThreadRun\<close>, once the \<^verbatim>\<open>io_service\<close> has been stopped.\<close>

definition unread :: "factory \<Rightarrow> bool \<Rightarrow> tcp_server \<Rightarrow> bool" where
  "unread f stopped s \<longleftrightarrow> packets s = f \<and> (\<forall>conn\<in>set (conns s). inwardPackets conn = [] \<and> \<not> hasClosed conn) \<and>
     (\<not> stopped \<longrightarrow> (\<forall>c. ReadSome c \<notin> set (pending s)))"

definition service_inv :: "factory \<Rightarrow> tcp_service \<Rightarrow> bool" where
  "service_inv f v \<longleftrightarrow> (\<exists>s. tcpServer (service_threader v) = Some s \<and> unread f (io_stopped v) s)"

lemma unread_begin:
  "unread f stopped s \<Longrightarrow> unread f stopped (BeginAcceptingNewConnections mem ep s)"
  by (auto simp: unread_def BeginAcceptingNewConnections_def TCPConnection_Create_def Let_def)

lemma io_handler_unread:
  assumes "io_handler debug s s'" and u: "unread f False s"
  shows "unread f False s'"
  using assms(1)
proof (cases rule: io_handler.cases)
  case (accepted c mem error ep)
  have "unread f False (complete (Accept c) s)"
    using u by (auto simp: unread_def complete_def dest: set_remove1_subset [THEN subsetD])
  moreover have "unread f False (RescheduleMe c t)" if "unread f False t" for t
    using that by (simp add: unread_def RescheduleMe_def)
  moreover have "unread f False (t\<lparr>connectionsMade := m\<rparr>)" if "unread f False t" for t m
    using that by (simp add: unread_def)
  ultimately show ?thesis unfolding accepted(1) NewConnectionAcceptedHandler_def Let_def
    by (intro unread_begin) (auto simp: unread_def RescheduleMe_def)
next
  case (received c result)
  then show ?thesis using u by (simp add: unread_def)
next
  case (written c bs)
  then show ?thesis using u by (auto simp: unread_def complete_def dest: set_remove1_subset [THEN subsetD])
qed

lemma ThreadRun_round_unread:
  assumes "tcpServer t = Some s" and "unread f True s"
  shows "\<exists>s'. tcpServer (snd (ThreadRun_round id t)) = Some s' \<and> unread f True s'"
  using assms by (auto simp: ThreadRun_round_def Let_def unread_def HandleReschedule_eq CleanupClosedConnections_def)

lemma tcp_service_step_inv:
  assumes "tcp_service_step debug v v'" and inv: "service_inv f v"
  shows "service_inv f v'"
  using assms(1)
proof (cases rule: tcp_service_step.cases)
  case (handler s s')
  then show ?thesis using inv io_handler_unread by (auto simp: service_inv_def with_server_def)
next
  case service_round
  then show ?thesis using inv ThreadRun_round_unread by (fastforce simp: service_inv_def)
next
  case (send s mem c bp s')
  then show ?thesis using inv SendMessage_state [OF send(4)] by (auto simp: service_inv_def with_server_def unread_def)
qed (use inv in \<open>auto simp: service_inv_def service_stop_def unread_def Threader_PrepareStop_def Threader_Stop_def\<close>)

lemma tcp_service_reach_inv: "tcp_service_reach debug f v \<Longrightarrow> service_inv f v"
proof (induction rule: tcp_service_reach.induct)
  case (begun mem ep port)
  have "unread f False (new_server f)" by (simp add: unread_def new_server_def)
  then show ?case
    using unread_begin by (simp add: service_inv_def TCPThreader_BeginService_def BeginService_def)
next
  case (step v v')
  then show ?case using tcp_service_step_inv by blast
qed

text \<open>A stopped service stays stopped, and no client is accepted any more.\<close>

lemma stopped_forever:
  "(tcp_service_step debug)\<^sup>*\<^sup>* v v' \<Longrightarrow> io_stopped v \<Longrightarrow> tcpServer (service_threader v) = Some s \<Longrightarrow>
     io_stopped v' \<and> (\<exists>s'. tcpServer (service_threader v') = Some s' \<and> conns s' = conns s \<and>
       set (connectionsMade s') \<subseteq> set (connectionsMade s))"
proof (induction rule: rtranclp_induct)
  case (step y z)
  then obtain t where t: "io_stopped y" "tcpServer (service_threader y) = Some t" "conns t = conns s"
    "set (connectionsMade t) \<subseteq> set (connectionsMade s)" by blast
  from step(2) show ?case
  proof (cases rule: tcp_service_step.cases)
    case service_round
    then show ?thesis using t
      by (auto simp: ThreadRun_round_def Let_def HandleReschedule_eq CleanupClosedConnections_def cleanup_loop_filter)
  next
    case (send s mem c bp s')
    then show ?thesis using t SendMessage_state [OF send(4)] by (auto simp: with_server_def)
  qed (use t in \<open>auto simp: service_stop_def Threader_PrepareStop_def Threader_Stop_def\<close>)
qed auto

text \<open>The destructor leaves \<open>isThreadRunning\<close>, on which the detached \<^verbatim>\<open>ThreadRun\<close> keeps running.\<close>

lemma delete_TCPThreader_running:
  "delete_TCPThreader v = Some v' \<Longrightarrow>
     isThreadRunning (service_threader v') = isThreadRunning (service_threader v) \<and>
     tcpServer (service_threader v') = None"
  by (auto simp: delete_TCPThreader_def Let_def Threader_Stop_def split: if_splits)

end
