(* ===== verification/Reschedule_Race.thy ===== *)
theory Reschedule_Race
  imports Tcp_Service
begin

text \<open>
  \<^verbatim>\<open>TCPServer\<close> with the thread of \<^verbatim>\<open>TCPThreader::ThreadRun\<close> beside the threads that run the handlers.
  \<^verbatim>\<open>HandleReschedule\<close> ("needs threading magic") takes no lock, so handlers run between its statements:
  its loop over the \<^verbatim>\<open>std::list\<close>, whose iterators a \<^verbatim>\<open>push_back\<close> leaves valid, and the \<^verbatim>\<open>clear\<close> behind it. A
  list operation is one step; what two list operations do to the memory of a list when they overlap is
  undefined and not modelled.
\<close>

section \<open>HandleReschedule, one statement at a time\<close>

text \<open>\<open>At i\<close>: the iterator of the loop is at position \<open>i\<close>; \<open>Leaving\<close>: it has reached the end.\<close>

datatype resched_pc = Resting | At nat | Leaving

fun resched_stmt :: "tcp_server \<Rightarrow> resched_pc \<Rightarrow> tcp_server \<times> resched_pc" where
  "resched_stmt s Resting = (s, At 0)"
| "resched_stmt s (At i) =
     (if i < length (connectionsAwaitingSchedule s)
      then (Start (connectionsAwaitingSchedule s ! i) s, At (Suc i)) else (s, Leaving))"
| "resched_stmt s Leaving = (s\<lparr>connectionsAwaitingSchedule := []\<rparr>, Resting)"

text \<open>A run of one call, with what the other threads reschedule meanwhile.\<close>

datatype resched_event = Stmt | Other nat

fun resched_run :: "resched_event list \<Rightarrow> tcp_server \<times> resched_pc \<Rightarrow> tcp_server \<times> resched_pc" where
  "resched_run [] x = x"
| "resched_run (Stmt # es) (s, pc) = resched_run es (resched_stmt s pc)"
| "resched_run (Other c # es) (s, pc) = resched_run es (RescheduleMe c s, pc)"

fun others :: "resched_event list \<Rightarrow> nat list" where
  "others [] = []"
| "others (Stmt # es) = others es"
| "others (Other c # es) = c # others es"

text \<open>Undisturbed, the statements do what \<open>HandleReschedule\<close> says as one operation.\<close>

lemma resched_loop_alone:
  "i \<le> length (connectionsAwaitingSchedule s) \<Longrightarrow>
     resched_run (replicate (length (connectionsAwaitingSchedule s) - i) Stmt) (s, At i) =
       (fold Start (drop i (connectionsAwaitingSchedule s)) s, At (length (connectionsAwaitingSchedule s)))"
proof (induction "length (connectionsAwaitingSchedule s) - i" arbitrary: s i)
  case (Suc n)
  let ?aw = "connectionsAwaitingSchedule s"
  have i: "i < length ?aw" using Suc(2) by simp
  have aw: "connectionsAwaitingSchedule (Start (?aw ! i) s) = ?aw" by (simp add: Start_def)
  have n: "length ?aw - i = Suc (length ?aw - Suc i)" using i by simp
  have "resched_run (replicate (length ?aw - Suc i) Stmt) (Start (?aw ! i) s, At (Suc i)) =
      (fold Start (drop (Suc i) ?aw) (Start (?aw ! i) s), At (length ?aw))"
    using Suc(1) [of "Start (?aw ! i) s" "Suc i"] Suc(2) i by (simp add: aw)
  then show ?case using i by (simp add: n Cons_nth_drop_Suc [symmetric])
qed simp

lemma resched_run_append: "resched_run (es @ es') x = resched_run es' (resched_run es x)"
  by (induction es x rule: resched_run.induct) simp_all

lemma resched_alone:
  "resched_run (Stmt # replicate (length (connectionsAwaitingSchedule s)) Stmt @ [Stmt, Stmt]) (s, Resting) =
     (HandleReschedule s, Resting)"
proof -
  have "resched_run (replicate (length (connectionsAwaitingSchedule s)) Stmt) (s, At 0) =
      (fold Start (connectionsAwaitingSchedule s) s, At (length (connectionsAwaitingSchedule s)))"
    using resched_loop_alone [of 0 s] by simp
  then show ?thesis by (simp add: resched_run_append fold_Start HandleReschedule_eq)
qed

text \<open>
  Any interleaving: what is rescheduled while the loop runs is started by it, what comes after the
  \<^verbatim>\<open>clear\<close> waits for the next call, and what comes in between is lost.
\<close>

lemma others_append [simp]: "others (es @ es') = others es @ others es'"
  by (induction es rule: others.induct) simp_all

lemma resched_run_Stmt: "resched_run (Stmt # es) x = resched_run es (resched_stmt (fst x) (snd x))"
  by (cases x) simp

lemma run_others:
  "Stmt \<notin> set es \<Longrightarrow> resched_run es (s, pc) =
     (s\<lparr>connectionsAwaitingSchedule := connectionsAwaitingSchedule s @ others es\<rparr>, pc)"
  by (induction es arbitrary: s rule: others.induct) (simp_all add: RescheduleMe_def)

fun loop_position :: "resched_pc \<Rightarrow> nat" where
  "loop_position (At i) = i"
| "loop_position _ = 0"

lemma loop_position_bound:
  "resched_run es (s, pc) = (s', pc') \<Longrightarrow> loop_position pc' \<le> loop_position pc + count_list es Stmt"
proof (induction es arbitrary: s pc)
  case (Cons e es)
  show ?case
  proof (cases e)
    case Stmt
    obtain s1 pc1 where st: "resched_stmt s pc = (s1, pc1)" by (cases "resched_stmt s pc")
    then have "loop_position pc1 \<le> Suc (loop_position pc)" by (cases pc) (auto split: if_splits)
    then show ?thesis using Cons.IH [of s1 pc1] Cons.prems Stmt st by simp
  next
    case (Other c)
    then show ?thesis using Cons.IH [of "RescheduleMe c s" pc] Cons.prems by simp
  qed
qed simp

text \<open>The loop: as many statements as it has elements are the loop and nothing else.\<close>

lemma loop_run:
  assumes "resched_run es (s, At i) = (s', At (i + count_list es Stmt))"
    and "i \<le> length (connectionsAwaitingSchedule s)"
  shows "s' = s\<lparr>pending := pending s @ map ReadSome
        (take (count_list es Stmt) (drop i (connectionsAwaitingSchedule s @ others es))),
      connectionsAwaitingSchedule := connectionsAwaitingSchedule s @ others es\<rparr>"
  using assms
proof (induction es arbitrary: s i)
  case (Cons e es)
  let ?aw = "connectionsAwaitingSchedule s"
  show ?case
  proof (cases e)
    case Stmt
    have i: "i < length ?aw"
    proof (rule ccontr)
      assume "\<not> i < length ?aw"
      then have "resched_run es (s, Leaving) = (s', At (Suc (i + count_list es Stmt)))"
        using Cons.prems(1) Stmt by simp
      then show False using loop_position_bound by fastforce
    qed
    have "resched_run es (Start (?aw ! i) s, At (Suc i)) = (s', At (Suc i + count_list es Stmt))"
      using Cons.prems(1) Stmt i by simp
    then have "s' = (Start (?aw ! i) s)\<lparr>pending := pending (Start (?aw ! i) s) @ map ReadSome
          (take (count_list es Stmt) (drop (Suc i) (?aw @ others es))),
        connectionsAwaitingSchedule := ?aw @ others es\<rparr>"
      using Cons.IH [of "Start (?aw ! i) s" "Suc i"] i by (simp add: Start_def)
    moreover have "drop i (?aw @ others es) = ?aw ! i # drop (Suc i) (?aw @ others es)"
      using i Cons_nth_drop_Suc [of i "?aw @ others es"] by (simp add: nth_append)
    ultimately show ?thesis using Stmt by (simp add: Start_def)
  next
    case (Other c)
    then show ?thesis
      using Cons.IH [of "RescheduleMe c s" i] Cons.prems by (simp add: RescheduleMe_def)
  qed
qed simp

lemma resched_interleaved:
  assumes loop: "resched_run es (s, At 0) = (s', At (count_list es Stmt))"
    and all: "count_list es Stmt = length (connectionsAwaitingSchedule s @ others es)"
    and gap: "Stmt \<notin> set gap" and later: "Stmt \<notin> set later"
  shows "resched_run (es @ Stmt # gap @ Stmt # later) (s, At 0) =
    ((HandleReschedule (s\<lparr>connectionsAwaitingSchedule := connectionsAwaitingSchedule s @ others es\<rparr>))
       \<lparr>connectionsAwaitingSchedule := others later\<rparr>, Resting)"
proof -
  have "s' = s\<lparr>pending := pending s @ map ReadSome (connectionsAwaitingSchedule s @ others es),
      connectionsAwaitingSchedule := connectionsAwaitingSchedule s @ others es\<rparr>"
    using loop_run [of es s 0 s'] loop all by simp
  then show ?thesis
    using all
    by (simp add: resched_run_append loop resched_run_Stmt run_others [OF gap] run_others [OF later] HandleReschedule_eq)
qed

section \<open>The server with its service thread\<close>

text \<open>
  \<open>io\<close> is a handler on one of the threads of the \<^verbatim>\<open>io_service\<close>, \<open>service\<close> a statement of \<^verbatim>\<open>HandleReschedule\<close>
  and \<open>tidy\<close> \<^verbatim>\<open>CleanupClosedConnections\<close>, which the same thread calls before it.
\<close>

inductive threaded_step :: "bool \<Rightarrow> tcp_server \<times> resched_pc \<Rightarrow> tcp_server \<times> resched_pc \<Rightarrow> bool" for debug where
  io: "io_handler debug s s' \<Longrightarrow> threaded_step debug (s, pc) (s', pc)"
| service: "threaded_step debug (s, pc) (resched_stmt s pc)"
| tidy: "threaded_step debug (s, Resting) (CleanupClosedConnections s, Resting)"
| send: "c < length (conns s) \<Longrightarrow> length mem = 120 \<Longrightarrow> SendMessage mem c bp s = Inr s' \<Longrightarrow>
     threaded_step debug (s, pc) (s', pc)"
| dequeue: "c < length (conns s) \<Longrightarrow> DequeMessage c s = Inr s' \<Longrightarrow> threaded_step debug (s, pc) (s', pc)"

inductive threaded_reach :: "bool \<Rightarrow> (addr \<Rightarrow> U16) \<Rightarrow> tcp_server \<times> resched_pc \<Rightarrow> bool" for debug junk where
  begun: "InitFactory junk self_registered = Inr f \<Longrightarrow> length mem = max_length \<Longrightarrow>
     threaded_reach debug junk (BeginAcceptingNewConnections mem ep (new_server f), Resting)"
| step: "threaded_reach debug junk x \<Longrightarrow> threaded_step debug x y \<Longrightarrow> threaded_reach debug junk y"

text \<open>
  One accept is outstanding, for the connection made last, and only earlier connections are
  read or wait to be read.
\<close>

definition accept_inv :: "tcp_server \<Rightarrow> bool" where
  "accept_inv s \<longleftrightarrow> conns s \<noteq> [] \<and> filter is_accept (pending s) = [Accept (newest s)] \<and>
     (\<forall>c. c \<in> set (connectionsAwaitingSchedule s) \<or> ReadSome c \<in> set (pending s) \<longrightarrow> c < newest s) \<and>
     \<not> hasClosed (conns s ! newest s)"

text \<open>
  A connection that nobody will ever read: it is no longer waiting, no read of it is in
  progress, and it is not going to be accepted.
\<close>

definition forgotten :: "nat \<Rightarrow> tcp_server \<Rightarrow> bool" where
  "forgotten c s \<longleftrightarrow> c < length (conns s) \<and> c \<in> set (connectionsMade s) \<and> \<not> hasClosed (conns s ! c) \<and>
     c \<notin> set (connectionsAwaitingSchedule s) \<and> ReadSome c \<notin> set (pending s) \<and> Accept c \<notin> set (pending s)"

lemma accept_inv_begin:
  assumes "filter is_accept (pending s) = []" and "\<And>c. c \<in> set (connectionsAwaitingSchedule s) \<Longrightarrow> c < length (conns s)"
    and "\<And>c. ReadSome c \<in> set (pending s) \<Longrightarrow> c < length (conns s)"
  shows "accept_inv (BeginAcceptingNewConnections mem ep s)"
  using assms
  by (auto simp: accept_inv_def BeginAcceptingNewConnections_def newest_def TCPConnection_Create_def Let_def)

lemma accept_inv_same:
  assumes inv: "accept_inv s" and "length (conns t) = length (conns s)"
    and "filter is_accept (pending t) = filter is_accept (pending s)"
    and "\<And>c. c \<in> set (connectionsAwaitingSchedule t) \<or> ReadSome c \<in> set (pending t) \<Longrightarrow>
      c \<in> set (connectionsAwaitingSchedule s) \<or> ReadSome c \<in> set (pending s)"
    and "hasClosed (conns t ! newest s) \<Longrightarrow> hasClosed (conns s ! newest s)"
  shows "accept_inv t"
proof -
  have "newest t = newest s" "conns t \<noteq> []"
    using inv assms(2) by (auto simp: newest_def accept_inv_def)
  then show ?thesis using assms unfolding accept_inv_def by auto
qed

lemma accept_only:
  assumes "accept_inv s" and "Accept c \<in> set (pending s)" shows "c = newest s"
proof -
  have "Accept c \<in> set (filter is_accept (pending s))" using assms(2) by simp
  moreover have "filter is_accept (pending s) = [Accept (newest s)]" using assms(1) by (simp add: accept_inv_def)
  ultimately show ?thesis by simp
qed

lemma accept_inv_accepted:
  assumes inv: "accept_inv s" and acc: "Accept c \<in> set (pending s)"
  shows "accept_inv (NewConnectionAcceptedHandler c error mem ep (complete (Accept c) s))"
proof -
  have c: "c = newest s" using accept_only [OF inv acc] .
  have n: "newest s < length (conns s)" using inv by (simp add: accept_inv_def newest_def)
  have "filter is_accept (remove1 (Accept c) (pending s)) = []"
    using inv by (intro filter_remove1_only) (simp add: accept_inv_def c)
  moreover have "d < length (conns s)"
    if "d \<in> set (connectionsAwaitingSchedule s) \<or> ReadSome d \<in> set (remove1 (Accept c) (pending s))" for d
    using that inv n by (fastforce simp: accept_inv_def dest: set_remove1_subset [THEN subsetD])
  ultimately show ?thesis
    unfolding NewConnectionAcceptedHandler_def Let_def
    using n by (intro accept_inv_begin) (auto simp: complete_def RescheduleMe_def c split: if_splits)
qed

lemma accept_inv_received:
  assumes inv: "accept_inv s" and rd: "ReadSome c \<in> set (pending s)"
    and r: "on_read debug c result (complete (ReadSome c) s) = Inr s'"
  shows "accept_inv s'"
proof -
  let ?t = "complete (ReadSome c) s"
  have c: "c < newest s" "c < length (conns ?t)"
    using inv rd by (auto simp: accept_inv_def newest_def complete_def)
  have t: "filter is_accept (pending ?t) = filter is_accept (pending s)"
    "set (pending ?t) \<subseteq> set (pending s)" "conns ?t = conns s"
    "connectionsAwaitingSchedule ?t = connectionsAwaitingSchedule s"
    by (simp_all add: complete_def filter_remove1_other set_remove1_subset)
  show ?thesis
  proof (cases result)
    case (Some bs)
    then show ?thesis
      using on_read_data [OF r [unfolded Some] c(2)] c(1) t rd by (intro accept_inv_same [OF inv]) auto
  next
    case None
    then show ?thesis
      using r c(1) t by (intro accept_inv_same [OF inv]) (auto simp: on_read_error)
  qed
qed

lemma threaded_step_accept:
  assumes "threaded_step debug x y" and inv: "accept_inv (fst x)"
  shows "accept_inv (fst y)"
  using assms(1)
proof (cases rule: threaded_step.cases)
  case (io s s' pc)
  have inv: "accept_inv s" using inv io by simp
  from io(3) show ?thesis
  proof (cases rule: io_handler.cases)
    case (accepted c mem error ep)
    then show ?thesis using accept_inv_accepted [OF inv] io by simp
  next
    case (received c result)
    then show ?thesis using accept_inv_received [OF inv] io by simp
  next
    case (written c bs)
    then show ?thesis using io inv
      by (intro accept_inv_same [OF inv])
        (auto simp: complete_def filter_remove1_other dest: set_remove1_subset [THEN subsetD])
  qed
next
  case (service s pc)
  then show ?thesis using inv
    by (cases pc) (auto intro!: accept_inv_same [of s] simp: Start_def)
next
  case (tidy s)
  then show ?thesis using inv by (auto intro!: accept_inv_same [of s] simp: CleanupClosedConnections_def)
next
  case (send c s mem bp s' pc)
  then show ?thesis using inv SendMessage_state [OF send(5)] by (auto intro!: accept_inv_same [of s])
next
  case (dequeue c s s' pc)
  then show ?thesis using inv DequeMessage_state [OF dequeue(4)]
    by (auto intro!: accept_inv_same [of s] simp: nth_update_if split: if_splits)
qed

lemma threaded_reach_accept: "threaded_reach debug junk x \<Longrightarrow> accept_inv (fst x)"
  by (induction rule: threaded_reach.induct)
    (auto intro: accept_inv_begin threaded_step_accept simp: new_server_def)

text \<open>Once forgotten, always forgotten.\<close>

lemma forgotten_io:
  assumes "io_handler debug s s'" and f: "forgotten c s"
  shows "forgotten c s'"
  using assms(1)
proof (cases rule: io_handler.cases)
  case (accepted d mem error ep)
  then have "d \<noteq> c" using f by (auto simp: forgotten_def)
  then show ?thesis using accepted f
    by (auto simp: forgotten_def NewConnectionAcceptedHandler_def BeginAcceptingNewConnections_def RescheduleMe_def
        complete_def Let_def nth_append)
next
  case (received d result)
  then have d: "d \<noteq> c" using f by (auto simp: forgotten_def)
  let ?t = "complete (ReadSome d) s"
  have t: "forgotten c ?t" using f by (auto simp: forgotten_def complete_def dest: set_remove1_subset [THEN subsetD])
  show ?thesis
  proof (cases result)
    case None
    then show ?thesis using received d t by (simp add: on_read_error forgotten_def)
  next
    case (Some bs)
    show ?thesis
    proof (cases "d < length (conns ?t)")
      case True
      then show ?thesis
        using on_read_data [OF received(3) [unfolded Some] True] d t by (auto simp: forgotten_def)
    next
      case False
      then show ?thesis
        using received(3) d t by (auto simp: Some on_read_def Let_def RescheduleMe_def forgotten_def)
    qed
  qed
next
  case (written d bs)
  then show ?thesis using f by (auto simp: forgotten_def complete_def dest: set_remove1_subset [THEN subsetD])
qed

lemma forgotten_step:
  assumes "threaded_step debug x y" and f: "forgotten c (fst x)"
  shows "forgotten c (fst y)"
  using assms(1)
proof (cases rule: threaded_step.cases)
  case (io s s' pc)
  then show ?thesis using f forgotten_io by simp
next
  case (service s pc)
  then show ?thesis using f by (cases pc) (auto simp: forgotten_def Start_def)
next
  case (tidy s)
  then show ?thesis using f by (auto simp: forgotten_def CleanupClosedConnections_def cleanup_loop_filter)
next
  case (send d s mem bp s' pc)
  then show ?thesis using f SendMessage_state [OF send(5)] by (auto simp: forgotten_def)
next
  case (dequeue d s s' pc)
  then show ?thesis using f DequeMessage_state [OF dequeue(4)] by (auto simp: forgotten_def nth_update_if split: if_splits)
qed

lemma forgotten_steps: "(threaded_step debug)\<^sup>*\<^sup>* x y \<Longrightarrow> forgotten c (fst x) \<Longrightarrow> forgotten c (fst y)"
  by (induction rule: rtranclp_induct) (auto intro: forgotten_step)

text \<open>The gap: an accept that completes between the loop and the \<^verbatim>\<open>clear\<close>.\<close>

lemma gap_forgets:
  assumes inv: "accept_inv s" and acc: "Accept c \<in> set (pending s)"
  shows "forgotten c (fst (resched_stmt (NewConnectionAcceptedHandler c False mem ep (complete (Accept c) s)) Leaving))"
proof -
  have c: "c = newest s" "c < length (conns s)"
    using accept_only [OF inv acc] inv by (auto simp: accept_inv_def newest_def)
  have "filter is_accept (remove1 (Accept c) (pending s)) = []"
    using inv c by (intro filter_remove1_only) (simp add: accept_inv_def)
  then have "Accept c \<notin> set (remove1 (Accept c) (pending s))"
    by (metis filter_empty_conv is_accept.simps(1))
  moreover have "ReadSome c \<notin> set (pending s)" using inv c by (auto simp: accept_inv_def)
  ultimately show ?thesis using inv c
    by (auto simp: forgotten_def NewConnectionAcceptedHandler_def BeginAcceptingNewConnections_def RescheduleMe_def
        complete_def Let_def nth_append accept_inv_def dest: set_remove1_subset [THEN subsetD])
qed

end
