(* ===== verification/Base64.thy ===== *)
theory Base64
  imports Prelude
begin

text \<open>
  \<^verbatim>\<open>General/Base64.cpp\<close>. The work on the bits is done by iterators of Boost, which are arguments:
  \<open>enc bs\<close> are the characters of the range from \<^verbatim>\<open>base64_enc(p)\<close> to \<^verbatim>\<open>base64_enc(p + n)\<close> over the
  \<open>n\<close> bytes \<open>bs\<close>, and \<open>dec src i\<close> is the value of \<^verbatim>\<open>base64_dec(src)\<close> after \<open>i\<close> increments, \<^term>\<open>None\<close>
  when it throws \<^verbatim>\<open>dataflow_exception\<close>. What the documentation of Boost says of them is stated by
  \<open>encodes\<close> and \<open>decodes\<close>. Nothing is said of how \<^verbatim>\<open>=\<close> is decoded.
\<close>

lemma unat_below_Suc:
  fixes i n :: U32
  assumes "i < n"
  shows "unat (i + 1) = unat i + 1" and "unat i < unat n"
proof -
  show lt: "unat i < unat n" using assms by (simp add: word_less_nat_alt)
  have "unat n < 2 ^ 32" using unsigned_less [of n] by simp
  with lt show "unat (i + 1) = unat i + 1" by (simp add: unat_word_ariths)
qed

lemma word_eq_of_nat: "unat w = n \<Longrightarrow> (w :: U32) = of_nat n"
  by auto

lemma unat_byte_less: "unat (b :: U8) < 256"
  using unsigned_less [of b] by simp

section \<open>The two functions\<close>

function pad_loop :: "bytes \<Rightarrow> U32 \<Rightarrow> U32 \<Rightarrow> (bytes \<times> U32) option" where
  "pad_loop dest i stop =
     (if i < stop then wr dest (unat i) [0x3D] \<bind> (\<lambda>dest. pad_loop dest (i + 1) stop)
      else Some (dest, i))"
  by pat_completeness auto
termination
proof (relation "measure (\<lambda>(dest, i, stop). unat stop - unat i)")
  fix dest :: bytes and i stop :: U32 and d assume "i < stop"
  then show "((d, i + 1, stop), (dest, i, stop)) \<in> measure (\<lambda>(dest, i, stop). unat stop - unat i)"
    using unat_below_Suc [of i stop] by simp
qed simp

definition base64_encode :: "(bytes \<Rightarrow> bytes) \<Rightarrow> bytes \<Rightarrow> bytes \<Rightarrow> U32 \<Rightarrow> (bytes \<times> U32) option" where
  "base64_encode enc dest src len =
     (let one_third_len = len div 3;
          len_rounded_down = one_third_len * 3;
          j = len_rounded_down + one_third_len
      in do {
        s \<leftarrow> rd src 0 (unat len_rounded_down);
        dest \<leftarrow> wr dest 0 (enc s);
        if len_rounded_down \<noteq> len then do {
          t \<leftarrow> rd src (unat len_rounded_down) (unat (len - len_rounded_down));
          let tail = t @ drop (length t) [0, 0, 0];
          dest \<leftarrow> wr dest (unat j) (enc tail);
          pad_loop dest (len + one_third_len + 1) (j + 4) }
        else Some (dest, j) })"

function decode_loop :: "(bytes \<Rightarrow> nat \<Rightarrow> U8 option) \<Rightarrow> bytes \<Rightarrow> bytes \<Rightarrow> U32 \<Rightarrow> U32 \<Rightarrow> (bytes \<times> U32) option"
where
  "decode_loop dec src dest i output_len =
     (if i < output_len
      then (case dec src (unat i) of
              None \<Rightarrow> Some (dest, i)
            | Some b \<Rightarrow> wr dest (unat i) [b] \<bind> (\<lambda>dest. decode_loop dec src dest (i + 1) output_len))
      else Some (dest, i))"
  by pat_completeness auto
termination
proof (relation "measure (\<lambda>(dec, src, dest, i, n). unat n - unat i)")
  fix dec :: "bytes \<Rightarrow> nat \<Rightarrow> U8 option" and src dest d :: bytes and i n :: U32 and b assume "i < n"
  then show "((dec, src, d, i + 1, n), (dec, src, dest, i, n)) \<in> measure (\<lambda>(dec, src, dest, i, n). unat n - unat i)"
    using unat_below_Suc [of i n] by simp
qed simp

declare pad_loop.simps [simp del] decode_loop.simps [simp del]

text \<open>The result has the destination, \<^verbatim>\<open>*len\<close>, and the offset of the returned pointer from \<^verbatim>\<open>src\<close>.\<close>

definition base64_decode ::
  "(bytes \<Rightarrow> nat \<Rightarrow> U8 option) \<Rightarrow> bytes \<Rightarrow> bytes \<Rightarrow> U32 \<Rightarrow> (bytes \<times> U32 \<times> U32) option" where
  "base64_decode dec dest src len = do {
     (dest, i) \<leftarrow> decode_loop dec src dest 0 len;
     Some (dest, i, (i + 2) div 3 * 4) }"

section \<open>What the iterators do\<close>

text \<open>The bytes as groups of six bits, and the byte that two adjacent groups make.\<close>

fun sextets :: "bytes \<Rightarrow> nat list" where
  "sextets (a # b # c # bs) =
     [unat a div 4, unat a mod 4 * 16 + unat b div 16, unat b mod 16 * 4 + unat c div 64, unat c mod 64] @
     sextets bs"
| "sextets _ = []"

definition octet :: "nat \<Rightarrow> nat \<Rightarrow> nat \<Rightarrow> U8" where
  "octet i s t = word_of_nat ((s * 64 + t) div 2 ^ (4 - 8 * i mod 6) mod 256)"

definition encodes :: "(bytes \<Rightarrow> bytes) \<Rightarrow> (nat \<Rightarrow> U8) \<Rightarrow> bool" where
  "encodes enc alpha \<longleftrightarrow> (\<forall>bs. length bs mod 3 = 0 \<longrightarrow> enc bs = map alpha (sextets bs))"

definition decodes :: "(bytes \<Rightarrow> nat \<Rightarrow> U8 option) \<Rightarrow> (U8 \<Rightarrow> nat option) \<Rightarrow> bool" where
  "decodes dec value \<longleftrightarrow>
     (\<forall>src i. let f = 8 * i div 6 in f < length src \<longrightarrow>
        (case value (src ! f) of
           None \<Rightarrow> dec src i = None
         | Some s \<Rightarrow> f + 1 < length src \<longrightarrow>
             (case value (src ! (f + 1)) of
                None \<Rightarrow> dec src i = None
              | Some t \<Rightarrow> dec src i = Some (octet i s t))))"

lemma decodesD:
  assumes "decodes dec value"
  shows "8 * i div 6 + 1 < length src \<Longrightarrow> value (src ! (8 * i div 6)) = Some s \<Longrightarrow>
      value (src ! (8 * i div 6 + 1)) = Some t \<Longrightarrow> dec src i = Some (octet i s t)"
    and "8 * i div 6 < length src \<Longrightarrow> value (src ! (8 * i div 6)) = None \<Longrightarrow> dec src i = None"
    and "8 * i div 6 + 1 < length src \<Longrightarrow> value (src ! (8 * i div 6)) = Some s \<Longrightarrow>
      value (src ! (8 * i div 6 + 1)) = None \<Longrightarrow> dec src i = None"
  using assms [unfolded decodes_def Let_def, rule_format, of i src] by simp_all

section \<open>The encoded text\<close>

text \<open>The reference: the groups of the data filled up with zeros, the last ones replaced by \<^verbatim>\<open>=\<close>.\<close>

definition padding :: "nat \<Rightarrow> nat" where "padding n = (if n mod 3 = 0 then 0 else 3 - n mod 3)"

definition base64_text :: "(nat \<Rightarrow> U8) \<Rightarrow> bytes \<Rightarrow> bytes" where
  "base64_text alpha bs =
     (let p = padding (length bs); cs = map alpha (sextets (bs @ replicate p 0))
      in take (length cs - p) cs @ replicate p 0x3D)"

lemma length_sextets [simp]: "length (sextets bs) = 4 * (length bs div 3)"
  by (induction bs rule: sextets.induct) (auto simp: div_add_self1)

lemma sextets_append: "length bs mod 3 = 0 \<Longrightarrow> sextets (bs @ cs) = sextets bs @ sextets cs"
  by (induction bs rule: sextets.induct) (auto simp: mod_Suc split: if_splits)

lemma group_bounds:
  fixes a b :: nat
  assumes "a < 256" and "b < 256"
  shows "a div 4 < 64" and "a mod 4 * 16 + b div 16 < 64" and "a mod 16 * 4 + b div 64 < 64"
proof -
  have "a mod 4 < 4" "a mod 16 < 16" "b div 16 < 16" "b div 64 < 4" "a div 4 < 64" using assms by simp_all
  then show "a div 4 < 64" "a mod 4 * 16 + b div 16 < 64" "a mod 16 * 4 + b div 64 < 64" by linarith+
qed

lemma sextets_less: "s \<in> set (sextets bs) \<Longrightarrow> s < 64"
proof (induction bs rule: sextets.induct)
  case (1 a b c bs)
  have "unat a < 256" "unat b < 256" "unat c < 256"
    by (rule unat_byte_less)+
  then have "unat a div 4 < 64" "unat a mod 4 * 16 + unat b div 16 < 64"
    "unat b mod 16 * 4 + unat c div 64 < 64" "unat c mod 64 < 64" by (rule group_bounds | simp)+
  with 1 show ?case by auto
qed simp_all

lemma group_first: "b < 256 \<Longrightarrow> a < 256 \<Longrightarrow> (a div 4 * 64 + (a mod 4 * 16 + b div 16)) div 16 mod 256 = (a :: nat)"
proof -
  assume b: "b < 256" and a: "a < 256"
  have "a div 4 * 64 + (a mod 4 * 16 + b div 16) = b div 16 + a * 16"
    using div_mult_mod_eq [of a 4] by linarith
  moreover have "(b div 16 + a * 16) div 16 = a" using b by simp
  ultimately show ?thesis using a by simp
qed

lemma group_second:
  "b < 256 \<Longrightarrow> c < 256 \<Longrightarrow>
     ((a mod 4 * 16 + b div 16) * 64 + (b mod 16 * 4 + c div 64)) div 4 mod 256 = (b :: nat)"
proof -
  assume b: "b < 256" and c: "c < 256"
  obtain q m where "b = q * 16 + m" "m < 16" by (metis div_mult_mod_eq mod_less_divisor zero_less_numeral)
  then have e: "(a mod 4 * 16 + b div 16) * 64 + (b mod 16 * 4 + c div 64) = c div 64 + (b + a mod 4 * 256) * 4"
    by (simp add: algebra_simps)
  have d: "(c div 64 + (b + a mod 4 * 256) * 4) div 4 = b + a mod 4 * 256" using c by simp
  show ?thesis unfolding e d using b by simp
qed

lemma group_third: "c < 256 \<Longrightarrow> ((b mod 16 * 4 + c div 64) * 64 + c mod 64) mod 256 = (c :: nat)"
proof -
  assume c: "c < 256"
  obtain q m where "c = q * 64 + m" "m < 64" by (metis div_mult_mod_eq mod_less_divisor zero_less_numeral)
  then have "(b mod 16 * 4 + c div 64) * 64 + c mod 64 = c + b mod 16 * 256"
    by (simp add: algebra_simps)
  then show ?thesis using c by simp
qed

lemma octet_sextets:
  "i < length bs \<Longrightarrow> length bs mod 3 = 0 \<Longrightarrow>
     octet i (sextets bs ! (8 * i div 6)) (sextets bs ! (8 * i div 6 + 1)) = bs ! i"
proof (induction bs arbitrary: i rule: sextets.induct)
  case (1 a b c bs)
  have lt: "unat a < 256" "unat b < 256" "unat c < 256"
    by (rule unat_byte_less)+
  consider "i = 0" | "i = 1" | "i = 2" | k where "i = k + 3"
    by (metis One_nat_def Suc_1 add.commute less_2_cases_iff linorder_not_less less_Suc_eq numeral_3_eq_3 le_iff_add)
  then show ?case
  proof cases
    case 1
    with group_first [OF lt(2,1)] show ?thesis by (simp add: octet_def)
  next
    case 2
    with group_second [OF lt(2,3), of "unat a"] show ?thesis by (simp add: octet_def)
  next
    case 3
    with group_third [OF lt(3), of "unat b"] show ?thesis by (simp add: octet_def numeral_2_eq_2)
  next
    case (4 k)
    have "8 * (k + 3) = 8 * k + 4 * 6" by simp
    then have e: "8 * (k + 3) div 6 = 8 * k div 6 + 4" "8 * (k + 3) mod 6 = 8 * k mod 6"
      by (simp_all only: mod_mult_self1 div_mult_self1 zero_neq_numeral not_False_eq_True simp_thms)
    have "k < length bs" using 1(2) 4 by simp
    moreover have "length bs mod 3 = 0" using 1(3) by (simp add: mod_Suc split: if_splits)
    ultimately have "k < length bs" "length bs mod 3 = 0" .
    then show ?thesis using "1.IH" [of k] 4 e by (simp add: octet_def)
  qed
qed (simp_all add: mod_Suc split: if_splits)

lemma padding_props: "(n + padding n) mod 3 = 0" "padding n < 3" "n + padding n = 3 * ((n + 2) div 3)"
  by (simp_all add: padding_def) presburger+

lemma length_base64_text [simp]: "length (base64_text alpha bs) = 4 * ((length bs + 2) div 3)"
proof -
  have "4 * ((length bs + padding (length bs)) div 3) \<ge> padding (length bs)"
    using padding_props(2,3) [of "length bs"] by (auto simp: padding_def)
  then show ?thesis using padding_props(3) [of "length bs"] by (simp add: base64_text_def Let_def)
qed

lemma base64_text_nth:
  assumes "f + padding (length bs) < 4 * ((length bs + 2) div 3)"
  shows "base64_text alpha bs ! f = alpha (sextets (bs @ replicate (padding (length bs)) 0) ! f)"
proof -
  have "f < 4 * ((length bs + padding (length bs)) div 3) - padding (length bs)"
    using assms padding_props(3) [of "length bs"] by simp
  then show ?thesis by (simp add: base64_text_def Let_def nth_append)
qed

lemma text_reaches:
  assumes "i < n"
  shows "8 * i div 6 + 1 + padding n < 4 * ((n + 2) div 3)"
proof -
  obtain k r where n: "n = 3 * k + r" "r < 3"
    by (metis mult_div_mod_eq mod_less_divisor zero_less_numeral)
  have le: "8 * i div 6 \<le> 8 * (n - 1) div 6" using assms by (intro div_le_mono) simp
  have p: "padding n = (if r = 0 then 0 else 3 - r)" using n by (simp add: padding_def)
  have q: "(n + 2) div 3 = k + (if r = 0 then 0 else 1)" using n by auto
  consider "r = 0" | "r = 1" | "r = 2" using n(2) by linarith
  then show ?thesis
  proof cases
    case 1
    then obtain l where l: "k = Suc l" using assms n by (cases k) auto
    then have "8 * (n - 1) = 6 * (4 * l + 2) + 4" using n 1 by simp
    then have "8 * (n - 1) div 6 = 4 * l + 2" by simp
    then show ?thesis using le p q 1 l by simp
  next
    case 2
    then have "8 * (n - 1) div 6 = 4 * k" using n by simp
    then show ?thesis using le p q 2 by simp
  next
    case 3
    then have "8 * (n - 1) = 6 * (4 * k + 1) + 2" using n by simp
    then have "8 * (n - 1) div 6 = 4 * k + 1" by simp
    then show ?thesis using le p q 3 by simp
  qed
qed

section \<open>Encoding\<close>

lemma wr_overwrite:
  "wr buf off (xs @ ys) = Some b \<Longrightarrow> length zs = length ys \<Longrightarrow> wr b (off + length xs) zs = wr buf off (xs @ zs)"
  by (auto simp: wr_def split: if_splits)

lemma pad_loop_writes:
  "unat stop = unat i + m \<Longrightarrow> unat stop \<le> length dest \<Longrightarrow>
     pad_loop dest i stop = map_option (\<lambda>d. (d, stop)) (wr dest (unat i) (replicate m 0x3D))"
proof (induction m arbitrary: dest i)
  case 0
  then have "i = stop" by (simp add: word_unat_eq_iff)
  then show ?case using 0 by (simp add: pad_loop.simps buffer_simps)
next
  case (Suc m)
  have lt: "i < stop" using Suc.prems(1) by (simp add: word_less_nat_alt)
  obtain d where d: "wr dest (unat i) [0x3D] = Some d"
    using wr_defined_iff [of dest "unat i" "[0x3D]"] Suc.prems by auto
  have "pad_loop d (i + 1) stop = map_option (\<lambda>d. (d, stop)) (wr d (unat i + 1) (replicate m 0x3D))"
    using Suc.IH [of "i + 1" d] Suc.prems unat_below_Suc [OF lt] length_wr [OF d] by simp
  then show ?case
    using lt d wr_append [of dest "unat i" "[0x3D]" "replicate m 0x3D"] by (simp add: pad_loop.simps [of dest])
qed

lemma encode_words:
  fixes n :: nat
  assumes n: "n < 3 * 2 ^ 30 - 3"
  shows "unat (of_nat n :: U32) = n"
    and "unat (of_nat n div 3 * 3 :: U32) = 3 * (n div 3)"
    and "unat (of_nat n div 3 * 3 + of_nat n div 3 :: U32) = 4 * (n div 3)"
    and "unat (of_nat n - of_nat n div 3 * 3 :: U32) = n mod 3"
    and "unat (of_nat n + of_nat n div 3 + 1 :: U32) = n + n div 3 + 1"
    and "unat (of_nat n div 3 * 3 + of_nat n div 3 + 4 :: U32) = 4 * (n div 3) + 4"
    and "(of_nat n div 3 * 3 = (of_nat n :: U32)) = (n mod 3 = 0)"
proof -
  let ?len = "of_nat n :: U32"
  show len: "unat ?len = n" using n by (simp add: unat_of_nat take_bit_nat_eq_self)
  have third: "unat (?len div 3) = n div 3" by (simp add: unat_div len)
  show rounded: "unat (?len div 3 * 3) = 3 * (n div 3)"
    using n by (subst unat_word_ariths(2)) (simp add: third)
  show j: "unat (?len div 3 * 3 + ?len div 3) = 4 * (n div 3)"
    using n by (subst unat_word_ariths(1)) (simp add: third rounded)
  show "unat (?len - ?len div 3 * 3) = n mod 3"
    using rounded len by (simp add: unat_sub word_le_nat_alt minus_mult_div_eq_mod flip: minus_mult_div_eq_mod)
  show "unat (?len + ?len div 3 + 1) = n + n div 3 + 1"
    using n by (simp add: unat_word_ariths(1) third len)
  show "unat (?len div 3 * 3 + ?len div 3 + 4) = 4 * (n div 3) + 4"
    using n by (subst unat_word_ariths(1)) (simp only: j, simp)
  show "(?len div 3 * 3 = ?len) = (n mod 3 = 0)"
  proof -
    have "?len div 3 * 3 = ?len \<longleftrightarrow> 3 * (n div 3) = n" unfolding word_unat_eq_iff rounded len ..
    also have "\<dots> \<longleftrightarrow> n mod 3 = 0" by presburger
    finally show ?thesis .
  qed
qed

lemma base64_encode_whole:
  assumes enc: "encodes enc alpha" and n: "length data < 3 * 2 ^ 30 - 3" and r: "length data mod 3 = 0"
  shows "base64_encode enc dest (data @ rest) (of_nat (length data)) =
    map_option (\<lambda>d. (d, of_nat (4 * ((length data + 2) div 3)))) (wr dest 0 (base64_text alpha data))"
proof -
  let ?n = "length data" and ?len = "of_nat (length data) :: U32"
  note w = encode_words [OF n]
  have eq: "?len div 3 * 3 = ?len" using w(7) r by simp
  obtain m where "?n = 3 * m" using r by auto
  then have "4 * ((?n + 2) div 3) = 4 * (?n div 3)" by simp
  then have "?len + ?len div 3 = of_nat (4 * ((?n + 2) div 3))" using word_eq_of_nat [OF w(3)] eq by simp
  moreover have "rd (data @ rest) 0 ?n = Some data" by (simp add: rd_def)
  moreover have "enc data = base64_text alpha data"
    using enc r by (simp add: encodes_def base64_text_def padding_def)
  ultimately show ?thesis using eq w(1)
    by (cases "wr dest 0 (base64_text alpha data)") (simp_all add: base64_encode_def Let_def)
qed

text \<open>The whole groups of the data, and the incomplete one filled up with zeros.\<close>

abbreviation whole :: "bytes \<Rightarrow> bytes" where "whole bs \<equiv> take (3 * (length bs div 3)) bs"
abbreviation incomplete :: "bytes \<Rightarrow> bytes" where "incomplete bs \<equiv> drop (3 * (length bs div 3)) bs"

lemma length_whole: "length (whole bs) = 3 * (length bs div 3)"
  by simp

lemma length_incomplete: "length (incomplete bs) = length bs mod 3"
  by (simp add: minus_mult_div_eq_mod)

lemma tail_zeros:
  "length bs mod 3 \<noteq> 0 \<Longrightarrow>
     incomplete bs @ drop (length (incomplete bs)) [0, 0, 0] = incomplete bs @ replicate (padding (length bs)) 0"
proof -
  assume r: "length bs mod 3 \<noteq> 0"
  then have "length bs mod 3 = 1 \<or> length bs mod 3 = 2" by linarith
  then show ?thesis unfolding length_incomplete by (elim disjE) (simp_all add: padding_def numeral_2_eq_2)
qed

lemma encoded_blocks:
  assumes enc: "encodes enc alpha" and r: "length bs mod 3 \<noteq> 0"
  shows "length (enc (whole bs)) = 4 * (length bs div 3)"
    and "length (enc (incomplete bs @ replicate (padding (length bs)) 0)) = 4"
    and "base64_text alpha bs =
      take (4 * (length bs div 3) + 4 - padding (length bs))
        (enc (whole bs) @ enc (incomplete bs @ replicate (padding (length bs)) 0)) @
      replicate (padding (length bs)) 0x3D"
proof -
  let ?t = "incomplete bs @ replicate (padding (length bs)) 0"
  have t: "length ?t = 3" using r by (simp only: length_append length_replicate length_incomplete) (simp add: padding_def)
  have A: "enc (whole bs) = map alpha (sextets (whole bs))" and B: "enc ?t = map alpha (sextets ?t)"
    using enc t length_whole [of bs] by (simp_all only: encodes_def) simp_all
  show lA: "length (enc (whole bs)) = 4 * (length bs div 3)" unfolding A length_map length_sextets length_whole by simp
  show lB: "length (enc ?t) = 4" unfolding B length_map length_sextets t by simp
  have "sextets (bs @ replicate (padding (length bs)) 0) = sextets (whole bs @ ?t)"
    by (simp flip: append_assoc)
  also have "\<dots> = sextets (whole bs) @ sextets ?t"
    by (intro sextets_append) (simp only: length_whole, simp)
  finally have "map alpha (sextets (bs @ replicate (padding (length bs)) 0)) = enc (whole bs) @ enc ?t"
    by (simp only: A B map_append)
  then show "base64_text alpha bs =
      take (4 * (length bs div 3) + 4 - padding (length bs)) (enc (whole bs) @ enc ?t) @
      replicate (padding (length bs)) 0x3D"
    by (simp only: base64_text_def Let_def length_append lA lB)
qed

lemma base64_encode_tail:
  assumes enc: "encodes enc alpha" and n: "length data < 3 * 2 ^ 30 - 3" and r: "length data mod 3 \<noteq> 0"
    and room: "4 * ((length data + 2) div 3) \<le> length dest"
  shows "base64_encode enc dest (data @ rest) (of_nat (length data)) =
    map_option (\<lambda>d. (d, of_nat (4 * ((length data + 2) div 3)))) (wr dest 0 (base64_text alpha data))"
proof -
  let ?n = "length data" and ?len = "of_nat (length data) :: U32"
  let ?k = "?n div 3" and ?p = "padding ?n"
  let ?A = "enc (whole data)" and ?B = "enc (incomplete data @ replicate ?p 0)"
  note w = encode_words [OF n] and blocks = encoded_blocks [OF enc r]
  have p: "?p = 3 - ?n mod 3" "0 < ?n mod 3" "?n mod 3 < 3" using r by (simp_all add: padding_def)
  have split: "?n = 3 * ?k + ?n mod 3" by simp
  have q: "(?n + 2) div 3 = ?k + 1" using padding_props(3) [of ?n] p split by linarith
  have AB: "length (?A @ ?B) = 4 * ?k + 4" by (simp only: length_append blocks)
  have s: "rd (data @ rest) 0 (unat (?len div 3 * 3)) = Some (whole data)"
    using split by (simp add: rd_def w(2))
  have t: "rd (data @ rest) (unat (?len div 3 * 3)) (unat (?len - ?len div 3 * 3)) = Some (incomplete data)"
    unfolding w(2,4) using length_incomplete [of data] by (simp add: rd_def)
  obtain d2 where d2: "wr dest 0 (?A @ ?B) = Some d2"
    using wr_defined_iff [of dest 0 "?A @ ?B"] AB room q by auto
  then obtain d1 where d1: "wr dest 0 ?A = Some d1" "wr d1 (4 * ?k) ?B = Some d2"
    using blocks(1) by (auto simp: wr_append bind_eq_Some_conv)
  have "length (take (4 * ?k + 4 - ?p) (?A @ ?B)) = 4 * ?k + 4 - ?p" by (simp only: length_take AB)
  also have "\<dots> = ?n + ?k + 1" using p split by linarith
  finally have l: "length (take (4 * ?k + 4 - ?p) (?A @ ?B)) = ?n + ?k + 1" .
  have "length (replicate ?p (0x3D :: U8)) = length (drop (4 * ?k + 4 - ?p) (?A @ ?B))"
    unfolding length_drop length_replicate AB using p by linarith
  moreover have "wr dest 0 (take (4 * ?k + 4 - ?p) (?A @ ?B) @ drop (4 * ?k + 4 - ?p) (?A @ ?B)) = Some d2"
    unfolding append_take_drop_id by (rule d2)
  ultimately have "wr d2 (0 + (?n + ?k + 1)) (replicate ?p 0x3D) =
      wr dest 0 (take (4 * ?k + 4 - ?p) (?A @ ?B) @ replicate ?p 0x3D)"
    using wr_overwrite unfolding l [symmetric] by blast
  then have "wr d2 (?n + ?k + 1) (replicate ?p 0x3D) = wr dest 0 (base64_text alpha data)"
    unfolding blocks(3) by simp
  moreover have "pad_loop d2 (?len + ?len div 3 + 1) (?len div 3 * 3 + ?len div 3 + 4) =
      map_option (\<lambda>d. (d, ?len div 3 * 3 + ?len div 3 + 4)) (wr d2 (?n + ?k + 1) (replicate ?p 0x3D))"
    unfolding w(5) [symmetric]
  proof (rule pad_loop_writes)
    show "unat (?len div 3 * 3 + ?len div 3 + 4) = unat (?len + ?len div 3 + 1) + ?p"
      unfolding w(5,6) using p split by linarith
    show "unat (?len div 3 * 3 + ?len div 3 + 4) \<le> length d2"
      unfolding w(6) using room q length_wr [OF d2] by linarith
  qed
  moreover have "?len div 3 * 3 + ?len div 3 + 4 = of_nat (4 * ((?n + 2) div 3))"
    using word_eq_of_nat [OF w(6)] q by simp
  moreover have "?len div 3 * 3 \<noteq> ?len" using w(7) r by simp
  moreover have "enc (incomplete data @ drop (length (incomplete data)) [0, 0, 0]) = ?B"
    unfolding tail_zeros [OF r] by (rule refl)
  ultimately show ?thesis using s t d1 w(3) by (simp add: base64_encode_def Let_def)
qed

lemma base64_encode_text:
  assumes "encodes enc alpha" and "length data < 3 * 2 ^ 30 - 3"
    and "4 * ((length data + 2) div 3) \<le> length dest"
  shows "base64_encode enc dest (data @ rest) (of_nat (length data)) =
    map_option (\<lambda>d. (d, of_nat (4 * ((length data + 2) div 3)))) (wr dest 0 (base64_text alpha data))"
  using base64_encode_whole [OF assms(1,2)] base64_encode_tail [OF assms(1,2) _ assms(3)]
  by (cases "length data mod 3 = 0") simp_all

section \<open>Decoding\<close>

lemma decode_loop_reads:
  assumes "\<And>m. m < length bs \<Longrightarrow> dec src (k + m) = Some (bs ! m)"
    and "unat i = k" and "k + length bs \<le> unat n" and "k + length bs \<le> length dest"
  shows "decode_loop dec src dest i n =
    wr dest k bs \<bind> (\<lambda>d. decode_loop dec src d (of_nat (k + length bs)) n)"
  using assms
proof (induction bs arbitrary: k i dest)
  case Nil
  then have "i = of_nat k" by auto
  then show ?case using Nil by (simp add: buffer_simps)
next
  case (Cons b bs)
  have lt: "i < n" using Cons.prems(2,3) by (simp add: word_less_nat_alt)
  obtain d where d: "wr dest k [b] = Some d"
    using wr_defined_iff [of dest k "[b]"] Cons.prems(4) by auto
  have first: "dec src k = Some b" using Cons.prems(1) [of 0] by simp
  have "dec src (k + 1 + m) = Some (bs ! m)" if "m < length bs" for m
    using Cons.prems(1) [of "Suc m"] that by simp
  then have "decode_loop dec src d (i + 1) n =
      wr d (k + 1) bs \<bind> (\<lambda>d. decode_loop dec src d (of_nat (k + 1 + length bs)) n)"
    using Cons.IH [of "k + 1" "i + 1" d] Cons.prems(2,3,4) unat_below_Suc [OF lt] length_wr [OF d] by simp
  then show ?case using lt d first Cons.prems(2) wr_append [of dest k "[b]" bs]
    by (simp add: decode_loop.simps [of _ _ _ i])
qed

text \<open>Every character that a byte of the data needs lies before the padding.\<close>

lemma decodes_text:
  assumes dec: "decodes dec value" and inv: "\<forall>s<64. value (alpha s) = Some s" and i: "i < length data"
  shows "dec (base64_text alpha data @ more) i = Some (data ! i)"
proof -
  let ?P = "data @ replicate (padding (length data)) 0" and ?f = "8 * i div 6"
  have P: "length ?P mod 3 = 0" "length ?P div 3 = (length data + 2) div 3"
    using padding_props(1,3) [of "length data"] by simp_all
  have f: "?f + 1 + padding (length data) < 4 * ((length data + 2) div 3)" by (rule text_reaches [OF i])
  have get: "value ((base64_text alpha data @ more) ! g) = Some (sextets ?P ! g)"
    if "g + padding (length data) < 4 * ((length data + 2) div 3)" for g
  proof -
    have "g < length (sextets ?P)" using that P(2) by simp
    then have "sextets ?P ! g < 64" using sextets_less nth_mem by blast
    moreover have "(base64_text alpha data @ more) ! g = alpha (sextets ?P ! g)"
      using that by (simp add: nth_append base64_text_nth)
    ultimately show ?thesis using inv by simp
  qed
  have "dec (base64_text alpha data @ more) i = Some (octet i (sextets ?P ! ?f) (sextets ?P ! (?f + 1)))"
    by (rule decodesD(1) [OF dec]) (use get [of ?f] get [of "?f + 1"] f in simp_all)
  also have "octet i (sextets ?P ! ?f) (sextets ?P ! (?f + 1)) = data ! i"
    using octet_sextets [of i ?P] i P(1) by (simp add: nth_append)
  finally show ?thesis .
qed

lemma base64_decode_text:
  assumes "decodes dec value" and "\<forall>s<64. value (alpha s) = Some s" and n: "length data < 3 * 2 ^ 30 - 3"
    and room: "length data \<le> length dest"
    and stop: "m = of_nat (length data) \<or> length data \<le> unat m \<and> length data mod 3 = 0 \<and> value 0 = None"
  shows "base64_decode dec dest (base64_text alpha data @ 0 # more) m =
    Some (data @ drop (length data) dest, of_nat (length data), of_nat (4 * ((length data + 2) div 3)))"
proof -
  let ?n = "length data" and ?src = "base64_text alpha data @ 0 # more"
  have len: "unat (of_nat ?n :: U32) = ?n" using n by (simp add: unat_of_nat take_bit_nat_eq_self)
  have le: "?n \<le> unat m" using stop len by auto
  have "decode_loop dec ?src dest 0 m =
      wr dest 0 data \<bind> (\<lambda>d. decode_loop dec ?src d (of_nat ?n) m)"
    using decode_loop_reads [of data dec ?src 0 0 m dest] decodes_text [OF assms(1,2)] le room by simp
  moreover have "wr dest 0 data = Some (data @ drop ?n dest)" using room by (simp add: wr_def)
  moreover have "decode_loop dec ?src d (of_nat ?n) m = Some (d, of_nat ?n)" for d
  proof (cases "m = of_nat ?n")
    case True
    then show ?thesis by (simp add: decode_loop.simps)
  next
    case False
    then have z: "?n mod 3 = 0" "value 0 = None" using stop by auto
    from z(1) obtain k where "?n = 3 * k" by auto
    then have f: "8 * ?n div 6 = 4 * ((?n + 2) div 3)" by simp
    then have "?src ! (8 * ?n div 6) = 0" by (simp add: nth_append)
    then have "dec ?src ?n = None" using decodesD(2) [OF assms(1), of ?n ?src] z(2) f by simp
    then show ?thesis using len by (simp add: decode_loop.simps)
  qed
  moreover have "(of_nat ?n + 2) div 3 * 4 = (of_nat (4 * ((?n + 2) div 3)) :: U32)"
  proof -
    have "unat (of_nat ?n + 2 :: U32) = ?n + 2" using n len by (simp add: unat_word_ariths(1))
    then have "unat ((of_nat ?n + 2) div 3 :: U32) = (?n + 2) div 3" by (simp add: unat_div)
    then have "unat ((of_nat ?n + 2) div 3 * 4 :: U32) = 4 * ((?n + 2) div 3)"
      using n by (subst unat_word_ariths(2)) simp
    then show ?thesis by (rule word_eq_of_nat)
  qed
  ultimately show ?thesis by (simp add: base64_decode_def)
qed

text \<open>
  A character that is not in the alphabet ends the decoding, and the returned pointer is then
  behind it, not at it, unless it stands at the beginning of a group.
\<close>

lemma base64_decode_bad:
  assumes "decodes dec value" and "value a = Some s" and "value b = Some t" and "value c = None"
    and "3 \<le> length dest"
  shows "base64_decode dec dest [a, b, c, d, 0] 3 = Some (octet 0 s t # tl dest, 1, 4)"
proof -
  obtain x xs where d: "dest = x # xs" using assms(5) by (cases dest) auto
  have "dec [a, b, c, d, 0] 0 = Some (octet 0 s t)" "dec [a, b, c, d, 0] 1 = None"
    using decodesD(1) [OF assms(1), of 0 "[a, b, c, d, 0]" s t] assms(2,3)
      decodesD(3) [OF assms(1), of 1 "[a, b, c, d, 0]" t] assms(4) by simp_all
  then show ?thesis using d by (simp add: base64_decode_def decode_loop.simps wr_def)
qed

section \<open>The standard alphabet\<close>

text \<open>An instance of the iterators: the alphabet of RFC 4648, and the characters outside it rejected.\<close>

definition base64_alphabet :: bytes where
  "base64_alphabet =
     map of_char ''ABCDEFGHIJKLMNOPQRSTUVWXYZabcdefghijklmnopqrstuvwxyz0123456789+/''"

definition base64_char :: "nat \<Rightarrow> U8" where "base64_char s = base64_alphabet ! s"

definition base64_value :: "U8 \<Rightarrow> nat option" where
  "base64_value c = map_of (zip base64_alphabet [0..<64]) c"

definition base64_values :: "bytes \<Rightarrow> nat \<Rightarrow> U8 option" where
  "base64_values src i =
     (let f = 8 * i div 6
      in if f + 1 < length src
         then (case (base64_value (src ! f), base64_value (src ! (f + 1))) of
                 (Some s, Some t) \<Rightarrow> Some (octet i s t)
               | _ \<Rightarrow> None)
         else None)"

lemma base64_alphabet_distinct: "distinct base64_alphabet" "length base64_alphabet = 64"
  by (simp_all add: base64_alphabet_def)

lemma base64_value_char: "\<forall>s<64. base64_value (base64_char s) = Some s"
proof (intro allI impI)
  fix s :: nat assume "s < 64"
  then show "base64_value (base64_char s) = Some s"
    using base64_alphabet_distinct unfolding base64_value_def base64_char_def
    by (intro map_of_is_SomeI) (auto simp: in_set_zip intro!: exI [of _ s])
qed

lemma base64_values_decodes: "decodes base64_values base64_value"
  by (auto simp: decodes_def base64_values_def Let_def split: option.splits)

end
