(* ===== verification/Sample_Programs.thy ===== *)
theory Sample_Programs
  imports Socket_Tests Stream_Tests
begin

text \<open>
  The sample programs: the clients \<^verbatim>\<open>BoostASIO_Client02\<close>, \<^verbatim>\<open>BoostASIO_Client03_TCP\<close> and
  \<^verbatim>\<open>BoostASIO_Client04_TCP\<close>, the servers \<^verbatim>\<open>BoostASIO_Server02\<close> and \<^verbatim>\<open>BoostASIO_Server03\<close>, and the loops of
  \<^verbatim>\<open>ThreadingTest01\<close>. What the network and the keyboard deliver is an argument, and so is what the
  threads of a server or an \<^verbatim>\<open>io_context\<close> do while \<^verbatim>\<open>main\<close> sleeps or runs it.
\<close>

section \<open>BoostASIO\_Client02: one datagram\<close>

text \<open>An answer is an exception with its text, or a value.\<close>

record daytime_answers =
  resolved_to :: "string + string"
  opened :: "string + unit"
  sent_ok :: "string + unit"
  answered :: "string + bytes"

record program_result =
  exit_code :: nat
  std_out :: bytes
  std_err :: "string list"
  sent_datagrams :: "(string \<times> bytes) list"

definition hello_there :: bytes where
  "hello_there = map of_char ''hello there'' @ replicate 7 0"

definition client02_main :: "nat \<Rightarrow> daytime_answers \<Rightarrow> program_result" where
  "client02_main argc a =
     (let r = \<lparr>exit_code = 0, std_out = [], std_err = [], sent_datagrams = []\<rparr>
      in if argc \<noteq> 2 then r\<lparr>exit_code := 1, std_err := [''Usage: client <host>'']\<rparr>
         else case resolved_to a of
           Inl e \<Rightarrow> r\<lparr>std_err := [e]\<rparr>
         | Inr receiver_endpoint \<Rightarrow>
             (case opened a of
                Inl e \<Rightarrow> r\<lparr>std_err := [e]\<rparr>
              | Inr _ \<Rightarrow>
                  (case sent_ok a of
                     Inl e \<Rightarrow> r\<lparr>std_err := [e]\<rparr>
                   | Inr _ \<Rightarrow>
                       let r = r\<lparr>sent_datagrams := [(receiver_endpoint, hello_there)]\<rparr>
                       in case answered a of
                            Inl e \<Rightarrow> r\<lparr>std_err := [e]\<rparr>
                          | Inr received \<Rightarrow> r\<lparr>std_out := take 128 received\<rparr>)))"

text \<open>Only a wrong number of arguments shows in the exit code; every other failure is code 0.\<close>

lemma client02_exit_code: "exit_code (client02_main argc a) = (if argc = 2 then 0 else 1)"
  by (simp add: client02_main_def Let_def split: sum.split)

lemma client02_sends: "set (map snd (sent_datagrams (client02_main argc a))) \<subseteq> {hello_there} \<and>
    length hello_there = 18 \<and> length (std_out (client02_main argc a)) \<le> 128"
  by (simp add: client02_main_def hello_there_def Let_def split: sum.split)

section \<open>BoostASIO\_Client03\_TCP: read until the end\<close>

datatype read_result = Read bytes | Eof | Read_error string

text \<open>What was printed, and the exception; \<^term>\<open>None\<close> if the last \<^verbatim>\<open>read_some\<close> still waits.\<close>

fun client03_loop :: "read_result list \<Rightarrow> bytes \<Rightarrow> (bytes \<times> string option) option" where
  "client03_loop [] out = None"
| "client03_loop (Eof # rs) out = Some (out, None)"
| "client03_loop (Read_error e # rs) out = Some (out, Some e)"
| "client03_loop (Read buf # rs) out = client03_loop rs (out @ buf)"

definition client03_main ::
  "nat \<Rightarrow> string option \<Rightarrow> read_result list \<Rightarrow> program_result option" where
  "client03_main argc connect_error rs =
     (let r = \<lparr>exit_code = 0, std_out = [], std_err = [], sent_datagrams = []\<rparr>
      in if argc \<noteq> 2 then Some (r\<lparr>exit_code := 1, std_err := [''Usage: client <host>'']\<rparr>)
         else case connect_error of
           Some e \<Rightarrow> Some (r\<lparr>std_err := [e]\<rparr>)
         | None \<Rightarrow> map_option (\<lambda>(out, e). r\<lparr>std_out := out, std_err := (case e of None \<Rightarrow> [] | Some e \<Rightarrow> [e])\<rparr>)
                    (client03_loop rs []))"

fun is_data :: "read_result \<Rightarrow> bool" where "is_data (Read b) = True" | "is_data _ = False"
fun data_of :: "read_result \<Rightarrow> bytes" where "data_of (Read b) = b" | "data_of _ = []"

text \<open>It prints what arrives before the first end or error, in order, and ends there.\<close>

lemma client03_loop_result:
  "client03_loop rs out =
     (case dropWhile is_data rs of
        [] \<Rightarrow> None
      | r # _ \<Rightarrow> Some (out @ concat (map data_of (takeWhile is_data rs)),
                   case r of Read_error e \<Rightarrow> Some e | _ \<Rightarrow> None))"
  by (induction rs out rule: client03_loop.induct) (simp_all cong: list.case_cong)

section \<open>ThreadingTest01\<close>

text \<open>
  The three loops have one shape: print, sleep, look at the keyboard. Each element of the list is
  what \<^verbatim>\<open>_kbhit\<close> and \<^verbatim>\<open>_getch\<close> give in one round. The result is the number of rounds, \<^term>\<open>None\<close> if
  the loop still goes on.
\<close>

fun key_rounds :: "int \<Rightarrow> int \<Rightarrow> int option list \<Rightarrow> nat option" where
  "key_rounds stop_key key [] = (if key = stop_key then Some 0 else None)"
| "key_rounds stop_key key (hit # hits) =
     (if key = stop_key then Some 0
      else map_option Suc (key_rounds stop_key (case hit of None \<Rightarrow> key | Some k \<Rightarrow> k) hits))"

definition thread_function :: "int option list \<Rightarrow> string option" where
  "thread_function hits = map_option (\<lambda>n. concat (replicate n ''.2.'')) (key_rounds 50 0 hits)"

definition MyThreadClass_call :: "int option list \<Rightarrow> string option" where
  "MyThreadClass_call hits = map_option (\<lambda>n. concat (replicate n ''-3-'')) (key_rounds 51 0 hits)"

text \<open>\<^verbatim>\<open>threader\<close> is a null \<^verbatim>\<open>shared_ptr\<close> when \<^verbatim>\<open>main\<close> copies \<^verbatim>\<open>*threader\<close> into the second thread.\<close>

definition threading_main :: "int option list \<Rightarrow> string option res" where
  "threading_main hits =
     (let threader = (None :: unit option)
      in case threader of
           None \<Rightarrow> Inl NullDeref
         | Some c \<Rightarrow> Inr (map_option (\<lambda>n. concat (replicate n ''1'')) (key_rounds 27 0 hits)))"

lemma key_rounds_stop [simp]: "key_rounds k k hits = Some 0"
  by (cases hits) simp_all

lemma key_rounds_first:
  "key \<noteq> stop_key \<Longrightarrow> key_rounds stop_key key hits =
     (if Some stop_key \<in> set hits then Some (Suc (length (takeWhile (\<lambda>h. h \<noteq> Some stop_key) hits))) else None)"
  by (induction hits arbitrary: key) (auto split: option.splits)

section \<open>The TCP servers\<close>

definition server02_main ::
  "bytes \<Rightarrow> U16 \<times> string \<Rightarrow> (tcp_server \<Rightarrow> tcp_server) \<Rightarrow> factory \<Rightarrow> threader" where
  "server02_main mem ep sleep f =
     (let thread = new_TCPThreader 1313;
          thread = BeginService mem ep f thread
      in on_server sleep thread)"

text \<open>
  \<^verbatim>\<open>Shutdown\<close> comes before the destructor of \<open>server\<close>. \<open>early\<close> is what the server's threads do
  before \<^verbatim>\<open>InitFactory\<close>, \<open>late\<close> what they do until a key is pressed. The result has the server, the
  factory before \<^verbatim>\<open>Shutdown\<close>, and the packet that \<^verbatim>\<open>main\<close> created.
\<close>

definition with_factory :: "factory \<Rightarrow> server_socket \<Rightarrow> server_socket" where
  "with_factory f = pause (\<lambda>s. s\<lparr>packets := f\<rparr>)"

definition server03_main ::
  "bool \<Rightarrow> (addr \<Rightarrow> U16) \<Rightarrow> bytes \<Rightarrow> U16 \<times> string \<Rightarrow> (tcp_server \<Rightarrow> tcp_server) \<Rightarrow> (tcp_server \<Rightarrow> tcp_server) \<Rightarrow>
   factory \<Rightarrow> (server_socket \<times> factory \<times> pointer) res" where
  "server03_main debug junk mem ep early late f0 =
     (let server = new_ServerSocket 1313 mem ep f0;
          server = Register_listener 0 server;
          server = pause early server
      in and_then (from_option NullDeref (shared_factory server)) (\<lambda>f.
         and_then (InitFactory junk f) (\<lambda>f.
         and_then (Create debug (packet_type_code PacketType_Base) BasePacket_Type f) (\<lambda>(pack, f).
         and_then (deref f pack) (\<lambda>bp.
           let f = store pack (set_gameProductId 51 (set_gameInstanceId 13 bp)) f;
               server = Unregister_listener 0 (with_factory f server);
               server = pause late server
           in and_then (from_option NullDeref (shared_factory server)) (\<lambda>f.
              Inr (delete_ServerSocket (with_factory (Shutdown f) server), f, pack)))))))"

section \<open>BoostASIO\_Client04\_TCP\<close>

definition SendPacket :: "bool \<Rightarrow> tcp_client \<Rightarrow> tcp_client res" where
  "SendPacket debug testClient =
     and_then (Create debug (packet_type_code PacketType_Base) BasePacket_Type (client_packets testClient))
       (\<lambda>(pack, f).
     and_then (deref f pack) (\<lambda>bp.
       let f = store pack (set_gameProductId 51 (set_gameInstanceId 13 bp)) f
       in Inr (Client_Write pack (testClient\<lparr>client_packets := f\<rparr>))))"

text \<open>The loop at the end of \<^verbatim>\<open>main\<close>: whether it has ended after these keys.\<close>

fun send_loop :: "bool \<Rightarrow> int \<Rightarrow> int list \<Rightarrow> tcp_client \<Rightarrow> (bool \<times> tcp_client) res" where
  "send_loop debug key [] s =
     (if key = 27 then Inr (True, s) else and_then (SendPacket debug s) (\<lambda>s. Inr (False, s)))"
| "send_loop debug key (k # keys) s =
     (if key = 27 then Inr (True, s) else and_then (SendPacket debug s) (send_loop debug k keys))"

text \<open>\<^verbatim>\<open>dynamic_cast<MovementPacket*>\<close>, whose result is used at once.\<close>

fun Movement_cast_Set :: "Vector3 \<Rightarrow> Vector3 \<Rightarrow> Vector3 \<Rightarrow> packet \<Rightarrow> packet res" where
  "Movement_cast_Set pos dir movement (Packet_Movement p) =
     map_sum id Packet_Movement (from_option BadConversion (MovementPacket_Set p pos dir movement))"
| "Movement_cast_Set pos dir movement _ = Inl NullDeref"

definition client04_queue :: "bool \<Rightarrow> tcp_client \<Rightarrow> tcp_client res" where
  "client04_queue debug testClient =
     and_then (Create debug (packet_type_code PacketType_Base) BasePacket_Type (client_packets testClient))
       (\<lambda>(pack, f).
     and_then (deref f pack) (\<lambda>bp.
       let f = store pack (set_gameProductId 56 (set_gameInstanceId 13 bp)) f;
           testClient = Client_Write pack (testClient\<lparr>client_packets := f\<rparr>)
       in and_then (Create debug (packet_type_code PacketType_ServerTick) ServerTick_Movement f) (\<lambda>(pack2, f).
          and_then (deref f pack2) (\<lambda>mp.
          and_then (Movement_cast_Set (vec3 1 0 (- 1)) (vec3 0 0 1) (vec3 (- 1) (fl32 (- 1 / 5)) (fl32 (- 314159 / 100000)))
              (set_gameProductId 56 (set_gameInstanceId 13 mp))) (\<lambda>mp.
            let f = store pack2 mp f
            in Inr (Client_Write pack2 (testClient\<lparr>client_packets := f\<rparr>)))))))"

definition client04_main ::
  "bool \<Rightarrow> (addr \<Rightarrow> U16) \<Rightarrow> nat \<Rightarrow> string list \<Rightarrow> (tcp_client \<Rightarrow> tcp_client) \<Rightarrow> int list \<Rightarrow> factory \<Rightarrow>
   (bool \<times> tcp_client) res" where
  "client04_main debug junk now resolved run_for keys f0 =
     and_then (InitFactory junk f0) (\<lambda>f.
       let testClient = start now resolved (new_TCPClient f)
       in and_then (client04_queue debug testClient) (\<lambda>testClient.
          let testClient = run_for testClient
          in and_then (send_loop debug 0 keys testClient) (\<lambda>(ended, testClient).
             Inr (ended, if ended then testClient\<lparr>client_packets := Shutdown (client_packets testClient)\<rparr>
                         else testClient))))"

text \<open>What an \<^verbatim>\<open>io_context\<close> that runs does with a client: completion handlers.\<close>

inductive client_io :: "tcp_client \<Rightarrow> tcp_client \<Rightarrow> bool" where
  connect: "Connect i \<in> set (ops s) \<Longrightarrow> length mem = 120 \<Longrightarrow>
     handle_connect now mem ec i (finish (Connect i) s) = Inr s' \<Longrightarrow> client_io s s'"
| read: "ReadUntil \<in> set (ops s) \<Longrightarrow>
     client_io s (snd (handle_read now ec n
       ((finish ReadUntil s)\<lparr>input_buffer := input_buffer s @ received\<rparr>)))"
| written: "AsyncWrite bs \<in> set (ops s) \<Longrightarrow> client_io s (handle_write ec (finish (AsyncWrite bs) s))"
| deadline: "DeadlineWait \<in> set (ops s) \<Longrightarrow> client_io s (check_deadline now (finish DeadlineWait s))"
| heartbeat: "HeartbeatWait \<in> set (ops s) \<Longrightarrow> length mem = 120 \<Longrightarrow>
     start_write mem (finish HeartbeatWait s) = Inr s' \<Longrightarrow> client_io s s'"

text \<open>The queue and the pools: the client holds exactly the packets it has queued.\<close>

definition queue_is :: "tcp_client \<Rightarrow> (addr \<times> packet) list \<Rightarrow> bool" where
  "queue_is s es \<longleftrightarrow> packetOutDeque s = map (\<lambda>e. Some (fst e)) es \<and> owns (client_packets s) (mset es)"

lemma queue_is_same:
  "queue_is s es \<Longrightarrow> packetOutDeque s' = packetOutDeque s \<Longrightarrow> client_packets s' = client_packets s \<Longrightarrow> queue_is s' es"
  by (simp add: queue_is_def)

lemma write_loop_owns:
  "write_loop buf off (map (\<lambda>e. Some (fst e)) es) out f = Inr (out', g) \<Longrightarrow> owns f (mset es) \<Longrightarrow> owns g {#}"
proof (induction es arbitrary: buf off out f)
  case Nil
  then show ?case by simp
next
  case (Cons e es)
  obtain a p where e: "e = (a, p)" by (cases e)
  obtain h where h: "Release (Some a) f = Inr (True, None, h)" "owns h (mset es)"
    by (rule owns_release [of f a p "mset es"]) (use Cons.prems(2) e in simp_all)
  then show ?case using Cons e by (auto split: prod.splits)
qed

lemma start_write_queue:
  assumes "start_write mem s = Inr s'" and "queue_is s es"
  shows "queue_is s' es \<or> queue_is s' []"
  using assms write_loop_owns
  by (fastforce simp: start_write_def queue_is_def split: if_splits)

lemma start_connect_fields [simp]:
  "packetOutDeque (start_connect now i s) = packetOutDeque s"
  "client_packets (start_connect now i s) = client_packets s"
  by (simp_all add: start_connect_def async_def stop_def)

lemma client_io_queue:
  assumes "client_io s s'" and q: "queue_is s es"
  shows "queue_is s' es \<or> queue_is s' []"
  using assms(1)
proof (cases rule: client_io.cases)
  case (connect i mem now ec)
  have q1: "queue_is (start_read now ((finish (Connect i) s)\<lparr>client_connected := True\<rparr>)) es"
    by (rule queue_is_same [OF q]) (simp_all add: start_read_def async_def finish_def)
  show ?thesis using connect(3) start_write_queue [OF _ q1, of mem s'] queue_is_same [OF q, of s']
    by (auto simp: handle_connect_def Let_def finish_def split: if_splits)
next
  case (read now ec n received)
  then show ?thesis by (intro disjI1 queue_is_same [OF q])
      (simp_all add: handle_read_def start_read_def async_def stop_def finish_def Let_def)
next
  case (written bs ec)
  then show ?thesis by (intro disjI1 queue_is_same [OF q])
      (simp_all add: handle_write_def async_def stop_def finish_def)
next
  case (deadline now)
  then show ?thesis by (intro disjI1 queue_is_same [OF q])
      (simp_all add: check_deadline_def async_def finish_def Let_def)
next
  case (heartbeat mem)
  have "queue_is (finish HeartbeatWait s) es" by (rule queue_is_same [OF q]) (simp_all add: finish_def)
  then show ?thesis using start_write_queue heartbeat(3) by blast
qed

lemma client_io_run: "client_io\<^sup>*\<^sup>* s s' \<Longrightarrow> queue_is s es \<Longrightarrow> queue_is s' es \<or> queue_is s' []"
  by (induction rule: rtranclp_induct) (blast dest: client_io_queue)+

text \<open>One \<^verbatim>\<open>SendPacket\<close>.\<close>

lemma class_codes:
  "packet_type_code PacketType_Base = class_Type C_BasePacket" "BasePacket_Type = class_SubType C_BasePacket"
  "packet_type_code PacketType_ServerTick = class_Type C_MovementPacket"
  "ServerTick_Movement = class_SubType C_MovementPacket"
  by simp_all

lemma Create_exhausted:
  assumes "owns f M" and "number_of c M = 100"
  shows "\<exists>g. Create debug (class_Type c) (class_SubType c) f = Inr (None, g)"
proof -
  obtain es where es: "mset es = M" "pool_inv f (map fst es)" using assms(1) by (auto simp: owns_def)
  have "\<forall>(a, p)\<in>set es. heap f ! a = p" using assms(1) es(1) by (auto simp: owns_def)
  then have "held_of f (map fst es) (class_key c) = 100" using assms(2) es(1) by (simp add: held_of_number)
  then show ?thesis using Create_registered [OF es(2), of debug c] by (auto simp: numToCreate_def)
qed

abbreviation queued_base :: "(addr \<times> packet) list \<Rightarrow> nat" where
  "queued_base es \<equiv> number_of C_BasePacket (mset es)"

lemma SendPacket_ok:
  assumes q: "queue_is s es" and few: "queued_base es < 100"
  shows "\<exists>s' e. SendPacket debug s = Inr s' \<and> queue_is s' (es @ [e]) \<and> queued_base (es @ [e]) = queued_base es + 1"
proof -
  have o: "owns (client_packets s) (mset es)" using q by (simp add: queue_is_def)
  obtain a p g where g: "Create debug (class_Type C_BasePacket) (class_SubType C_BasePacket) (client_packets s) =
      Inr (Some a, g)" "owns g (add_mset (a, p) (mset es))" "class_of p = C_BasePacket"
    by (rule owns_create [OF o few, of debug "\<lambda>_. 0"]) (rule that)
  let ?q = "set_gameProductId 51 (set_gameInstanceId 13 p)"
  have "owns (store (Some a) ?q g) (add_mset (a, ?q) (mset es))"
    using owns_write [OF g(2), of ?q] owns_typed [OF g(2)] by simp
  then show ?thesis using q g owns_deref [OF g(2)]
    by (intro exI [of _ "Client_Write (Some a) (s\<lparr>client_packets := store (Some a) ?q g\<rparr>)"] exI [of _ "(a, ?q)"])
      (simp add: SendPacket_def class_codes queue_is_def Client_Write_def Let_def del: class_Type.simps class_SubType.simps)
qed

lemma SendPacket_null:
  assumes q: "queue_is s es" and "queued_base es = 100"
  shows "SendPacket debug s = Inl NullDeref"
proof -
  obtain g where "Create debug (class_Type C_BasePacket) (class_SubType C_BasePacket) (client_packets s) = Inr (None, g)"
    using Create_exhausted [of "client_packets s" "mset es" C_BasePacket debug] assms by (auto simp: queue_is_def)
  then show ?thesis
    by (simp add: SendPacket_def class_codes deref_def del: class_Type.simps class_SubType.simps)
qed

text \<open>The loop ends with the first Escape, unless it has run out of packets by then.\<close>

lemma send_loop_ends:
  "queue_is s es \<Longrightarrow> key \<noteq> 27 \<Longrightarrow> queued_base es \<le> 100 \<Longrightarrow> 27 \<in> set keys \<Longrightarrow>
   send_loop debug key keys s = Inl NullDeref \<and> 100 \<le> queued_base es + length (takeWhile (\<lambda>k. k \<noteq> 27) keys) \<or>
   (\<exists>s'. send_loop debug key keys s = Inr (True, s') \<and> queued_base es + length (takeWhile (\<lambda>k. k \<noteq> 27) keys) < 100)"
proof (induction keys arbitrary: key s es)
  case (Cons k keys)
  show ?case
  proof (cases "queued_base es = 100")
    case True
    then show ?thesis using SendPacket_null [OF Cons.prems(1)] Cons.prems(2) by simp
  next
    case False
    then have few: "queued_base es < 100" using Cons.prems(3) by simp
    from SendPacket_ok [OF Cons.prems(1) few, of debug] obtain s1 e where
      s1: "SendPacket debug s = Inr s1" "queue_is s1 (es @ [e])" "queued_base (es @ [e]) = queued_base es + 1" by blast
    show ?thesis
    proof (cases "k = 27")
      case True
      have "send_loop debug 27 keys s1 = Inr (True, s1)" by (cases keys) simp_all
      then show ?thesis using True s1(1) Cons.prems(2) few by simp
    next
      case False
      then show ?thesis using Cons.IH [OF s1(2) False] s1(1,3) few Cons.prems(2,4) by auto
    qed
  qed
qed simp

text \<open>The two packets that \<^verbatim>\<open>main\<close> queues before the client runs.\<close>

lemma Movement_cast_Set_ok:
  assumes p: "class_of p = C_MovementPacket" "well_typed p"
  shows "\<exists>q. Movement_cast_Set (vec3 1 0 (- 1)) (vec3 0 0 1) (vec3 (- 1) (fl32 (- 1 / 5)) (fl32 (- 314159 / 100000))) p =
    Inr q \<and> class_of q = C_MovementPacket \<and> well_typed q"
proof -
  obtain m where m: "p = Packet_Movement m" using p(1) by (cases p) auto
  have fl: "fl32 (1 :: rat) = 1" "fl32 (- 1 :: rat) = - 1" using fl32_int [of 1] fl32_int [of "- 1"] by simp_all
  have small: "\<bar>fl32 (- 1 / 5)\<bar> < 2 ^ 23" "\<bar>fl32 (- 314159 / 100000)\<bar> < 2 ^ 23"
    using fl32_small [of "- 1 / 5"] fl32_small [of "- 314159 / 100000"] by (simp_all add: abs_if split: if_splits)
  obtain a where a: "Position_Set (positionCompressed m) (vec3 1 0 (- 1)) = Some a"
    using Position_Set_int [of 1 0 "- 1" "positionCompressed m"] by auto
  obtain b where b: "Rotation_Set (rotationCompressed m) (vec3 0 0 1) = Some b"
    using Rotation_Set_int [of 0 0 1 "rotationCompressed m"] by auto
  obtain c where c: "Position_Set (movementDirCompressed m)
      (vec3 (- 1) (fl32 (- 1 / 5)) (fl32 (- 314159 / 100000))) = Some c"
    using Position_Pack_word [of "- 1" "fl32 (- 1 / 5)" "fl32 (- 314159 / 100000)"] fl small
    by (simp add: Position_Set_def vec3_def)
  show ?thesis using a b c p(2) unfolding m
    by (simp add: MovementPacket_Set_def PositionPacket_Set_def well_typed_def GetType_def GetSubType_def
        BasePacket.defs del: class_Type.simps class_SubType.simps)
qed

lemma client04_queue_ok:
  assumes q: "queue_is s []"
  shows "\<exists>s' es. client04_queue debug s = Inr s' \<and> queue_is s' es \<and> queued_base es = 1"
proof -
  have o: "owns (client_packets s) {#}" and d: "packetOutDeque s = []" using q by (simp_all add: queue_is_def)
  have "number_of C_BasePacket {#} < 100" by simp
  obtain a p g where g: "Create debug (class_Type C_BasePacket) (class_SubType C_BasePacket) (client_packets s) =
      Inr (Some a, g)" "owns g {#(a, p)#}" "class_of p = C_BasePacket"
    by (rule owns_create [OF o, of C_BasePacket debug "\<lambda>_. 0"]) (simp, rule that)
  let ?q = "set_gameProductId 56 (set_gameInstanceId 13 p)"
  have o1: "owns (store (Some a) ?q g) {#(a, ?q)#}"
    using owns_write [OF g(2), of ?q] owns_typed [OF g(2)] by simp
  obtain b r h where h: "Create debug (class_Type C_MovementPacket) (class_SubType C_MovementPacket) (store (Some a) ?q g) =
      Inr (Some b, h)" "owns h {#(b, r), (a, ?q)#}" "class_of r = C_MovementPacket"
    by (rule owns_create [OF o1, of C_MovementPacket debug "\<lambda>_. 0"]) (simp add: g(3), rule that)
  let ?r = "set_gameProductId 56 (set_gameInstanceId 13 r)"
  obtain m where m: "Movement_cast_Set (vec3 1 0 (- 1)) (vec3 0 0 1)
      (vec3 (- 1) (fl32 (- 1 / 5)) (fl32 (- 314159 / 100000))) ?r = Inr m" "class_of m = C_MovementPacket" "well_typed m"
    using Movement_cast_Set_ok [of ?r] h(3) owns_typed [OF h(2)] by auto
  have o2: "owns (store (Some b) m h) {#(b, m), (a, ?q)#}"
    using owns_write [OF h(2), of m] m(2,3) h(3) by simp
  let ?s = "Client_Write (Some b) ((Client_Write (Some a) (s\<lparr>client_packets := store (Some a) ?q g\<rparr>))
    \<lparr>client_packets := store (Some b) m h\<rparr>)"
  have "client04_queue debug s = Inr ?s"
    using g(1) owns_deref [OF g(2)] h(1) owns_deref [OF h(2)] m(1)
    by (simp add: client04_queue_def class_codes Client_Write_def Let_def
        del: class_Type.simps class_SubType.simps Movement_cast_Set.simps)
  moreover have "queue_is ?s [(a, ?q), (b, m)]"
    using d o2 by (simp add: queue_is_def Client_Write_def add_mset_commute)
  moreover have "queued_base [(a, ?q), (b, m)] = 1" using g(3) m(2) by simp
  ultimately show ?thesis by blast
qed

lemma owns_InitFactory:
  assumes "InitFactory junk self_registered = Inr f" shows "owns f {#}"
  using pool_inv_start [OF assms] InitFactory_new [OF assms] new_packets_well_typed
  by (auto simp: owns_def all_new_def list_all_iff)

text \<open>The whole program, whatever the network does while the client runs.\<close>

lemma client04_main_ends:
  assumes run: "\<And>s. client_io\<^sup>*\<^sup>* s (run_for s)" and esc: "27 \<in> set keys"
  shows "\<exists>n s. n \<le> 1 \<and> client04_main debug junk now resolved run_for keys self_registered =
    (if n + length (takeWhile (\<lambda>k. k \<noteq> 27) keys) < 100 then Inr (True, s) else Inl NullDeref)"
proof -
  obtain f where f: "InitFactory junk self_registered = Inr f"
    using InitFactory_ok [OF self_registered_ok, of junk] by blast
  have "queue_is (start now resolved (new_TCPClient f)) []"
    using owns_InitFactory [OF f] by (simp add: queue_is_def start_def new_TCPClient_def async_def Let_def)
  from client04_queue_ok [OF this, of debug] obtain s1 es where
    s1: "client04_queue debug (start now resolved (new_TCPClient f)) = Inr s1" "queue_is s1 es" "queued_base es = 1"
    by blast
  obtain es' where es': "queue_is (run_for s1) es'" "queued_base es' \<le> 1"
    using client_io_run [OF run s1(2)] s1(3) by auto
  have main: "client04_main debug junk now resolved run_for keys self_registered =
      and_then (send_loop debug 0 keys (run_for s1)) (\<lambda>(ended, t).
        Inr (ended, if ended then t\<lparr>client_packets := Shutdown (client_packets t)\<rparr> else t))"
    using f s1(1) by (simp add: client04_main_def Let_def)
  from send_loop_ends [OF es'(1) _ _ esc, of 0 debug] es'(2) show ?thesis
    unfolding main by (intro exI [of _ "queued_base es'"]) force
qed

text \<open>
  \<^verbatim>\<open>BoostASIO_Server03\<close> while no client sends: it unregisters its listener again at once and ends with
  the one packet it created still taken from the pool.
\<close>

lemma service_steps_packets: "(service_step ep)\<^sup>*\<^sup>* s s' \<Longrightarrow> packets s' = packets s"
proof (induction rule: rtranclp_induct)
  case (step y z)
  then show ?case
    by (auto elim!: service_step.cases simp: NewConnectionAcceptedHandler_def BeginAcceptingNewConnections_def
        HandleReschedule_eq CleanupClosedConnections_def RescheduleMe_def complete_def Let_def)
qed simp

lemma server03_main_keeps:
  assumes "\<And>s. (service_step ep)\<^sup>*\<^sup>* s (early s)" and "\<And>s. (service_step ep)\<^sup>*\<^sup>* s (late s)"
  shows "\<exists>server f a p. server03_main debug junk mem ep early late self_registered = Inr (server, f, Some a) \<and>
    listeners server = [] \<and> owns f {#(a, p)#} \<and> class_of p = C_BasePacket"
proof -
  have early: "packets (early s) = packets s" and late: "packets (late s) = packets s" for s
    using service_steps_packets assms by blast+
  obtain f where f: "InitFactory junk self_registered = Inr f"
    using InitFactory_ok [OF self_registered_ok, of junk] by blast
  have o: "owns f {#}" by (rule owns_InitFactory [OF f])
  obtain a p g where g: "Create debug (class_Type C_BasePacket) (class_SubType C_BasePacket) f = Inr (Some a, g)"
    "owns g {#(a, p)#}" "class_of p = C_BasePacket"
    by (rule owns_create [OF o, of C_BasePacket debug "\<lambda>_. 0"]) (simp, rule that)
  let ?q = "set_gameProductId 51 (set_gameInstanceId 13 p)"
  have "owns (store (Some a) ?q g) {#(a, ?q)#}" using owns_write [OF g(2), of ?q] owns_typed [OF g(2)] by simp
  moreover have "packets (BeginAcceptingNewConnections mem ep (new_server self_registered)) = self_registered"
    by (simp add: BeginAcceptingNewConnections_def new_server_def Let_def)
  ultimately show ?thesis using f g(1,3) owns_deref [OF g(2)]
    by (simp add: server03_main_def class_codes new_ServerSocket_def Register_listener_def Unregister_listener_def
        BeginService_def new_TCPThreader_def shared_factory_def pause_def on_server_def with_factory_def
        delete_ServerSocket_def early late Let_def del: class_Type.simps class_SubType.simps) (metis g(3) class_of_set_gameInstanceId(1) class_of_set_gameProductId)
qed

end
