(* ===== verification/Ring_Threads.thy ===== *)
theory Ring_Threads
  imports Circular_Buffer
begin

text \<open>
  \<^verbatim>\<open>circular_buffer<T>\<close> under threads, statement by statement: every thread may start a call at any
  time, \<^verbatim>\<open>std::lock_guard\<close> makes it wait until the mutex is free, and the statements of the call are
  single steps between which the other threads run. \<^verbatim>\<open>empty\<close>, \<^verbatim>\<open>full\<close> and \<^verbatim>\<open>size\<close> take no lock: they
  see the ring of whatever state the threads are in. A thread is a number, \<open>t0\<close> is \<^verbatim>\<open>T()\<close>, and \<open>moved\<close>
  what a moved-from slot holds.
\<close>

section \<open>The statements of a call\<close>

datatype 'a ring_call = Put_call 'a | Get_call | Reset_call

text \<open>Where the thread in the critical section is: the name says which statement it has executed last.\<close>

datatype 'a ring_pc =
  Put_locked 'a | Put_stored | Put_dropped | Put_advanced | Put_done
| Get_locked | Get_taken 'a | Get_opened 'a | Get_done 'a
| Reset_locked | Reset_emptied | Reset_done

fun lock_guard :: "'a ring_call \<Rightarrow> 'a ring_pc" where
  "lock_guard (Put_call item) = Put_locked item"
| "lock_guard Get_call = Get_locked"
| "lock_guard Reset_call = Reset_locked"

text \<open>\<open>None\<close>: the call is at its end, or its store is outside the array.\<close>

fun put_stmt :: "'a circular_buffer \<Rightarrow> 'a ring_pc \<Rightarrow> ('a circular_buffer \<times> 'a ring_pc) option" where
  "put_stmt cb (Put_locked item) =
     (if cb_head cb < length (cb_buf cb) then Some (cb\<lparr>cb_buf := (cb_buf cb)[cb_head cb := item]\<rparr>, Put_stored)
      else None)"
| "put_stmt cb Put_stored =
     Some (if cb_full cb then cb\<lparr>cb_tail := (cb_tail cb + 1) mod cb_max_size cb\<rparr> else cb, Put_dropped)"
| "put_stmt cb Put_dropped = Some (cb\<lparr>cb_head := (cb_head cb + 1) mod cb_max_size cb\<rparr>, Put_advanced)"
| "put_stmt cb Put_advanced = Some (cb\<lparr>cb_full := (cb_head cb = cb_tail cb)\<rparr>, Put_done)"
| "put_stmt cb _ = None"

fun get_stmt :: "'a \<Rightarrow> 'a \<Rightarrow> 'a circular_buffer \<Rightarrow> 'a ring_pc \<Rightarrow> ('a circular_buffer \<times> 'a ring_pc) option" where
  "get_stmt t0 moved cb Get_locked =
     (if cb_empty cb then Some (cb, Get_done t0)
      else Some (cb\<lparr>cb_buf := (cb_buf cb)[cb_tail cb := moved]\<rparr>, Get_taken (cb_buf cb ! cb_tail cb)))"
| "get_stmt t0 moved cb (Get_taken val) = Some (cb\<lparr>cb_full := False\<rparr>, Get_opened val)"
| "get_stmt t0 moved cb (Get_opened val) =
     Some (cb\<lparr>cb_tail := (cb_tail cb + 1) mod cb_max_size cb\<rparr>, Get_done val)"
| "get_stmt t0 moved cb _ = None"

fun reset_stmt :: "'a circular_buffer \<Rightarrow> 'a ring_pc \<Rightarrow> ('a circular_buffer \<times> 'a ring_pc) option" where
  "reset_stmt cb Reset_locked = Some (cb\<lparr>cb_head := cb_tail cb\<rparr>, Reset_emptied)"
| "reset_stmt cb Reset_emptied = Some (cb\<lparr>cb_full := False\<rparr>, Reset_done)"
| "reset_stmt cb _ = None"

fun ring_stmt :: "'a \<Rightarrow> 'a \<Rightarrow> 'a ring_call \<Rightarrow> 'a circular_buffer \<Rightarrow> 'a ring_pc \<Rightarrow>
    ('a circular_buffer \<times> 'a ring_pc) option" where
  "ring_stmt t0 moved (Put_call item) cb pc = put_stmt cb pc"
| "ring_stmt t0 moved Get_call cb pc = get_stmt t0 moved cb pc"
| "ring_stmt t0 moved Reset_call cb pc = reset_stmt cb pc"

text \<open>What a finished call returns.\<close>

fun ring_return :: "'a ring_pc \<Rightarrow> 'a option option" where
  "ring_return Put_done = Some None"
| "ring_return (Get_done val) = Some (Some val)"
| "ring_return Reset_done = Some None"
| "ring_return _ = None"

section \<open>The threads\<close>

text \<open>\<open>running t\<close> is the call that thread \<open>t\<close> is in, \<open>returned\<close> the finished calls with their results.\<close>

record 'a shared_ring =
  shared :: "'a circular_buffer"
  mutex :: "nat option"
  running :: "nat \<Rightarrow> ('a ring_call \<times> 'a ring_pc) option"
  returned :: "('a ring_call \<times> 'a option) list"

definition ring_share :: "'a circular_buffer \<Rightarrow> 'a shared_ring" where
  "ring_share cb = \<lparr>shared = cb, mutex = None, running = (\<lambda>t. None), returned = []\<rparr>"

inductive ring_step :: "'a \<Rightarrow> 'a \<Rightarrow> 'a shared_ring \<Rightarrow> 'a shared_ring \<Rightarrow> bool" for t0 moved where
  lock: "mutex s = None \<Longrightarrow> running s t = None \<Longrightarrow>
     ring_step t0 moved s (s\<lparr>mutex := Some t, running := (running s)(t \<mapsto> (call, lock_guard call))\<rparr>)"
| stmt: "running s t = Some (call, pc) \<Longrightarrow> ring_stmt t0 moved call (shared s) pc = Some (cb, pc') \<Longrightarrow>
     ring_step t0 moved s (s\<lparr>shared := cb, running := (running s)(t \<mapsto> (call, pc'))\<rparr>)"
| unlock: "running s t = Some (call, pc) \<Longrightarrow> ring_return pc = Some res \<Longrightarrow>
     ring_step t0 moved s (s\<lparr>mutex := None, running := (running s)(t := None),
       returned := returned s @ [(call, res)]\<rparr>)"

inductive ring_reach :: "'a \<Rightarrow> 'a \<Rightarrow> 'a circular_buffer \<Rightarrow> 'a shared_ring \<Rightarrow> bool" for t0 moved cb where
  begun: "ring_reach t0 moved cb (ring_share cb)"
| step: "ring_reach t0 moved cb s \<Longrightarrow> ring_step t0 moved s s' \<Longrightarrow> ring_reach t0 moved cb s'"

section \<open>The specification: one call after the other on a bounded queue\<close>

fun queue_call :: "'a \<Rightarrow> nat \<Rightarrow> 'a ring_call \<Rightarrow> 'a list \<Rightarrow> 'a list \<times> 'a option" where
  "queue_call t0 n (Put_call item) xs = (push_bounded n xs item, None)"
| "queue_call t0 n Get_call xs = (tl xs, Some (if xs = [] then t0 else hd xs))"
| "queue_call t0 n Reset_call xs = ([], None)"

fun queue_history :: "'a \<Rightarrow> nat \<Rightarrow> 'a list \<Rightarrow> ('a ring_call \<times> 'a option) list \<Rightarrow> 'a list option" where
  "queue_history t0 n xs [] = Some xs"
| "queue_history t0 n xs ((call, res) # h) =
     (let (xs, res') = queue_call t0 n call xs in if res' = res then queue_history t0 n xs h else None)"

lemma queue_history_append:
  "queue_history t0 n xs (h @ h') = queue_history t0 n xs h \<bind> (\<lambda>ys. queue_history t0 n ys h')"
  by (induction t0 n xs h rule: queue_history.induct) (auto simp: Let_def split: prod.splits)

section \<open>Every interleaving is one of whole calls\<close>

text \<open>The operations of \<open>Circular_Buffer\<close>, as calls, and the rest of a call that has begun.\<close>

fun atomic_call :: "'a \<Rightarrow> 'a \<Rightarrow> 'a ring_call \<Rightarrow> 'a circular_buffer \<Rightarrow> ('a circular_buffer \<times> 'a option) option" where
  "atomic_call t0 moved (Put_call item) cb = map_option (\<lambda>cb. (cb, None)) (cb_put cb item)"
| "atomic_call t0 moved Get_call cb = (let (val, cb) = cb_get t0 moved cb in Some (cb, Some val))"
| "atomic_call t0 moved Reset_call cb = Some (cb_reset cb, None)"

inductive finishes :: "'a \<Rightarrow> 'a \<Rightarrow> 'a ring_call \<Rightarrow> 'a circular_buffer \<Rightarrow> 'a ring_pc \<Rightarrow>
    'a circular_buffer \<times> 'a option \<Rightarrow> bool" for t0 moved call where
  at_end: "ring_return pc = Some res \<Longrightarrow> finishes t0 moved call cb pc (cb, res)"
| one_more: "ring_stmt t0 moved call cb pc = Some (cb', pc') \<Longrightarrow> finishes t0 moved call cb' pc' r \<Longrightarrow>
     finishes t0 moved call cb pc r"

inductive_cases finishesE: "finishes t0 moved call cb pc r"

inductive_simps finishes_simps:
  "finishes t0 moved (Put_call item) cb (Put_locked x) r"
  "finishes t0 moved (Put_call item) cb Put_stored r"
  "finishes t0 moved (Put_call item) cb Put_dropped r"
  "finishes t0 moved (Put_call item) cb Put_advanced r"
  "finishes t0 moved (Put_call item) cb Put_done r"
  "finishes t0 moved Get_call cb Get_locked r"
  "finishes t0 moved Get_call cb (Get_taken x) r"
  "finishes t0 moved Get_call cb (Get_opened x) r"
  "finishes t0 moved Get_call cb (Get_done x) r"
  "finishes t0 moved Reset_call cb Reset_locked r"
  "finishes t0 moved Reset_call cb Reset_emptied r"
  "finishes t0 moved Reset_call cb Reset_done r"

lemma return_no_stmt:
  "ring_return pc = Some res \<Longrightarrow> ring_stmt t0 moved call cb pc = None"
  by (cases call; cases pc) simp_all

lemma finishes_return:
  "finishes t0 moved call cb pc r \<Longrightarrow> ring_return pc = Some res \<Longrightarrow> r = (cb, res)"
  by (erule finishesE) (simp, metis return_no_stmt option.distinct(1))

lemma finishes_stmt:
  "finishes t0 moved call cb pc r \<Longrightarrow> ring_stmt t0 moved call cb pc = Some (cb', pc') \<Longrightarrow>
     finishes t0 moved call cb' pc' r"
  by (erule finishesE) (metis return_no_stmt option.distinct(1), simp)

text \<open>Run on its own, a call does what its definition as one operation says.\<close>

lemma finishes_put:
  assumes "cb_put cb item = Some cb'"
  shows "finishes t0 moved (Put_call item) cb (Put_locked item) (cb', None)"
  using assms by (auto simp: cb_put_def Let_def finishes_simps split: if_splits)

lemma finishes_get:
  assumes "cb_get t0 moved cb = (val, cb')"
  shows "finishes t0 moved Get_call cb Get_locked (cb', Some val)"
  using assms by (auto simp: cb_get_def Let_def finishes_simps split: if_splits)

lemma finishes_reset: "finishes t0 moved Reset_call cb Reset_locked (cb_reset cb, None)"
  by (simp add: cb_reset_def finishes_simps)

lemma finishes_atomic:
  "atomic_call t0 moved call cb = Some r \<Longrightarrow> finishes t0 moved call cb (lock_guard call) r"
  by (cases call) (auto simp: finishes_put finishes_get finishes_reset split: prod.splits)

text \<open>One call on the ring is one call on the queue.\<close>

lemma atomic_call_queue:
  assumes "cb_invar cb"
  shows "\<exists>cb' res. atomic_call t0 moved call cb = Some (cb', res) \<and> cb_invar cb' \<and>
    cb_max_size cb' = cb_max_size cb \<and>
    queue_call t0 (cb_max_size cb) call (cb_contents cb) = (cb_contents cb', res)"
proof (cases call)
  case (Put_call item)
  then show ?thesis using cb_put_law [OF assms, of item] by auto
next
  case Get_call
  obtain val cb' where g: "cb_get t0 moved cb = (val, cb')" by (cases "cb_get t0 moved cb")
  then show ?thesis
    using Get_call ring.get_elem [OF assms g] ring.get_list [OF assms g] ring.get_invar [OF assms g]
    by auto
next
  case Reset_call
  then show ?thesis using assms
    by (simp add: cb_reset_invar cb_reset_contents) (simp add: cb_reset_def)
qed

text \<open>
  The invariant. Behind every state stands the ring \<open>q\<close> that the finished calls have made; the
  shared ring is \<open>q\<close>, or what the one thread in the critical section has made of it so far.
\<close>

definition ring_inv :: "'a \<Rightarrow> 'a \<Rightarrow> 'a circular_buffer \<Rightarrow> 'a shared_ring \<Rightarrow> 'a circular_buffer \<Rightarrow> bool" where
  "ring_inv t0 moved cb s q \<longleftrightarrow> cb_invar q \<and> cb_max_size q = cb_max_size cb \<and>
     queue_history t0 (cb_max_size cb) (cb_contents cb) (returned s) = Some (cb_contents q) \<and>
     (\<forall>t. running s t \<noteq> None \<longrightarrow> mutex s = Some t) \<and>
     (case mutex s of
        None \<Rightarrow> shared s = q
      | Some t \<Rightarrow> \<exists>call pc r. running s t = Some (call, pc) \<and> atomic_call t0 moved call q = Some r \<and>
          finishes t0 moved call (shared s) pc r)"

lemma ring_inv_begun: "cb_invar cb \<Longrightarrow> ring_inv t0 moved cb (ring_share cb) cb"
  by (simp add: ring_inv_def ring_share_def)

lemma ring_step_inv:
  assumes "ring_step t0 moved s s'" and inv: "ring_inv t0 moved cb s q"
  shows "\<exists>q'. ring_inv t0 moved cb s' q'"
  using assms(1)
proof (cases rule: ring_step.cases)
  case (lock t call)
  have "shared s = q" using inv lock(2) by (simp add: ring_inv_def)
  moreover obtain r where r: "atomic_call t0 moved call q = Some r"
    using atomic_call_queue [of q t0 moved call] inv by (auto simp: ring_inv_def)
  ultimately have "ring_inv t0 moved cb s' q"
    using inv lock finishes_atomic [OF r] r by (cases r) (auto simp: ring_inv_def)
  then show ?thesis ..
next
  case (stmt t call pc cb' pc')
  have m: "mutex s = Some t" using inv stmt(2) by (simp add: ring_inv_def)
  then obtain r where "atomic_call t0 moved call q = Some r" "finishes t0 moved call (shared s) pc r"
    using inv stmt(2) by (auto simp: ring_inv_def)
  then have "ring_inv t0 moved cb s' q"
    using inv stmt m finishes_stmt by (fastforce simp: ring_inv_def)
  then show ?thesis ..
next
  case (unlock t call pc res)
  have m: "mutex s = Some t" using inv unlock(2) by (simp add: ring_inv_def)
  then obtain r where r: "atomic_call t0 moved call q = Some r" "finishes t0 moved call (shared s) pc r"
    using inv unlock(2) by (auto simp: ring_inv_def)
  then have a: "atomic_call t0 moved call q = Some (shared s, res)"
    using finishes_return [OF r(2) unlock(3)] by simp
  have c: "cb_invar (shared s)" "cb_max_size (shared s) = cb_max_size q"
    "queue_call t0 (cb_max_size q) call (cb_contents q) = (cb_contents (shared s), res)"
    using atomic_call_queue [of q t0 moved call] inv a by (auto simp: ring_inv_def)
  have "ring_inv t0 moved cb s' (shared s)"
    using inv c m by (auto simp: unlock(1) ring_inv_def queue_history_append)
  then show ?thesis ..
qed

lemma ring_reach_inv:
  "ring_reach t0 moved cb s \<Longrightarrow> cb_invar cb \<Longrightarrow> \<exists>q. ring_inv t0 moved cb s q"
  by (induction rule: ring_reach.induct) (auto dest: ring_inv_begun ring_step_inv)

text \<open>The thread in the critical section is never stuck: no store is outside the array.\<close>

lemma finishes_progress:
  "finishes t0 moved call cb pc r \<Longrightarrow>
     ring_return pc \<noteq> None \<or> ring_stmt t0 moved call cb pc \<noteq> None"
  by (auto elim: finishesE)

lemma ring_inv_progress:
  assumes inv: "ring_inv t0 moved cb s q"
  shows "\<exists>s'. ring_step t0 moved s s'"
proof (cases "mutex s")
  case None
  then have "running s 0 = None"
    using inv by (cases "running s 0") (auto simp: ring_inv_def)
  then show ?thesis using ring_step.lock [OF None, of 0] by blast
next
  case (Some t)
  then obtain call pc r where r: "running s t = Some (call, pc)" "finishes t0 moved call (shared s) pc r"
    using inv by (auto simp: ring_inv_def)
  then show ?thesis using finishes_progress [OF r(2)] ring_step.stmt [OF r(1)] ring_step.unlock [OF r(1)] by fast
qed

text \<open>Threads that only take elements share out what the ring holds, every element to one of them.\<close>

lemma queue_history_gets:
  assumes "queue_history t0 n xs h = Some ys" and "\<forall>(call, res)\<in>set h. call = Get_call"
  shows "map snd h = map Some (take (length h) xs @ replicate (length h - length xs) t0) \<and>
    ys = drop (length h) xs"
  using assms
proof (induction h arbitrary: xs)
  case (Cons e h)
  then obtain res where e: "e = (Get_call, res)" by (cases e) auto
  have res: "res = Some (if xs = [] then t0 else hd xs)" and h: "queue_history t0 n (tl xs) h = Some ys"
    using Cons.prems(1) by (auto simp: e Let_def split: if_splits)
  have "\<forall>(call, res)\<in>set h. call = Get_call" using Cons.prems(2) by simp
  then show ?case using Cons.IH [OF h] by (cases xs) (simp_all add: e res)
qed simp

section \<open>Readers without the lock\<close>

text \<open>
  Between the two last statements of the \<^verbatim>\<open>put\<close> that fills the ring, the head has met the tail and
  \<^verbatim>\<open>full_\<close> is not yet set: the full ring looks empty. A \<^verbatim>\<open>get\<close> that opens a full ring passes such a
  state as well, before it moves the tail.
\<close>

definition steps_of_call :: "'a \<Rightarrow> 'a \<Rightarrow> nat \<Rightarrow> 'a ring_call \<Rightarrow> ('a circular_buffer \<times> 'a ring_pc) list \<Rightarrow>
    'a shared_ring \<Rightarrow> 'a shared_ring" where
  "steps_of_call t0 moved t call sts s =
     fold (\<lambda>(cb, pc) s. s\<lparr>shared := cb, running := (running s)(t \<mapsto> (call, pc))\<rparr>) sts
       (s\<lparr>mutex := Some t, running := (running s)(t \<mapsto> (call, lock_guard call))\<rparr>)"

fun stmts_chain :: "'a \<Rightarrow> 'a \<Rightarrow> 'a ring_call \<Rightarrow> 'a circular_buffer \<Rightarrow> 'a ring_pc \<Rightarrow>
    ('a circular_buffer \<times> 'a ring_pc) list \<Rightarrow> bool" where
  "stmts_chain t0 moved call cb pc [] = True"
| "stmts_chain t0 moved call cb pc ((cb', pc') # sts) =
     (ring_stmt t0 moved call cb pc = Some (cb', pc') \<and> stmts_chain t0 moved call cb' pc' sts)"

lemma chain_steps:
  assumes "running s t = Some (call, pc)" and "stmts_chain t0 moved call (shared s) pc sts"
  shows "(ring_step t0 moved)\<^sup>*\<^sup>* s
    (fold (\<lambda>(cb, pc) s. s\<lparr>shared := cb, running := (running s)(t \<mapsto> (call, pc))\<rparr>) sts s)"
  using assms
proof (induction sts arbitrary: s pc)
  case (Cons st sts)
  obtain cb' pc' where st: "st = (cb', pc')" by (cases st)
  let ?s = "s\<lparr>shared := cb', running := (running s)(t \<mapsto> (call, pc'))\<rparr>"
  have "ring_step t0 moved s ?s" using ring_step.stmt [OF Cons.prems(1)] Cons.prems(2) st by simp
  moreover have "(ring_step t0 moved)\<^sup>*\<^sup>* ?s
      (fold (\<lambda>(cb, pc) s. s\<lparr>shared := cb, running := (running s)(t \<mapsto> (call, pc))\<rparr>) sts ?s)"
    using Cons.prems(2) st by (intro Cons.IH [of ?s pc']) simp_all
  ultimately show ?case unfolding st by (simp del: fun_upd_apply)
qed simp

lemma locked_chain:
  assumes "mutex s = None" and "running s t = None" and "stmts_chain t0 moved call (shared s) (lock_guard call) sts"
  shows "(ring_step t0 moved)\<^sup>*\<^sup>* s (steps_of_call t0 moved t call sts s)"
proof -
  let ?s = "s\<lparr>mutex := Some t, running := (running s)(t \<mapsto> (call, lock_guard call))\<rparr>"
  have "ring_step t0 moved s ?s" using assms by (intro ring_step.lock)
  moreover have "(ring_step t0 moved)\<^sup>*\<^sup>* ?s (steps_of_call t0 moved t call sts s)"
    unfolding steps_of_call_def using assms(3) by (intro chain_steps [where pc = "lock_guard call"]) simp_all
  ultimately show ?thesis by (rule converse_rtranclp_into_rtranclp)
qed

lemma put_passes_empty:
  assumes inv: "cb_invar (shared s)" and s: "mutex s = None" "running s t = None"
    and sz: "Suc (cb_size (shared s)) = cb_max_size (shared s)"
  shows "\<exists>s'. (ring_step t0 moved)\<^sup>*\<^sup>* s s' \<and> running s' t = Some (Put_call item, Put_advanced) \<and>
    returned s' = returned s \<and> cb_empty (shared s') \<and> cb_size (shared s') = 0"
proof -
  define cb where "cb = shared s"
  define c1 where "c1 = cb\<lparr>cb_buf := (cb_buf cb)[cb_head cb := item]\<rparr>"
  define c2 where "c2 = c1\<lparr>cb_head := (cb_head cb + 1) mod cb_max_size cb\<rparr>"
  have nf: "\<not> cb_full cb" using sz inv by (auto simp: cb_size_def cb_def)
  have h: "cb_head cb < length (cb_buf cb)" using inv by (simp add: cb_invar_def cb_def)
  have meet: "(cb_head cb + 1) mod cb_max_size cb = cb_tail cb"
    using inv sz nf by (auto simp: cb_invar_def cb_size_def cb_def mod_Suc split: if_splits)
  let ?sts = "[(c1, Put_stored), (c1, Put_dropped), (c2, Put_advanced)]"
  let ?s = "steps_of_call t0 moved t (Put_call item) ?sts s"
  have "stmts_chain t0 moved (Put_call item) cb (Put_locked item) ?sts"
    using h nf by (simp add: c1_def c2_def)
  then have "(ring_step t0 moved)\<^sup>*\<^sup>* s ?s"
    using locked_chain [OF s, of t0 moved "Put_call item" ?sts] by (simp add: cb_def)
  moreover have "shared ?s = c2" "returned ?s = returned s" "running ?s t = Some (Put_call item, Put_advanced)"
    by (simp_all add: steps_of_call_def)
  moreover have "cb_empty c2" "cb_size c2 = 0"
    using meet nf by (simp_all add: c1_def c2_def cb_empty_def cb_size_def)
  ultimately show ?thesis by metis
qed

text \<open>The last statement and the release of the mutex end it.\<close>

lemma put_advanced_ends:
  assumes t: "running s t = Some (Put_call item, Put_advanced)"
  shows "\<exists>s'. (ring_step t0 moved)\<^sup>*\<^sup>* s s' \<and> mutex s' = None \<and>
    returned s' = returned s @ [(Put_call item, None)]"
proof -
  let ?cb = "(shared s)\<lparr>cb_full := (cb_head (shared s) = cb_tail (shared s))\<rparr>"
  let ?s = "s\<lparr>shared := ?cb, running := (running s)(t \<mapsto> (Put_call item, Put_done))\<rparr>"
  let ?s2 = "?s\<lparr>mutex := None, running := (running ?s)(t := None),
    returned := returned ?s @ [(Put_call item, None)]\<rparr>"
  have "ring_step t0 moved s ?s" using ring_step.stmt [OF t] by simp
  moreover have "ring_step t0 moved ?s ?s2" by (rule ring_step.unlock [where pc = Put_done]) simp_all
  ultimately have "(ring_step t0 moved)\<^sup>*\<^sup>* s ?s2" by (rule rtranclp_trans [OF r_into_rtranclp r_into_rtranclp])
  moreover have "mutex ?s2 = None" "returned ?s2 = returned s @ [(Put_call item, None)]" by simp_all
  ultimately show ?thesis by blast
qed

lemma ring_reach_steps: "(ring_step t0 moved)\<^sup>*\<^sup>* s s' \<Longrightarrow> ring_reach t0 moved cb s \<Longrightarrow> ring_reach t0 moved cb s'"
  by (induction rule: rtranclp_induct) (auto intro: ring_reach.step)

end
