(* ===== verification/Type_Registry.thy ===== *)
theory Type_Registry
  imports Prelude
begin

text \<open>
  \<^verbatim>\<open>UDP01/OldCode/General/TypeRegistry.h\<close>: lists of types that are built while the compiler works. The
  state is what the compiler has seen: for one tag, which functions \<^verbatim>\<open>GetTypes(Tag*, Rank<r>)\<close> are declared
  and the \<^verbatim>\<open>TypeList\<close> that each returns. A type is a value of the type variable, a \<^verbatim>\<open>TypeList\<close> the list of
  its arguments, and a declaration that the compiler rejects is \<^term>\<open>None\<close>.
\<close>

section \<open>The templates\<close>

definition kMaxRegisteredTypes :: nat where "kMaxRegisteredTypes = 10"

text \<open>\<^verbatim>\<open>Rank<N>\<close> and the classes it converts to, the nearest base first.\<close>

fun Rank :: "nat \<Rightarrow> nat list" where
  "Rank 0 = [0]"
| "Rank (Suc n) = Suc n # Rank n"

definition TypeList_size :: "'t list \<Rightarrow> nat" where "TypeList_size ts = length ts"

definition Append :: "'t list \<Rightarrow> 't \<Rightarrow> 't list" where "Append ts t = ts @ [t]"

type_synonym 't overloads = "nat \<Rightarrow> 't list option"

text \<open>
  Overload resolution: among the declared functions whose parameter the argument converts to, the
  one with the nearest base. The template \<^verbatim>\<open>GetTypes(Tag*, Rank<0>)\<close> serves every tag.
\<close>

definition GetTypes_0 :: "'t overloads" where "GetTypes_0 = [0 \<mapsto> []]"

fun resolve :: "'t overloads \<Rightarrow> nat list \<Rightarrow> 't list option" where
  "resolve decls [] = None"
| "resolve decls (r # bases) =
     (case decls r of Some ts \<Rightarrow> Some ts | None \<Rightarrow> resolve decls bases)"

definition GET_REGISTERED_TYPES :: "'t overloads \<Rightarrow> 't list option" where
  "GET_REGISTERED_TYPES decls = resolve decls (Rank kMaxRegisteredTypes)"

text \<open>
  \<^verbatim>\<open>REGISTER_TYPE\<close> defines a function; a second definition with the same parameters is an error, be it
  for the body or for the other return type.
\<close>

definition REGISTER_TYPE :: "'t \<Rightarrow> 't overloads \<Rightarrow> 't overloads option" where
  "REGISTER_TYPE t decls = do {
     ts \<leftarrow> GET_REGISTERED_TYPES decls;
     let r = TypeList_size ts + 1;
     if decls r \<noteq> None then None else Some (decls(r \<mapsto> Append ts t)) }"

fun register_types :: "'t list \<Rightarrow> 't overloads \<Rightarrow> 't overloads option" where
  "register_types [] decls = Some decls"
| "register_types (t # ts) decls = do { decls \<leftarrow> REGISTER_TYPE t decls; register_types ts decls }"

section \<open>What is registered\<close>

text \<open>The declarations after a list of registrations: one for every prefix.\<close>

definition declared_for :: "'t list \<Rightarrow> 't overloads" where
  "declared_for ts = (\<lambda>r. if r \<le> length ts then Some (take r ts) else None)"

lemma resolve_prefixes:
  "resolve (declared_for ts) (Rank n) = Some (take n ts)"
  by (induction n) (auto simp: declared_for_def)

lemma GetTypes_0_prefixes: "GetTypes_0 = declared_for []"
  by (rule ext) (simp add: GetTypes_0_def declared_for_def)

lemma declared_for_snoc:
  "(declared_for ts)(Suc (length ts) \<mapsto> ts @ [t]) = declared_for (ts @ [t])"
  by (rule ext) (auto simp: declared_for_def le_Suc_eq)

lemma REGISTER_TYPE_prefixes:
  "REGISTER_TYPE t (declared_for ts) =
     (if length ts \<le> kMaxRegisteredTypes then Some (declared_for (ts @ [t])) else None)"
proof -
  have g: "GET_REGISTERED_TYPES (declared_for ts) = Some (take kMaxRegisteredTypes ts)"
    by (simp add: GET_REGISTERED_TYPES_def resolve_prefixes)
  show ?thesis
  proof (cases "length ts \<le> kMaxRegisteredTypes")
    case True
    moreover have "declared_for ts (Suc (length ts)) = None" by (simp add: declared_for_def)
    ultimately show ?thesis
      using g by (simp add: REGISTER_TYPE_def TypeList_size_def Append_def declared_for_snoc)
  next
    case False
    then have "declared_for ts (Suc kMaxRegisteredTypes) \<noteq> None" by (simp add: declared_for_def)
    then show ?thesis using False g by (simp add: REGISTER_TYPE_def TypeList_size_def min_def)
  qed
qed

lemma register_types_prefixes:
  "register_types us (declared_for ts) =
     (if us = [] \<or> length (ts @ us) \<le> Suc kMaxRegisteredTypes then Some (declared_for (ts @ us)) else None)"
proof (induction us arbitrary: ts)
  case (Cons u us)
  show ?case
    using Cons.IH [of "ts @ [u]"] by (auto simp: REGISTER_TYPE_prefixes)
qed simp

text \<open>
  Ten types are registered in their order. The eleventh is accepted and never seen: its function
  has a parameter that \<^verbatim>\<open>Rank<10>\<close> does not convert to. The twelfth does not compile.
\<close>

lemma registered_types:
  "register_types ts GetTypes_0 \<bind> GET_REGISTERED_TYPES =
     (if length ts \<le> Suc kMaxRegisteredTypes then Some (take kMaxRegisteredTypes ts) else None)"
  by (simp add: GetTypes_0_prefixes register_types_prefixes GET_REGISTERED_TYPES_def resolve_prefixes)

lemma registered_ten: "length ts \<le> kMaxRegisteredTypes \<Longrightarrow>
    register_types ts GetTypes_0 \<bind> GET_REGISTERED_TYPES = Some ts"
  by (simp add: registered_types)

lemma eleventh_lost:
  "length ts = kMaxRegisteredTypes \<Longrightarrow>
     register_types (ts @ [t]) GetTypes_0 \<bind> GET_REGISTERED_TYPES =
       register_types ts GetTypes_0 \<bind> GET_REGISTERED_TYPES"
  by (simp add: registered_types)

end
