(* ===== verification/Logging.thy ===== *)
theory Logging
  imports Utilities
begin

text \<open>
  \<^verbatim>\<open>NetworkCommon/server_log.cpp\<close>, Windows branch. The global variables, the console and the file
  system are one state. Arguments are what the code only calls: \<open>date\<close> is what \<^verbatim>\<open>GetDateInUTC()\<close>
  returns, \<open>now\<close> what \<^verbatim>\<open>time\<close> does, \<open>render\<close> is \<^verbatim>\<open>boost::format\<close> with the format of \<^verbatim>\<open>FileLog\<close>, and
  \<open>vsnprintf\<close> formats a text, \<^term>\<open>None\<close> if the arguments do not match the conversions of the format.
  A stream that could not be opened takes no output. A C string is a list without a zero character.
\<close>

section \<open>The log file\<close>

record log_state =
  console :: "string list"
  log_files :: "string \<Rightarrow> string option"
  open_file :: "string option"
  loggingFilterName :: string
  lastTimeLogged :: int
  isCreatingFile :: bool
  mkdir_calls :: "string list"

definition logTempBufferSize :: nat where "logTempBufferSize = 512"

definition new_log :: "(string \<Rightarrow> string option) \<Rightarrow> log_state" where
  "new_log files = \<lparr>console = [], log_files = files, open_file = None, loggingFilterName = [],
     lastTimeLogged = 0, isCreatingFile = False, mkdir_calls = []\<rparr>"

definition newline :: string where "newline = [CHR 0x0A]"

definition say :: "string \<Rightarrow> log_state \<Rightarrow> log_state" where
  "say line s = s\<lparr>console := console s @ [line]\<rparr>"

definition file_write :: "string \<Rightarrow> log_state \<Rightarrow> log_state" where
  "file_write txt s =
     (case open_file s of
        None \<Rightarrow> s
      | Some p \<Rightarrow> s\<lparr>log_files := (log_files s)(p \<mapsto> (case log_files s p of None \<Rightarrow> txt | Some c \<Rightarrow> c @ txt))\<rparr>)"

record open_answers =
  remove_works :: bool
  open_works :: bool

definition log_header :: "string \<Rightarrow> string \<Rightarrow> string" where
  "log_header processName date =
     (let stars = ''*****************************************************************'' @ newline
      in newline @ newline @ newline @ stars @ stars @
         ''*****************     '' @ processName @ ''     ***************************'' @ newline @
         ''*************     '' @ date @ ''     ***********************'' @ newline @
         ''***************************   new log   *************************'' @ newline @ stars @ stars)"

text \<open>\<^verbatim>\<open>strcpy\<close> into the 512 characters of \<^verbatim>\<open>loggingFilterName\<close> writes behind them if the name is longer.\<close>

definition CreateLogFile ::
  "open_answers \<Rightarrow> string \<Rightarrow> string \<Rightarrow> string \<Rightarrow> bool \<Rightarrow> log_state \<Rightarrow> log_state res" where
  "CreateLogFile os date externalFilename processName erasePreviousContents s =
     (let s = say (''Creating log file: '' @ externalFilename) s
      in if isCreatingFile s then Inr s
         else
           let s = s\<lparr>isCreatingFile := True\<rparr>;
               s = s\<lparr>open_file := None\<rparr>
           in if logTempBufferSize \<le> length processName then Inl OutOfBounds
              else
                let s = s\<lparr>loggingFilterName := processName\<rparr>;
                    s = (if erasePreviousContents \<and> remove_works os
                         then s\<lparr>log_files := (log_files s)(externalFilename := None)\<rparr> else s);
                    s = (if open_works os
                         then s\<lparr>open_file := Some externalFilename,
                                log_files := (log_files s)(externalFilename \<mapsto>
                                  (case log_files s externalFilename of None \<Rightarrow> [] | Some c \<Rightarrow> c))\<rparr>
                         else s);
                    s = (if open_file s = None
                         then say (''Alert: Could not write the file: '' @ externalFilename)
                                (say (''Alert: Unable to open log file: '' @ externalFilename) s)
                         else s);
                    s = s\<lparr>isCreatingFile := False\<rparr>
                in Inr (if \<not> erasePreviousContents then file_write (log_header processName date) s else s))"

definition char_at :: "string \<Rightarrow> nat \<Rightarrow> char" where
  "char_at b i = (if i < length b then b ! i else CHR 0x00)"

definition is_separator :: "string \<Rightarrow> bool" where
  "is_separator b \<longleftrightarrow> char_at b 0 = char_at b 1 \<and> char_at b 0 \<in> {CHR ''-'', CHR ''*'', CHR ''='', CHR ''+''}"

definition time_stamp :: "string \<Rightarrow> string" where "time_stamp date = '' - ['' @ date @ '']''"

definition FileLog ::
  "(string \<Rightarrow> string \<Rightarrow> string \<Rightarrow> int \<Rightarrow> string) \<Rightarrow> int \<Rightarrow> string \<Rightarrow> int \<Rightarrow> string \<Rightarrow> log_state \<Rightarrow> log_state" where
  "FileLog render now date priority buffer s =
     (if open_file s = None then s
      else if is_separator buffer then file_write (buffer @ newline) s
      else
        let (timeString, s) = (if lastTimeLogged s < now
                               then (time_stamp date, s\<lparr>lastTimeLogged := now\<rparr>) else ([], s))
        in file_write (render (loggingFilterName s) buffer timeString priority @ newline) s)"

definition FileLogClose :: "log_state \<Rightarrow> log_state" where
  "FileLogClose s = (if open_file s \<noteq> None then s\<lparr>open_file := None\<rparr> else s)"

text \<open>\<^verbatim>\<open>LogOpen\<close> and \<^verbatim>\<open>LogClose\<close> do nothing. \<^verbatim>\<open>vsnprintf\<close> gets 511 as the size, with the zero.\<close>

definition LogMessage ::
  "(string \<Rightarrow> 'a list \<Rightarrow> string option) \<Rightarrow> (string \<Rightarrow> string \<Rightarrow> string \<Rightarrow> int \<Rightarrow> string) \<Rightarrow> int \<Rightarrow> string \<Rightarrow>
   int \<Rightarrow> string \<Rightarrow> 'a list \<Rightarrow> log_state \<Rightarrow> log_state res" where
  "LogMessage vsnprintf render now date priority printFormat args s =
     (case vsnprintf printFormat args of
        None \<Rightarrow> Inl BadConversion
      | Some txt \<Rightarrow>
          let buffer = take (logTempBufferSize - 2) txt
          in Inr (FileLog render now date priority buffer (say buffer s)))"

text \<open>The overload for \<^verbatim>\<open>std::string\<close>: the text is the format.\<close>

definition LogMessage_string ::
  "(string \<Rightarrow> 'a list \<Rightarrow> string option) \<Rightarrow> (string \<Rightarrow> string \<Rightarrow> string \<Rightarrow> int \<Rightarrow> string) \<Rightarrow> int \<Rightarrow> string \<Rightarrow>
   int \<Rightarrow> string \<Rightarrow> log_state \<Rightarrow> log_state res" where
  "LogMessage_string vsnprintf render now date priority str s =
     LogMessage vsnprintf render now date priority str [] s"

text \<open>The null pointer, which is the default argument, is \<^term>\<open>None\<close>.\<close>

definition FileLogOpen ::
  "(string \<Rightarrow> bool) \<Rightarrow> open_answers \<Rightarrow> string \<Rightarrow> string option \<Rightarrow> bool \<Rightarrow> log_state \<Rightarrow> log_state res" where
  "FileLogOpen mkdir os date processName erasePreviousContents s =
     (let directory = ''c:/temp/mber_logging''
      in and_then (CreateSubDirectory mkdir directory) (\<lambda>(failed, calls).
           let s = s\<lparr>mkdir_calls := mkdir_calls s @ calls\<rparr>
           in case processName of
                None \<Rightarrow> Inl NullDeref
              | Some processName \<Rightarrow>
                  let filename = directory @ ''/'' @ processName @ ''.log''
                  in CreateLogFile os date filename processName erasePreviousContents s))"

section \<open>What is logged\<close>

lemma file_write_simps [simp]:
  "open_file (file_write t s) = open_file s" "loggingFilterName (file_write t s) = loggingFilterName s"
  "lastTimeLogged (file_write t s) = lastTimeLogged s" "isCreatingFile (file_write t s) = isCreatingFile s"
  "console (file_write t s) = console s" "mkdir_calls (file_write t s) = mkdir_calls s"
  by (simp_all add: file_write_def split: option.split)

lemma file_write_files:
  "open_file s = Some p \<Longrightarrow> log_files s p = Some c \<Longrightarrow> log_files (file_write t s) = (log_files s)(p \<mapsto> c @ t)"
  by (simp add: file_write_def)

lemma FileLog_state [simp]:
  "open_file (FileLog render now date p b s) = open_file s"
  "loggingFilterName (FileLog render now date p b s) = loggingFilterName s"
  "isCreatingFile (FileLog render now date p b s) = isCreatingFile s"
  by (simp_all add: FileLog_def)

lemma FileLog_last:
  "open_file s \<noteq> None \<Longrightarrow> lastTimeLogged (FileLog render now date p b s) =
     (if is_separator b then lastTimeLogged s else max (lastTimeLogged s) now)"
  by (auto simp: FileLog_def)

lemma FileLog_files:
  assumes "open_file s = Some f" and "log_files s f = Some c"
  shows "log_files (FileLog render now date p b s) = (log_files s)(f \<mapsto> c @
    (if is_separator b then b
     else render (loggingFilterName s) b (if lastTimeLogged s < now then time_stamp date else []) p) @ newline)"
  using assms by (simp add: FileLog_def file_write_def)

text \<open>
  A message of a run of \<^verbatim>\<open>FileLog\<close>, and the line that message \<open>i\<close> makes: it has a time stamp if it is
  no separator and its time is later than that of every message before it.
\<close>

record log_message =
  msg_time :: int
  msg_date :: string
  msg_priority :: int
  msg_text :: string

definition log_all :: "(string \<Rightarrow> string \<Rightarrow> string \<Rightarrow> int \<Rightarrow> string) \<Rightarrow> log_message list \<Rightarrow> log_state \<Rightarrow> log_state" where
  "log_all render ms s =
     fold (\<lambda>m. FileLog render (msg_time m) (msg_date m) (msg_priority m) (msg_text m)) ms s"

definition is_stamped :: "int \<Rightarrow> log_message list \<Rightarrow> nat \<Rightarrow> bool" where
  "is_stamped since ms i \<longleftrightarrow> since < msg_time (ms ! i) \<and>
     (\<forall>j<i. is_separator (msg_text (ms ! j)) \<or> msg_time (ms ! j) < msg_time (ms ! i))"

definition log_line ::
  "(string \<Rightarrow> string \<Rightarrow> string \<Rightarrow> int \<Rightarrow> string) \<Rightarrow> string \<Rightarrow> int \<Rightarrow> log_message list \<Rightarrow> nat \<Rightarrow> string" where
  "log_line render name since ms i =
     (let m = ms ! i
      in (if is_separator (msg_text m) then msg_text m
          else render name (msg_text m) (if is_stamped since ms i then time_stamp (msg_date m) else [])
                 (msg_priority m)) @ newline)"

lemma log_all_snoc:
  "log_all render (ms @ [m]) s =
     FileLog render (msg_time m) (msg_date m) (msg_priority m) (msg_text m) (log_all render ms s)"
  by (simp add: log_all_def)

lemma log_all_state [simp]:
  "open_file (log_all render ms s) = open_file s"
  "loggingFilterName (log_all render ms s) = loggingFilterName s"
proof -
  have "open_file (log_all render ms s) = open_file s \<and>
      loggingFilterName (log_all render ms s) = loggingFilterName s"
    by (induction ms rule: rev_induct) (simp_all add: log_all_snoc, simp_all add: log_all_def)
  then show "open_file (log_all render ms s) = open_file s"
    "loggingFilterName (log_all render ms s) = loggingFilterName s" by simp_all
qed

lemma log_all_last:
  "open_file s \<noteq> None \<Longrightarrow> lastTimeLogged (log_all render ms s) < t \<longleftrightarrow>
     lastTimeLogged s < t \<and> (\<forall>m\<in>set ms. is_separator (msg_text m) \<or> msg_time m < t)"
  by (induction ms rule: rev_induct)
    (auto simp: log_all_snoc FileLog_last, simp_all add: log_all_def)

lemma log_line_append: "i < length ms \<Longrightarrow> log_line render name since (ms @ ns) i = log_line render name since ms i"
  by (simp add: log_line_def is_stamped_def nth_append Let_def)

lemma log_all_files:
  assumes "open_file s = Some f" and "log_files s f = Some c"
  shows "log_files (log_all render ms s) = (log_files s)(f \<mapsto>
    c @ concat (map (log_line render (loggingFilterName s) (lastTimeLogged s) ms) [0..<length ms]))"
proof (induction ms rule: rev_induct)
  case Nil
  then show ?case using assms by (simp add: log_all_def fun_upd_idem)
next
  case (snoc m ms)
  let ?line = "log_line render (loggingFilterName s) (lastTimeLogged s)"
  have "lastTimeLogged (log_all render ms s) < msg_time m \<longleftrightarrow> is_stamped (lastTimeLogged s) (ms @ [m]) (length ms)"
    using assms(1) by (auto simp: log_all_last is_stamped_def nth_append all_set_conv_all_nth)
  then have "log_files (log_all render (ms @ [m]) s) = (log_files (log_all render ms s))(f \<mapsto>
      c @ concat (map (?line ms) [0..<length ms]) @ ?line (ms @ [m]) (length ms))"
    using FileLog_files [of "log_all render ms s" f] assms snoc
    by (simp add: log_all_snoc log_line_def [of _ _ _ "ms @ [m]"] Let_def)
  moreover have lines: "concat (map (?line (ms @ [m])) [0..<length ms]) = concat (map (?line ms) [0..<length ms])"
    by (intro arg_cong [where f = concat] map_cong) (simp_all add: log_line_append)
  ultimately show ?case unfolding snoc by (simp add: lines)
qed

section \<open>Opening a log\<close>

lemma CreateSubDirectory_some:
  "dir \<noteq> [] \<Longrightarrow> \<exists>failed calls. CreateSubDirectory mkdir dir = Inr (failed, calls)"
  by (simp add: CreateSubDirectory_def Let_def)

lemma FileLogOpen_opens:
  assumes "length name < logTempBufferSize" and "\<not> isCreatingFile s" and "open_works os"
  shows "\<exists>s'. FileLogOpen mkdir os date (Some name) erase s = Inr s' \<and>
    (let f = ''c:/temp/mber_logging/'' @ name @ ''.log'';
         old = (case log_files s f of None \<Rightarrow> [] | Some c \<Rightarrow> c)
     in open_file s' = Some f \<and> loggingFilterName s' = name \<and> lastTimeLogged s' = lastTimeLogged s \<and>
        \<not> isCreatingFile s' \<and>
        log_files s' = (log_files s)(f \<mapsto>
          (if \<not> erase then old @ log_header name date else if remove_works os then [] else old)))"
proof -
  obtain failed calls where "CreateSubDirectory mkdir ''c:/temp/mber_logging'' = Inr (failed, calls)"
    using CreateSubDirectory_some [of "''c:/temp/mber_logging''" mkdir] by auto
  then show ?thesis using assms
    by (cases erase; cases "remove_works os")
      (simp_all add: FileLogOpen_def CreateLogFile_def say_def file_write_def Let_def
         split: option.split)
qed

lemma FileLogOpen_default: "FileLogOpen mkdir os date None erase s = Inl NullDeref"
  using CreateSubDirectory_some [of "''c:/temp/mber_logging''" mkdir]
  by (auto simp: FileLogOpen_def Let_def)

end
