(* ===== verification/Other_Platforms.thy ===== *)
theory Other_Platforms
  imports Logging Network_Utils
begin

text \<open>
  The branches for platforms other than Windows: \<^verbatim>\<open>kbhit\<close> and \<^verbatim>\<open>getch\<close> of \<^verbatim>\<open>Utils.cpp\<close>, the Unix and Mac
  log of \<^verbatim>\<open>server_log.cpp\<close>, and \<^verbatim>\<open>NetworkUtils.cpp\<close>.
\<close>

section \<open>The keyboard\<close>

text \<open>
  The terminal: the local mode flags of its \<^verbatim>\<open>termios\<close>, the status flags of the descriptor, the
  character that \<^verbatim>\<open>ungetc\<close> has put back, and what the following reads give: a character, or \<^term>\<open>None\<close>
  where a descriptor in non-blocking mode has nothing. System calls that cannot fail on a terminal
  are taken to succeed.
\<close>

record terminal =
  c_lflag :: U32
  fl :: U32
  put_back :: "U8 option"
  reads :: "U8 option list"

definition ICANON :: U32 where "ICANON = 2"
definition ECHO :: U32 where "ECHO = 8"
definition O_NONBLOCK :: U32 where "O_NONBLOCK = 2048"

text \<open>\<^verbatim>\<open>getchar\<close>; \<^term>\<open>None\<close> as result when the list of answers ends, for a read that has not returned.\<close>

definition getchar :: "terminal \<Rightarrow> (U8 option \<times> terminal) option" where
  "getchar t =
     (case put_back t of
        Some c \<Rightarrow> Some (Some c, t\<lparr>put_back := None\<rparr>)
      | None \<Rightarrow> (case reads t of [] \<Rightarrow> None | r # rs \<Rightarrow> Some (r, t\<lparr>reads := rs\<rparr>)))"

definition raw_mode :: "terminal \<Rightarrow> terminal" where
  "raw_mode t = t\<lparr>c_lflag := c_lflag t AND NOT (ICANON OR ECHO), fl := fl t OR O_NONBLOCK\<rparr>"

definition kbhit :: "terminal \<Rightarrow> (bool \<times> terminal) option" where
  "kbhit t = do {
     let oldt = c_lflag t;
     let oldf = fl t;
     (ch, t) \<leftarrow> getchar (raw_mode t);
     let t = t\<lparr>c_lflag := oldt, fl := oldf\<rparr>;
     case ch of Some c \<Rightarrow> Some (True, t\<lparr>put_back := Some c\<rparr>) | None \<Rightarrow> Some (False, t) }"

text \<open>The loop of \<^verbatim>\<open>getch\<close>, which sleeps between its reads; one answer of the terminal per round.\<close>

fun getch_loop :: "U8 option list \<Rightarrow> (U8 \<times> U8 option list) option" where
  "getch_loop [] = None"
| "getch_loop (Some ch # rs) = Some (ch, rs)"
| "getch_loop (None # rs) = getch_loop rs"

definition getch :: "terminal \<Rightarrow> (U8 \<times> terminal) option" where
  "getch t = do {
     let oldt = c_lflag t;
     let oldf = fl t;
     let t = raw_mode t;
     (ch, t) \<leftarrow> (case put_back t of
        Some c \<Rightarrow> Some (c, t\<lparr>put_back := None\<rparr>)
      | None \<Rightarrow> map_option (\<lambda>(ch, rs). (ch, t\<lparr>reads := rs\<rparr>)) (getch_loop (reads t)));
     Some (ch, t\<lparr>c_lflag := oldt, fl := oldf\<rparr>) }"

lemma getch_loop_first:
  "getch_loop rs = Some (ch, rs') \<longleftrightarrow> (\<exists>k. rs = replicate k None @ Some ch # rs')"
proof (induction rs rule: getch_loop.induct)
  case (2 c rs)
  have "Some c # rs = replicate k None @ Some ch # rs' \<longleftrightarrow> k = 0 \<and> c = ch \<and> rs = rs'" for k
    by (cases k) auto
  then show ?case by auto
next
  case (3 rs)
  have "(\<exists>k. None # rs = replicate k None @ Some ch # rs') \<longleftrightarrow> (\<exists>k. rs = replicate k None @ Some ch # rs')"
  proof
    assume "\<exists>k. None # rs = replicate k None @ Some ch # rs'"
    then obtain k where k: "None # rs = replicate k None @ Some ch # rs'" by blast
    then show "\<exists>k. rs = replicate k None @ Some ch # rs'" by (cases k) auto
  next
    assume "\<exists>k. rs = replicate k None @ Some ch # rs'"
    then obtain k where "rs = replicate k None @ Some ch # rs'" by blast
    then have "None # rs = replicate (Suc k) None @ Some ch # rs'" by simp
    then show "\<exists>k. None # rs = replicate k None @ Some ch # rs'" by blast
  qed
  then show ?case using 3 by simp
qed simp

text \<open>Both leave the terminal in the mode in which they found it.\<close>

lemma kbhit_restores: "kbhit t = Some (hit, t') \<Longrightarrow> c_lflag t' = c_lflag t \<and> fl t' = fl t"
  by (auto simp: kbhit_def Let_def bind_eq_Some_conv split: option.splits)

lemma getch_restores: "getch t = Some (ch, t') \<Longrightarrow> c_lflag t' = c_lflag t \<and> fl t' = fl t"
  by (auto simp: getch_def Let_def bind_eq_Some_conv)

text \<open>\<^verbatim>\<open>kbhit\<close> takes nothing away: the key it has seen is the one that \<^verbatim>\<open>getch\<close> returns.\<close>

lemma kbhit_then_getch:
  assumes "put_back t = None" and "kbhit t = Some (True, t')"
  shows "\<exists>ch. reads t = Some ch # reads t' \<and> getch t' = Some (ch, t'\<lparr>put_back := None\<rparr>)"
  using assms
  by (auto simp: kbhit_def getch_def getchar_def raw_mode_def Let_def bind_eq_Some_conv split: option.splits list.splits)

lemma kbhit_nothing:
  assumes "put_back t = None" and "reads t = None # rs"
  shows "kbhit t = Some (False, t\<lparr>reads := rs\<rparr>)"
  using assms by (simp add: kbhit_def getchar_def raw_mode_def Let_def)

text \<open>\<^verbatim>\<open>getch\<close> returns the first key that comes, and does not return before one comes.\<close>

lemma getch_first:
  assumes "put_back t = None"
  shows "getch t = Some (ch, t') \<longleftrightarrow> (\<exists>k. reads t = replicate k None @ Some ch # reads t') \<and> t' = t\<lparr>reads := reads t'\<rparr>"
proof -
  have "getch t = map_option (\<lambda>(ch, rs). (ch, t\<lparr>reads := rs\<rparr>)) (getch_loop (reads t))"
    using assms by (cases "getch_loop (reads t)") (auto simp: getch_def raw_mode_def Let_def)
  then have "getch t = Some (ch, t') \<longleftrightarrow> (\<exists>rs. getch_loop (reads t) = Some (ch, rs) \<and> t' = t\<lparr>reads := rs\<rparr>)"
    by (cases "getch_loop (reads t)") auto
  also have "\<dots> \<longleftrightarrow> getch_loop (reads t) = Some (ch, reads t') \<and> t' = t\<lparr>reads := reads t'\<rparr>" by auto
  finally show ?thesis by (simp add: getch_loop_first)
qed

section \<open>The log on Unix and on Mac\<close>

text \<open>
  On Unix every message also goes to \<^verbatim>\<open>syslog\<close>, under the name that \<^verbatim>\<open>openlog\<close> was given; \<open>format\<close> is the
  formatting of \<^verbatim>\<open>vsyslog\<close>.
\<close>

record unix_log =
  log_base :: log_state
  syslog_name :: "string option"
  syslog_lines :: "(int \<times> string) list"

definition LogOpen_unix :: "string \<Rightarrow> unix_log \<Rightarrow> unix_log" where
  "LogOpen_unix PACKAGE_NAME u = u\<lparr>syslog_name := Some PACKAGE_NAME\<rparr>"

definition LogClose_unix :: "unix_log \<Rightarrow> unix_log" where
  "LogClose_unix u = u\<lparr>syslog_name := None\<rparr>"

definition LogMessage_unix ::
  "(string \<Rightarrow> 'a list \<Rightarrow> string option) \<Rightarrow> (string \<Rightarrow> 'a list \<Rightarrow> string option) \<Rightarrow>
   (string \<Rightarrow> string \<Rightarrow> string \<Rightarrow> int \<Rightarrow> string) \<Rightarrow> int \<Rightarrow> string \<Rightarrow> int \<Rightarrow> string \<Rightarrow> 'a list \<Rightarrow>
   unix_log \<Rightarrow> unix_log res" where
  "LogMessage_unix format vsnprintf render now date priority printFormat args u =
     (case format printFormat args of
        None \<Rightarrow> Inl BadConversion
      | Some line \<Rightarrow>
          let u = u\<lparr>syslog_lines := syslog_lines u @ [(priority, line)]\<rparr>
          in case vsnprintf printFormat args of
               None \<Rightarrow> Inl BadConversion
             | Some txt \<Rightarrow>
                 let buffer = take (logTempBufferSize - 2) txt;
                     s = say buffer (log_base u)
                 in Inr (u\<lparr>log_base := FileLog render now date priority buffer s\<rparr>))"

definition FileLogOpen_unix ::
  "(string \<Rightarrow> bool) \<Rightarrow> open_answers \<Rightarrow> string \<Rightarrow> string option \<Rightarrow> bool \<Rightarrow> unix_log \<Rightarrow> unix_log res" where
  "FileLogOpen_unix mkdir os date processName erasePreviousContents u =
     (let directory = ''/usr/local/bin/mber''
      in and_then (CreateSubDirectory mkdir directory) (\<lambda>(failed, calls).
           let s = (log_base u)\<lparr>mkdir_calls := mkdir_calls (log_base u) @ calls\<rparr>
           in case processName of
                None \<Rightarrow> Inl NullDeref
              | Some processName \<Rightarrow>
                  let filename = directory @ ''/'' @ processName @ ''.log''
                  in and_then (CreateLogFile os date filename processName erasePreviousContents s)
                       (\<lambda>s. Inr (u\<lparr>log_base := s\<rparr>))))"

definition LogMessage_mac ::
  "(string \<Rightarrow> 'a list \<Rightarrow> string option) \<Rightarrow> int \<Rightarrow> string \<Rightarrow> 'a list \<Rightarrow> log_state \<Rightarrow> log_state res" where
  "LogMessage_mac vsnprintf priority fmt args s =
     (case vsnprintf fmt args of
        None \<Rightarrow> Inl BadConversion
      | Some txt \<Rightarrow> Inr (say (take (logTempBufferSize - 2) txt) s))"

definition LogOpen_mac :: "log_state \<Rightarrow> log_state" where "LogOpen_mac s = s"
definition LogClose_mac :: "log_state \<Rightarrow> log_state" where "LogClose_mac s = s"

definition FileLogOpen_mac :: "string option \<Rightarrow> bool \<Rightarrow> log_state \<Rightarrow> log_state" where
  "FileLogOpen_mac extFilename erasePreviousContents s = s"

text \<open>Console and file get on Unix what they get on Windows; \<^verbatim>\<open>syslog\<close> gets the text uncut.\<close>

lemma LogMessage_unix_windows:
  assumes "format printFormat args = Some line"
  shows "LogMessage_unix format vsnprintf render now date priority printFormat args u =
    and_then (LogMessage vsnprintf render now date priority printFormat args (log_base u)) (\<lambda>s.
      Inr (u\<lparr>log_base := s, syslog_lines := syslog_lines u @ [(priority, line)]\<rparr>))"
  using assms by (cases "vsnprintf printFormat args") (simp_all add: LogMessage_unix_def LogMessage_def Let_def)

text \<open>The directory is created in one call per slash, all of them for the whole path.\<close>

lemma unix_log_directory:
  assumes "\<And>p. \<not> mkdir p"
  shows "CreateSubDirectory mkdir ''/usr/local/bin/mber'' = Inr (False, replicate 4 ''/usr/local/bin/mber/'')"
  using assms by (simp add: CreateSubDirectory_def Let_def numeral_eq_Suc)

text \<open>No file is ever opened on Mac, so nothing is written to one.\<close>

lemma mac_no_file:
  assumes "LogMessage_mac vsnprintf priority fmt args (FileLogOpen_mac name erase s) = Inr s'"
  shows "log_files s' = log_files s \<and> open_file s' = open_file s"
  using assms by (auto simp: LogMessage_mac_def FileLogOpen_mac_def say_def split: option.splits)

section \<open>NetworkUtils.cpp\<close>

definition SetSocketToNonblock_unix :: "int \<Rightarrow> bool" where
  "SetSocketToNonblock_unix fcntl = (if fcntl = -1 then False else True)"

definition InitializeSockets_unix :: bool where "InitializeSockets_unix = True"

text \<open>\<^verbatim>\<open>ShutdownSockets\<close>: on Windows \<^verbatim>\<open>WSACleanup\<close>, elsewhere nothing.\<close>

definition ShutdownSockets :: "bool \<Rightarrow> os_call list" where
  "ShutdownSockets windows = (if windows then [Call_cleanup] else [])"

text \<open>
  \<^verbatim>\<open>DisableNagle\<close> with the bytes of the option value that it passes; \<open>setsockopt\<close> is the system's answer,
  which is ignored, so that the result is the option's value afterwards.
\<close>

definition DisableNagle :: "(bytes \<Rightarrow> bool option) \<Rightarrow> bool \<Rightarrow> bool" where
  "DisableNagle setsockopt nodelay =
     (let nagleOff = (1 :: U8)
      in case setsockopt [nagleOff] of Some v \<Rightarrow> v | None \<Rightarrow> nodelay)"

text \<open>\<^verbatim>\<open>setsockopt\<close> of POSIX systems rejects a value for \<^verbatim>\<open>TCP_NODELAY\<close> that is shorter than an \<^verbatim>\<open>int\<close>.\<close>

definition posix_nodelay :: "bytes \<Rightarrow> bool option" where
  "posix_nodelay optval = (if length optval < 4 then None else Some (take 4 optval \<noteq> [0, 0, 0, 0]))"

lemma DisableNagle_posix: "DisableNagle posix_nodelay nodelay = nodelay"
  by (simp add: DisableNagle_def posix_nodelay_def)

text \<open>
  \<^verbatim>\<open>GetLocalIpAddress\<close> over the interfaces that \<^verbatim>\<open>getifaddrs\<close> lists: the name and, if there is one, the
  address with its family, as dotted text. \<open>mem\<close> is the caller's buffer. When no interface has an
  IPv4 address, the log message behind the loop prints the array \<^verbatim>\<open>name\<close>, which
  nothing has written or terminated.
\<close>

record ifaddrs =
  ifa_name :: bytes
  ifa_addr :: "(U16 \<times> bytes) option"

fun ifaddrs_loop :: "nat \<Rightarrow> ifaddrs list \<Rightarrow> (bytes option \<times> bytes) \<Rightarrow> bytes option \<times> bytes" where
  "ifaddrs_loop buflen [] st = st"
| "ifaddrs_loop buflen (tmp # rest) (name, buffer) =
     (case ifa_addr tmp of
        Some (family, a) \<Rightarrow>
          if family = AF_INET
          then ifaddrs_loop buflen rest (Some (strncpy (ifa_name tmp) 256), strncpy a buflen)
          else ifaddrs_loop buflen rest (name, buffer)
      | None \<Rightarrow> ifaddrs_loop buflen rest (name, buffer))"

definition GetLocalIpAddress_unix :: "ifaddrs list \<Rightarrow> bytes \<Rightarrow> nat \<Rightarrow> bytes res" where
  "GetLocalIpAddress_unix addrs mem buflen =
     (if buflen < 16 then Inl AssertFailed
      else case ifaddrs_loop buflen addrs (None, mem) of
             (None, buffer) \<Rightarrow> Inl OutOfBounds
           | (Some name, buffer) \<Rightarrow> Inr buffer)"

fun inet_addrs :: "ifaddrs list \<Rightarrow> bytes list" where
  "inet_addrs [] = []"
| "inet_addrs (i # ifs) =
     (case ifa_addr i of Some (family, a) \<Rightarrow> (if family = AF_INET then [a] else []) | None \<Rightarrow> []) @ inet_addrs ifs"

lemma ifaddrs_loop_last:
  "snd (ifaddrs_loop buflen ifs (name, buf)) =
     (if inet_addrs ifs = [] then buf else strncpy (last (inet_addrs ifs)) buflen) \<and>
   (fst (ifaddrs_loop buflen ifs (name, buf)) = None \<longleftrightarrow> name = None \<and> inet_addrs ifs = [])"
  by (induction ifs arbitrary: name buf) (auto split: option.splits if_splits)

text \<open>The first address wins on Windows, the last one elsewhere.\<close>

lemma GetLocalIpAddress_unix_last:
  assumes "16 \<le> buflen" and "inet_addrs ifs \<noteq> []"
  shows "GetLocalIpAddress_unix ifs mem buflen = Inr (strncpy (last (inet_addrs ifs)) buflen)"
  using assms ifaddrs_loop_last [of buflen ifs None mem]
  by (auto simp: GetLocalIpAddress_unix_def split: prod.splits option.splits)

end
