(* ===== verification/Console_Output.thy ===== *)
theory Console_Output
  imports Tcp_Server Udp_Server Network_Utils Utilities
begin

text \<open>
  What the TCP and the UDP server print, and the helpers that only wrap system calls: \<^verbatim>\<open>LogPacket\<close>,
  \<^verbatim>\<open>MakeDaytimeString\<close> and \<^verbatim>\<open>getLocalIPAddress\<close> of \<^verbatim>\<open>Socket.cpp\<close>, the log functions of \<^verbatim>\<open>UDPServer\<close>, the two
  wrappers of \<^verbatim>\<open>select\<close>, and \<^verbatim>\<open>SetValueOnExit\<close>. A line is what one \<^verbatim>\<open>printf\<close> or \<^verbatim>\<open>cout\<close> statement prints.
\<close>

section \<open>Waiting for a datagram\<close>

text \<open>
  Both functions give \<^verbatim>\<open>select\<close> one socket to watch for reading. \<open>fails\<close> is its error, \<open>arrives\<close> the time
  in microseconds until the socket is readable, \<^term>\<open>None\<close> if nothing comes.
\<close>

definition select_read :: "bool \<Rightarrow> nat option \<Rightarrow> int \<Rightarrow> int" where
  "select_read fails arrives timeout =
     (if fails then -1
      else case arrives of None \<Rightarrow> 0 | Some t \<Rightarrow> if int t \<le> timeout then 1 else 0)"

definition recvfromTimeOutUDP :: "bool \<Rightarrow> nat option \<Rightarrow> int \<Rightarrow> int \<Rightarrow> int" where
  "recvfromTimeOutUDP fails arrives sec usec = select_read fails arrives (sec * 1000000 + usec)"

definition ReceiveFromSocketWithTimeOut :: "bool \<Rightarrow> nat option \<Rightarrow> int \<Rightarrow> int \<Rightarrow> int" where
  "ReceiveFromSocketWithTimeOut fails arrives sec usec = select_read fails arrives (sec * 1000000 + usec)"

text \<open>
  The server waits 20 ms. Without a datagram in that time a round of \<^verbatim>\<open>Receive\<close> returns and changes
  nothing; only with one does it call \<^verbatim>\<open>recvfrom\<close>.
\<close>

lemma Receive_timeout:
  assumes "\<And>t. arrives = Some t \<Longrightarrow> 20000 < t"
  shows "Receive (ReceiveFromSocketWithTimeOut fails arrives 0 20000) getpeername mem rs s = Some (Inr s)"
proof -
  have "ReceiveFromSocketWithTimeOut fails arrives 0 20000 \<in> {0, -1}"
    using assms by (cases arrives) (auto simp: ReceiveFromSocketWithTimeOut_def select_read_def)
  then show ?thesis by (auto simp: Receive_def)
qed

lemma Receive_datagram:
  assumes "t \<le> 20000"
  shows "Receive (ReceiveFromSocketWithTimeOut False (Some t) 0 20000) getpeername mem rs s =
    ReceiveAllDataFromEndpoint getpeername mem rs s"
  using assms by (simp add: Receive_def ReceiveFromSocketWithTimeOut_def select_read_def)

section \<open>The log of the UDP server\<close>

text \<open>
  \<^verbatim>\<open>LogBytesReceived\<close> prints the receive buffer with \<^verbatim>\<open>%s\<close>, which reads to the first zero. \<open>host\<close> is what
  \<^verbatim>\<open>getnameinfo\<close> writes; the line \<^verbatim>\<open>"\\n"\<close> has no line end, but the two characters of the escape.
\<close>

datatype udp_line = Bytes_received int | The_data bytes | Sending_ip string | Sending_port U16
  | Receiving_ips string | Receiving_port U16 | Ready_to_receive

definition LogBytesReceived :: "int \<Rightarrow> bytes \<Rightarrow> udp_server \<Rightarrow> udp_line list res" where
  "LogBytesReceived BytesReceived ReceiveBuf s =
     (if extraLogging s
      then if 0 \<in> set ReceiveBuf then Inr [Bytes_received BytesReceived, The_data (cstr ReceiveBuf)]
           else Inl OutOfBounds
      else Inr [])"

definition LogReceive :: "(socket_pair \<Rightarrow> string) \<Rightarrow> socket_pair \<Rightarrow> udp_server \<Rightarrow> udp_line list" where
  "LogReceive host sender s =
     (if extraLogging s then [Sending_ip (host sender), Sending_port (htons (snd sender))] else [])"

text \<open>\<^verbatim>\<open>getsockname\<close> gives \<open>addr\<close>, the address the socket is bound to, with the port in network order.\<close>

definition GetLocalSocketInfo :: "string \<times> U16 \<Rightarrow> udp_server \<Rightarrow> udp_server \<times> udp_line list" where
  "GetLocalSocketInfo addr s =
     (let s = s\<lparr>ReceivingPort := Some (snd addr)\<rparr>
      in (s, [Receiving_ips (fst addr), Receiving_port (htons (snd addr)), Ready_to_receive]))"

text \<open>The port that is printed is the one that \<^verbatim>\<open>SetupSocketDetails\<close> was given.\<close>

lemma GetLocalSocketInfo_port:
  assumes "ReceivingPort (UdpServer_SetupSocketDetails port s) = Some p"
  shows "Receiving_port port \<in> set (snd (GetLocalSocketInfo (ip, p) s))"
  using assms
  by (auto simp: UdpServer_SetupSocketDetails_def GetLocalSocketInfo_def Let_def htons_def byte_swap_byte_swap)

text \<open>With the extra log a datagram of 1024 bytes without a zero is read past its end; it is off.\<close>

lemma extra_log_overrun:
  "extraLogging s \<Longrightarrow> 0 \<notin> set buf \<Longrightarrow> LogBytesReceived n buf s = Inl OutOfBounds"
  by (simp add: LogBytesReceived_def)

lemma service_loop_extraLogging:
  "service_loop mem it s = Inr s' \<Longrightarrow> extraLogging s' = extraLogging s"
proof (induction mem it s rule: service_loop.induct)
  case (2 mem key c it s)
  then show ?case by (fastforce simp: Let_def split: if_splits)
qed simp

section \<open>The TCP server\<close>

text \<open>The console gets the name and the type of the packet; a null pointer is dereferenced.\<close>

definition LogPacket :: "factory \<Rightarrow> pointer \<Rightarrow> string list res" where
  "LogPacket f packet = and_then (deref f packet) (\<lambda>p.
     Inr [''Packet received:'', ''    '' @ GetName p,
       ''     ('' @ show_int (uint (GetType p)) @ '', '' @ show_int (uint (GetSubType p)) @ '')''])"

definition MakeDaytimeString :: "(int \<Rightarrow> string) \<Rightarrow> int \<Rightarrow> string" where
  "MakeDaytimeString ctime now = ctime now"

text \<open>The two numbers are those that \<^verbatim>\<open>Create\<close> takes, and they can be read back.\<close>

lemma LogPacket_result:
  assumes "a < length (heap f)"
  shows "\<exists>line. LogPacket f (Some a) = Inr [''Packet received:'', ''    '' @ GetName (heap f ! a), line] \<and>
    sscanf [Literal CHR ''('', Percent_d, Literal CHR '','', Percent_d] (skip_blanks line) =
      [uint (GetType (heap f ! a)), uint (GetSubType (heap f ! a))]"
proof -
  let ?x = "uint (GetType (heap f ! a))" and ?y = "uint (GetSubType (heap f ! a))"
  have b: "scan_int (CHR '' '' # s) = scan_int s" for s unfolding scan_int_def by (simp add: skip_blanks_def)
  have "scan_int (show_int ?x @ '','' @ rest) = Some (?x, '','' @ rest)" for rest
    by (rule scan_show_int) (simp add: is_digit_def)
  moreover have "scan_int (show_int ?y @ '')'') = Some (?y, '')'')"
    by (rule scan_show_int) (simp add: is_digit_def)
  ultimately have "sscanf [Literal CHR ''('', Percent_d, Literal CHR '','', Percent_d]
      (CHR ''('' # show_int ?x @ '','' @ CHR '' '' # show_int ?y @ '')'') = [?x, ?y]"
    by (simp add: b)
  then show ?thesis using assms by (simp add: LogPacket_def deref_def skip_blanks_def)
qed

text \<open>
  \<^verbatim>\<open>getLocalIPAddress\<close>: \<open>resolve\<close>, \<open>connect\<close> and \<open>local_endpoint\<close> are Boost's, \<^term>\<open>None\<close> where they throw. The
  exception is caught and printed; the function then returns the address that it was declared with.
\<close>

definition no_address :: string where "no_address = ''0.0.0.0''"

definition getLocalIPAddress ::
  "(string \<Rightarrow> 'ep list option) \<Rightarrow> ('ep \<Rightarrow> 'sock option) \<Rightarrow> ('sock \<Rightarrow> string option) \<Rightarrow> string res" where
  "getLocalIPAddress resolve connect local_endpoint =
     (case resolve ''google.com'' of
        None \<Rightarrow> Inr no_address
      | Some [] \<Rightarrow> Inl EndIteratorDeref
      | Some (ep # endpoints) \<Rightarrow>
          (case connect ep of
             None \<Rightarrow> Inr no_address
           | Some socket \<Rightarrow>
               (case local_endpoint socket of None \<Rightarrow> Inr no_address | Some addr \<Rightarrow> Inr addr)))"

text \<open>No exception leaves it, and an empty answer of the resolver is the only fault.\<close>

lemma getLocalIPAddress_returns:
  assumes "resolve ''google.com'' \<noteq> Some []"
  shows "\<exists>addr. getLocalIPAddress resolve connect local_endpoint = Inr addr"
  using assms by (auto simp: getLocalIPAddress_def split: option.splits list.splits)

section \<open>SetValueOnExit\<close>

text \<open>The object holds a reference, here the name of a variable in the store.\<close>

record ('x, 'v) set_value_on_exit =
  m_valueToChange :: 'x
  m_valueToSet :: 'v

definition new_SetValueOnExit :: "'x \<Rightarrow> 'v \<Rightarrow> ('x, 'v) set_value_on_exit" where
  "new_SetValueOnExit valueToChange valueToSet =
     \<lparr>m_valueToChange = valueToChange, m_valueToSet = valueToSet\<rparr>"

definition delete_SetValueOnExit :: "('x, 'v) set_value_on_exit \<Rightarrow> ('x \<Rightarrow> 'v) \<Rightarrow> 'x \<Rightarrow> 'v" where
  "delete_SetValueOnExit obj store = store(m_valueToChange obj := m_valueToSet obj)"

text \<open>Leaving a scope destroys its objects in reverse order: for one variable the first object decides.\<close>

definition leave_scope :: "('x, 'v) set_value_on_exit list \<Rightarrow> ('x \<Rightarrow> 'v) \<Rightarrow> 'x \<Rightarrow> 'v" where
  "leave_scope objs store = fold delete_SetValueOnExit (rev objs) store"

lemma leave_scope_value:
  "leave_scope objs store x =
     (case find (\<lambda>obj. m_valueToChange obj = x) objs of None \<Rightarrow> store x | Some obj \<Rightarrow> m_valueToSet obj)"
  by (induction objs) (auto simp: leave_scope_def delete_SetValueOnExit_def)

end
