(* ===== verification/Spec2Isabelle.thy ===== *)
theory Spec2Isabelle
  imports Session Udp_Programs Network_Utils Common_Types Server_Info Utilities Compression
    Serialization_Tests Stream_Tests Socket_Tests Factory_Demo
    Server_Types Reschedule_Race Base64 Sample_Programs Ring_Threads
    Type_Registry Other_Platforms Console_Output
begin

text \<open>
  The repository is a C++ networking library with a small game protocol (\<^verbatim>\<open>src/UDP01/OldCode\<close>),
  a threaded UDP server with its client (\<^verbatim>\<open>src/UDP01-ThreadedServer\<close>, \<^verbatim>\<open>src/UDP01 - Client\<close>,
  \<^verbatim>\<open>src/Common\<close>), two smaller socket programs (\<^verbatim>\<open>src/UDP01\<close>), tests and samples.

  The parts and how they interact.
  A \<^verbatim>\<open>PacketFactory\<close> keeps, for every registered packet class, a ring buffer with 100 objects.
  \<^verbatim>\<open>TCPConnection\<close> receives bytes into a buffer of 512 bytes; \<^verbatim>\<open>SizePacket\<close> cuts them into frames,
  takes an object of the right class from the factory and lets it read its fields with
  \<^verbatim>\<open>Serialize::In\<close>; the object is queued on the connection until the user releases it.
  \<^verbatim>\<open>TCPServer\<close> accepts connections, \<^verbatim>\<open>TCPThreader\<close> restarts their reads and removes the
  closed ones. \<^verbatim>\<open>TCPClient\<close> is the other end. The UDP programs exchange one handshake with
  \<^verbatim>\<open>CommsStateMachine\<close>.

  Theories, and what they model.
  \<^item> \<open>Prelude\<close>: bytes, buffers with checked reads and writes (\<open>rd\<close>, \<open>wr\<close>), the result type
    \<open>'a res\<close> with the faults of the program (\<open>Inl\<close> is an assertion, an access outside a buffer,
    a null or end-iterator dereference, an undefined conversion), collections of simp rules.
  \<^item> \<open>Machine_Words\<close>: \<^verbatim>\<open>DataTypes.h\<close>; byte orders, \<^verbatim>\<open>htonl\<close>, and \<^verbatim>\<open>htonll\<close> of \<^verbatim>\<open>Serialize.cpp\<close>.
  \<^item> \<open>Serialize\<close>: \<^verbatim>\<open>Packets/Serialize.h\<close>, one pair \<open>In_\<tau>\<close>/\<open>Out_\<tau>\<close> per specialisation. The locale
    \<open>serializer\<close> states the contract of such a pair (what was written is read back, the offset
    advances by the length, nothing else changes); it is interpreted for every type.
  \<^item> \<open>Circular_Buffer\<close>: \<^verbatim>\<open>General/CircularBuffer.h\<close>; the locale of bounded queues, which the ring
    refines through \<open>cb_contents\<close>.
  \<^item> \<open>Ring_Threads\<close>: the same ring under threads, one statement per step, with its mutex (\<open>ring_step\<close>);
    the invariant \<open>ring_inv\<close> says which part of its call the thread inside has done.
  \<^item> \<open>Float32\<close>, \<open>Compression\<close>: single-precision rounding on rationals; \<^verbatim>\<open>NetworkUtils.h\<close> and the
    compressed vectors of \<^verbatim>\<open>Packets/MovementPacket.h/.cpp\<close>.
  \<^item> \<open>Packets\<close>: \<^verbatim>\<open>Packets/BasePacket.h/.cpp\<close> and the packets of \<^verbatim>\<open>MovementPacket.h/.cpp\<close>; a class is
    a record that extends its base class, a virtual call is a case on the class of the object.
  \<^item> \<open>Std_Map\<close>: \<^verbatim>\<open>std::map\<close> as a list sorted by key, with a locale for look-up after insertion.
  \<^item> \<open>Packet_Factory\<close>: \<^verbatim>\<open>Packets/PacketFactory.h/.cpp\<close>; \<open>pool_reach\<close> are the states that clients
    reach with \<^verbatim>\<open>Create\<close>, \<^verbatim>\<open>Release\<close> and changes of the objects they hold.
  \<^item> \<open>Size_Packet\<close>: \<^verbatim>\<open>SizePacket\<close> and the receive loop of \<^verbatim>\<open>TCPConnection::Start\<close>.
  \<^item> \<open>Tcp_Server\<close>: \<^verbatim>\<open>Socket/Socket.h/.cpp\<close>. Asynchronous operations in progress are the list
    \<open>pending\<close>; \<open>server_step\<close> completes any of them, in any order, or runs a call of the user.
  \<^item> \<open>Tcp_Service\<close>: \<^verbatim>\<open>TCPThreader\<close> with its \<^verbatim>\<open>io_service\<close>. The theorems on \<open>server_step\<close> say what the handlers
    do whenever they run; \<open>tcp_service_step\<close> says which of them the program runs.
  \<^item> \<open>Reschedule_Race\<close>: \<^verbatim>\<open>HandleReschedule\<close>, one statement per step, beside the handlers (\<open>threaded_step\<close>).
  \<^item> \<open>Server_Types\<close>: the classes and type fields of the server's objects in all its runs.
  \<^item> \<open>Tcp_Client\<close>: \<^verbatim>\<open>Socket/ClientSocket.h/.cpp\<close>, in the same way (\<open>ops\<close>, \<open>client_step\<close>).
  \<^item> \<open>Session\<close>: a write of the client composed with the reads of the server it is split into.
  \<^item> \<open>Observers\<close>: \<^verbatim>\<open>ServerSocket.h\<close>, \<^verbatim>\<open>PacketObserver.h\<close>.
  \<^item> \<open>Handshake\<close>, \<open>Udp_Server\<close>: \<^verbatim>\<open>Common/Connection.h\<close>, the UDP client's round and
    \<^verbatim>\<open>UDPServer\<close> of \<^verbatim>\<open>UDP01-ThreadedServer.cpp\<close>, with the system calls that outlive them.
  \<^item> \<open>Udp_Programs\<close>: the loop of the UDP server's thread, and \<^verbatim>\<open>main\<close> of the server and of the client, over
    one record per round with what the operating system answers.
  \<^item> \<open>Network_Utils\<close>: \<^verbatim>\<open>NetworkUtils.cpp\<close>, \<^verbatim>\<open>UDP01.cpp\<close>, \<^verbatim>\<open>udpServer.cpp\<close> over the answers of the system calls.
  \<^item> \<open>Fixed_Strings\<close>, \<open>Common_Types\<close>, \<open>Server_Info\<close>, \<open>Utilities\<close>: \<^verbatim>\<open>FixedLengthString.h/.inl\<close>,
    \<^verbatim>\<open>CommonTypes.h/.cpp\<close>, \<^verbatim>\<open>ServerConstants\<close> and \<^verbatim>\<open>ServerType\<close>, \<^verbatim>\<open>Utils.h/.cpp\<close>.
  \<^item> \<open>Base64\<close>: \<^verbatim>\<open>General/Base64.cpp\<close>; Boost's iterators are the parameters \<open>enc\<close> and \<open>dec\<close>, what Boost
    documents of them the hypotheses \<open>encodes\<close> and \<open>decodes\<close>.
  \<^item> \<open>Logging\<close>: \<^verbatim>\<open>NetworkCommon/server_log.cpp\<close> (Windows) on a file system that is a map.
  \<^item> \<open>Other_Platforms\<close>: the branches for Unix and Mac of \<^verbatim>\<open>server_log.cpp\<close>, \<^verbatim>\<open>NetworkUtils.cpp\<close> and \<^verbatim>\<open>Utils.cpp\<close>
    (\<^verbatim>\<open>kbhit\<close>, \<^verbatim>\<open>getch\<close> on a terminal that is a record).
  \<^item> \<open>Console_Output\<close>: what the servers print, the two wrappers of \<^verbatim>\<open>select\<close>, \<^verbatim>\<open>getLocalIPAddress\<close>, \<^verbatim>\<open>SetValueOnExit\<close>.
  \<^item> \<open>Type_Registry\<close>: \<^verbatim>\<open>General/TypeRegistry.h\<close>, as the overload resolution of the compiler.
  \<^item> \<open>Test_Support\<close>, \<open>Serialization_Tests\<close>, \<open>Rotation_Test\<close>, \<open>Packet_Tests\<close>, \<open>Factory_Tests\<close>, \<open>Pool_Tests\<close>,
    \<open>Stream_Tests\<close>, \<open>Socket_Tests\<close>: the unit tests of \<^verbatim>\<open>UnitTest_BasicNetworking.cpp\<close>. A test method is a program
    over the models above whose result says whether every assertion holds; \<open>owns\<close> describes the
    factory by the objects that a test holds.
  \<^item> \<open>Factory_Demo\<close>: \<^verbatim>\<open>ConsoleApplication1/PacketFactoryTesting.cpp\<close>, an older factory with its \<^verbatim>\<open>main\<close>.
  \<^item> \<open>Sample_Programs\<close>: the \<^verbatim>\<open>BoostASIO\<close> clients and servers and \<^verbatim>\<open>ThreadingTest01\<close>.

  What the lemmas show.
  Round trips of every serialiser, packet and frame; the receive path delivers exactly the whole
  frames of a read and no byte sequence makes it share an object; ownership of the pooled objects;
  the schedule of accepts and reads on the server and of the actors of the client; that the ring is
  a concurrent queue for every interleaving of its threads, and \<^verbatim>\<open>HandleReschedule\<close> is not atomic; the precision of
  the compressed vectors; the resources of the socket functions; that the unit tests pass, whatever
  their uninitialised buffers and the pools' memory hold. Where the code does not do what it
  means to, the property states what it does (the queue that is never written, the repeated
  packets, the buffer overruns, the handshake that is never answered).

  Bounds. Pools have 100 objects (\<open>numToCreate\<close>), receive buffers 512 bytes (\<open>max_length\<close>), send
  buffers 120 bytes, datagrams 1024 bytes (\<open>BufLength\<close>), texts 3071 characters. No definition has
  fuel; the float loops of the tests are partial functions, whose termination on the values that
  occur is proved: the receive loop terminates because a frame has at least three bytes, and the receive loop of the
  UDP server runs over the datagrams that the operating system delivers. The loops of the UDP programs
  and of the samples run over lists of answers; that they have not ended after any list is stated.

  Assumptions. The machine is little-endian, a \<^verbatim>\<open>char\<close> is a byte; each handler is one atomic step
  (of \<^verbatim>\<open>circular_buffer\<close> and \<^verbatim>\<open>HandleReschedule\<close>, each statement);
  uninitialised memory, the answers of the operating system and of Boost.Asio, \<^verbatim>\<open>gmtime\<close> and
  \<^verbatim>\<open>mktime\<close> are arguments.

  Not modelled: banners on the console that nothing depends on, the thread pool, two handlers that run at
  the same time and data races inside a list operation (undefined in C++), reference counts, the choice
  of \<^verbatim>\<open>IsSelfSerializableIn\<close> and \<^verbatim>\<open>GetSize\<close>, which the compiler evaluates, members that are declared and
  nowhere defined, and code in comments (the old client in \<^verbatim>\<open>ClientSocket.cpp\<close>, the demonstrations in
  \<^verbatim>\<open>CircularBuffer.h\<close> and \<^verbatim>\<open>Base64.h\<close>).
\<close>

section \<open>Packets on the wire\<close>

text \<open>C1: A packet that \<^verbatim>\<open>SerializeOut\<close> wrote is read back by \<^verbatim>\<open>SerializeIn\<close> of an object of
  the same class, whatever that object held before, and the reader stops where the writer did.\<close>

theorem packet_roundtrip:
  assumes "class_of q = class_of p" and "packet_SerializeOut buf off p = Some (b, off')"
  shows "packet_SerializeIn b off q = Some (p, off')"
  by (rule s_packet.roundtrip [OF _ assms(2)]) (simp add: assms(1))

lemma packet_roundtrip_witness:
  "\<exists>b. packet_SerializeOut (replicate 30 7) 2 (Packet_Comms (new_ConnectionCommsPacket 513 2)) = Some (b, 11) \<and>
     packet_SerializeIn b 2 (Packet_Comms (new_ConnectionCommsPacket 0 2)) =
       Some (Packet_Comms (new_ConnectionCommsPacket 513 2), 11)"
proof -
  have "class_of (Packet_Comms (new_ConnectionCommsPacket 0 2)) = class_of (Packet_Comms (new_ConnectionCommsPacket 513 2))"
    by simp
  note r = packet_roundtrip [OF this]
  obtain b where "packet_SerializeOut (replicate 30 7) 2 (Packet_Comms (new_ConnectionCommsPacket 513 2)) = Some (b, 11)"
    using packet_writes [of "Packet_Comms (new_ConnectionCommsPacket 513 2)"]
    by (force simp: writes_def wr_def)
  then show ?thesis using r by blast
qed

section \<open>Example states\<close>

lemma factory_started: "\<exists>f. InitFactory junk self_registered = Inr f \<and> pool_inv f []"
  using InitFactory_ok [OF self_registered_ok, of junk] pool_inv_start by blast

text \<open>Every packet can be the content of an object that a client holds.\<close>

lemma pool_example: "\<exists>f a. pool_reach False junk (f, [a]) \<and> heap f ! a = p"
proof -
  obtain f where f: "InitFactory junk self_registered = Inr f" "pool_inv f []"
    using factory_started by blast
  have "held_of f [] (class_key (class_of p)) < numToCreate" by (simp add: held_of_def numToCreate_def)
  with Create_registered [OF f(2), of False "class_of p"] obtain a g where
    g: "Create False (class_Type (class_of p)) (class_SubType (class_of p)) f = Inr (Some a, g)"
      "heap g = heap f" "a < length (heap f)" "class_of (heap f ! a) = class_of p"
    by auto
  have "pool_reach False junk (g, [a])"
    using pool_reach.step [OF pool_reach.start [OF f(1)] pool_step.create [OF g(1), of junk "[]"]] by simp
  moreover have "pool_step False junk (g, [a]) (g\<lparr>heap := (heap g)[a := p]\<rparr>, [a])"
    using g(2,4) by (intro pool_step.modify) simp_all
  ultimately have "pool_reach False junk (g\<lparr>heap := (heap g)[a := p]\<rparr>, [a])"
    by (rule pool_reach.step)
  moreover have "heap (g\<lparr>heap := (heap g)[a := p]\<rparr>) ! a = p" using g(2,3) by simp
  ultimately show ?thesis by blast
qed

lemma held_of_few [simp]: "held_of f [] k = 0" "held_of f [a] k < numToCreate"
  by (simp_all add: held_of_def numToCreate_def)

lemma server_example: "\<exists>s. server_reach False (\<lambda>_. 0) s \<and> length (conns s) = 1 \<and> held_by s = []"
proof -
  obtain f where f: "InitFactory (\<lambda>_. 0) self_registered = Inr f" using factory_started by blast
  have "server_reach False (\<lambda>_. 0)
      (BeginAcceptingNewConnections (replicate max_length 0) (1313, ''0.0.0.0'') (new_server f))"
    by (rule server_reach.start [OF f]) simp
  moreover have "length (conns (BeginAcceptingNewConnections mem ep (new_server f))) = 1"
    "held_by (BeginAcceptingNewConnections mem ep (new_server f)) = []" for mem ep
    by (simp_all add: BeginAcceptingNewConnections_def new_server_def held_by_def queued_def Let_def
        TCPConnection_Create_def)
  ultimately show ?thesis by blast
qed

lemma pool_example_many:
  "length ps \<le> 100 \<Longrightarrow> \<exists>f as. pool_reach False junk (f, as) \<and> map (\<lambda>a. heap f ! a) as = ps"
proof (induction ps)
  case Nil
  then show ?case using factory_started pool_reach.start by fastforce
next
  case (Cons p ps)
  then obtain f as where f: "pool_reach False junk (f, as)" "map (\<lambda>a. heap f ! a) as = ps" by auto
  note inv = pool_reach_inv [OF f(1)]
  have "length as = length ps" using arg_cong [OF f(2), of length] by simp
  then have "held_of f as (class_key (class_of p)) < numToCreate"
    using Cons.prems length_filter_le [of "\<lambda>a. key_of (heap f ! a) = class_key (class_of p)" as]
    by (simp add: held_of_def numToCreate_def)
  then obtain a g where g: "Create False (class_Type (class_of p)) (class_SubType (class_of p)) f = Inr (Some a, g)"
    "heap g = heap f" "a < length (heap f)" "class_of (heap f ! a) = class_of p" "a \<notin> set as"
    using Create_registered [OF inv, of False "class_of p"] by auto
  let ?h = "g\<lparr>heap := (heap g)[a := p]\<rparr>"
  have "pool_reach False junk (g, a # as)"
    using pool_reach.step [OF f(1) pool_step.create [OF g(1), of junk as]] by simp
  moreover have "pool_step False junk (g, a # as) (?h, a # as)"
    using g(2,4) by (intro pool_step.modify) simp_all
  ultimately have "pool_reach False junk (?h, a # as)" by (rule pool_reach.step)
  moreover have "map (\<lambda>b. heap ?h ! b) (a # as) = p # ps"
    using g(2,3,5) by (auto simp: nth_update_if simp flip: f(2))
  ultimately show ?case by (intro exI conjI)
qed

text \<open>A server whose first connection is accepted and reads.\<close>

lemma server_reading_example:
  "\<exists>s. server_reach False (\<lambda>_. 0) s \<and> 0 < length (conns s) \<and> ReadSome 0 \<in> set (pending s) \<and> held_by s = []"
proof -
  obtain f where f: "InitFactory (\<lambda>_. 0) self_registered = Inr f" using factory_started by blast
  let ?mem = "replicate max_length 0 :: bytes" and ?ep = "(1313, ''0.0.0.0'') :: U16 \<times> string"
  let ?s = "BeginAcceptingNewConnections ?mem ?ep (new_server f)"
  let ?t = "NewConnectionAcceptedHandler 0 False ?mem ?ep (complete (Accept 0) ?s)"
  have "server_step False ?s ?t"
    by (rule server_step.accepted) (simp_all add: BeginAcceptingNewConnections_def new_server_def Let_def)
  then have "server_reach False (\<lambda>_. 0) (HandleReschedule ?t)"
    using server_reach.step [OF server_reach.step [OF server_reach.start [OF f]]] server_step.reschedule
    by (metis length_replicate)
  moreover have "0 < length (conns (HandleReschedule ?t)) \<and> ReadSome 0 \<in> set (pending (HandleReschedule ?t)) \<and>
      held_by (HandleReschedule ?t) = []"
    by (simp add: HandleReschedule_eq NewConnectionAcceptedHandler_def BeginAcceptingNewConnections_def
        new_server_def held_by_def queued_def Let_def TCPConnection_Create_def RescheduleMe_def complete_def)
  ultimately show ?thesis by blast
qed

text \<open>C2: A frame that \<^verbatim>\<open>SizePacket::SerializeOut\<close> wrote for a packet some client holds is read
  back by \<^verbatim>\<open>SizePacket::SerializeIn\<close> into another object of the pool, with every field equal; the
  sender's object is untouched and the read ends where the frame ends. It needs a free object of
  the packet's type and a header that names that type.\<close>

theorem frame_roundtrip:
  assumes reach: "pool_reach debug junk (f, held)" and a: "a \<in> set held"
    and wt: "well_typed (heap f ! a)" and free: "held_of f held (key_of (heap f ! a)) < numToCreate"
    and out: "SizePacket_SerializeOut f buf off (Some a) = Inr (b, off')"
  shows "\<exists>c g. SizePacket_SerializeIn debug b off f = Inr (Some c, off', g) \<and>
    heap g ! c = heap f ! a \<and> c \<notin> set held \<and> heap g ! a = heap f ! a"
proof -
  have inv: "pool_inv f held" by (rule pool_reach_inv [OF reach])
  let ?p = "heap f ! a"
  have w: "wr buf off (enc_frame ?p) = Some b" "off' = off + length (enc_frame ?p)"
    using SizePacket_Out_frame [OF pool_inv_held [OF inv a], of buf off] out
    by (cases "wr buf off (enc_frame ?p)"; auto)+
  obtain c g where c: "Create debug (GetType ?p) (GetSubType ?p) f = Inr (Some c, g)" "heap g = heap f"
    "c < length (heap f)" "class_of (heap f ! c) = class_of ?p" "c \<notin> set held"
    using Create_registered [OF inv, of debug "class_of ?p"] free
    by (auto simp: GetType_def GetSubType_def)
  have "SizePacket_SerializeIn debug b off f = Inr (Some c, off', g\<lparr>heap := (heap g)[c := ?p]\<rparr>)"
    using SizePacket_In_frame [OF wr_holds_at [OF w(1)] wt c(1)] c(2,3,4) w(2) by simp
  moreover have "a \<noteq> c" using a c(5) by auto
  ultimately show ?thesis using c(2,3,5) by simp
qed

lemma frame_roundtrip_witness:
  "\<exists>f a b c g. SizePacket_SerializeOut f (replicate 10 0) 0 (Some a) = Inr (b, 10) \<and>
     SizePacket_SerializeIn False b 0 f = Inr (Some c, 10, g) \<and> c \<noteq> a \<and>
     heap g ! c = CreateMethod 0 C_BasePacket"
proof -
  obtain f a where f: "pool_reach False (\<lambda>_. 0) (f, [a])" "heap f ! a = CreateMethod 0 C_BasePacket"
    using pool_example by blast
  have wt: "well_typed (heap f ! a)" unfolding f(2) by (rule new_packets_well_typed)
  have "a < length (heap f)" by (rule pool_inv_held [OF pool_reach_inv [OF f(1)]]) simp
  then obtain b where b: "SizePacket_SerializeOut f (replicate 10 0) 0 (Some a) = Inr (b, 10)"
    using SizePacket_Out_frame [of a f "replicate 10 0" 0] f(2) by (auto simp: wr_def)
  show ?thesis using frame_roundtrip [OF f(1) _ wt held_of_few(2) b] b f(2) by fastforce
qed

section \<open>The TCP server's receive path\<close>

text \<open>C3: In every reachable state of the server, a read that brings a stream of whole frames and a
  part of one more queues exactly the packets of the whole frames, in order, on that connection;
  the rest is dropped. It needs room for every packet in the pools and a frame header inside the
  receive buffer behind the stream.\<close>

theorem stream_delivery:
  assumes reach: "server_reach debug junk s" and c: "c < length (conns s)"
    and wt: "list_all well_typed ps"
    and space: "\<forall>t. held_of (packets s) (held_by s) (class_key t) + count_of t ps \<le> numToCreate"
    and k: "k < length (enc_frame p)"
    and len: "length (enc_stream ps) + 3 \<le> max_length" "length (enc_stream ps) + k \<le> max_length"
  shows "\<exists>s' as. on_read debug c (Some (enc_stream ps @ take k (enc_frame p))) s = Inr s' \<and>
    inwardPackets (conns s' ! c) = inwardPackets (conns s ! c) @ map Some as \<and>
    map (\<lambda>a. heap (packets s') ! a) as = ps"
proof -
  have "pool_inv (packets s) (held_by s)" "length (receiveBuffer (conns s ! c)) = max_length"
    using server_reach_inv [OF reach] own_invD(1) c by (auto simp: ids_inv_def)
  from on_read_delivers [OF this(1) c this(2) wt space k len] show ?thesis by blast
qed

lemma length_enc_stream_replicate: "length (enc_stream (replicate n p)) = n * length (enc_frame p)"
  by (induction n) simp_all

lemma count_of_replicate: "count_of c (replicate n p) = (if class_of p = c then n else 0)"
  by (simp add: count_of_def)

lemma stream_delivery_witness:
  "\<exists>s s' as. server_reach False (\<lambda>_. 0) s \<and>
     on_read False 0 (Some (enc_stream (replicate 20 (CreateMethod 5 C_PositionPacket)) @
       take 12 (enc_frame (CreateMethod 5 C_PositionPacket)))) s = Inr s' \<and>
     map (\<lambda>a. heap (packets s') ! a) as = replicate 20 (CreateMethod 5 C_PositionPacket)"
proof -
  obtain s where s: "server_reach False (\<lambda>_. 0) s" "length (conns s) = 1" "held_by s = []"
    using server_example by blast
  let ?p = "CreateMethod 5 C_PositionPacket"
  have "list_all well_typed (replicate 20 ?p)"
    using new_packets_well_typed [of 5 C_PositionPacket] by (simp add: list_all_iff del: CreateMethod.simps)
  moreover have "\<forall>t. held_of (packets s) (held_by s) (class_key t) + count_of t (replicate 20 ?p) \<le> numToCreate"
    by (simp add: s(3) count_of_replicate numToCreate_def)
  moreover have "length (enc_stream (replicate 20 ?p)) = 480"
    by (simp add: length_enc_stream_replicate)
  ultimately show ?thesis
    using stream_delivery [OF s(1), of 0 "replicate 20 ?p" 12 ?p] s
    by (auto simp: max_length_def simp del: CreateMethod.simps)
qed

text \<open>C4: When the whole frames of a read end less than three bytes before the end of the receive
  buffer, the test for a further frame loads its size field from behind the buffer.\<close>

theorem receive_overrun:
  assumes reach: "server_reach debug junk s" and c: "c < length (conns s)"
    and wt: "list_all well_typed ps"
    and space: "\<forall>t. held_of (packets s) (held_by s) (class_key t) + count_of t ps \<le> numToCreate"
    and len: "max_length < length (enc_stream ps) + 3" "length (enc_stream ps) \<le> max_length"
  shows "on_read debug c (Some (enc_stream ps)) s = Inl OutOfBounds"
proof -
  have "pool_inv (packets s) (held_by s)" "length (receiveBuffer (conns s ! c)) = max_length"
    using server_reach_inv [OF reach] own_invD(1) c by (auto simp: ids_inv_def)
  from on_read_overrun [OF this(1) c this(2) wt space len] show ?thesis .
qed

lemma receive_overrun_witness:
  "\<exists>s. server_reach False (\<lambda>_. 0) s \<and>
     on_read False 0 (Some (enc_stream (replicate 51 (CreateMethod 5 C_BasePacket)))) s = Inl OutOfBounds"
proof -
  obtain s where s: "server_reach False (\<lambda>_. 0) s" "length (conns s) = 1" "held_by s = []"
    using server_example by blast
  let ?p = "CreateMethod 5 C_BasePacket"
  have "list_all well_typed (replicate 51 ?p)"
    using new_packets_well_typed [of 5 C_BasePacket] by (simp add: list_all_iff del: CreateMethod.simps)
  moreover have "\<forall>t. held_of (packets s) (held_by s) (class_key t) + count_of t (replicate 51 ?p) \<le> numToCreate"
    by (simp add: s(3) count_of_replicate numToCreate_def)
  moreover have "length (enc_stream (replicate 51 ?p)) = 510"
    by (simp add: length_enc_stream_replicate)
  ultimately show ?thesis
    using receive_overrun [OF s(1), of 0 "replicate 51 ?p"] s
    by (auto simp: max_length_def simp del: CreateMethod.simps)
qed

text \<open>C5: Whatever bytes arrive, a read that does not fault only appends objects to the queue of its
  connection that no queue held before, each once, and changes no object that is queued already.\<close>

theorem receive_any_bytes:
  assumes reach: "server_reach debug junk s" and c: "c < length (conns s)"
    and on: "on_read debug c (Some bs) s = Inr s'"
  shows "\<exists>as. inwardPackets (conns s' ! c) = inwardPackets (conns s ! c) @ map Some as \<and>
    distinct (as @ held_by s) \<and>
    (\<forall>a\<in>set (held_by s). heap (packets s') ! a = heap (packets s) ! a)"
proof -
  have inv: "pool_inv (packets s) (held_by s)"
    using server_reach_inv [OF reach] own_invD(1) by blast
  obtain buffer inward off f where l: "receive_loop debug buffer (length bs) 0
      (inwardPackets (conns s ! c)) (packets s) = Inr (inward, off, f)"
    and s': "packets s' = f" "inwardPackets (conns s' ! c) = inward"
    using on_read_data [OF on c] c by fastforce
  obtain as where as: "inward = inwardPackets (conns s ! c) @ map Some as"
    "pool_inv f (rev as @ held_by s)" "\<forall>a\<in>set (held_by s). heap f ! a = heap (packets s) ! a"
    using receive_loop_inv [OF l inv] by blast
  have "distinct (as @ held_by s)"
    using pool_inv_distinct [OF as(2)] by (auto simp: distinct_map)
  then show ?thesis using as s' by blast
qed

lemma receive_any_bytes_witness:
  "\<exists>s s' as. server_reach False (\<lambda>_. 0) s \<and> on_read False 0 (Some [1, 2]) s = Inr s' \<and>
     inwardPackets (conns s' ! 0) = inwardPackets (conns s ! 0) @ map Some as"
proof -
  obtain s where s: "server_reach False (\<lambda>_. 0) s" "length (conns s) = 1"
    using server_example by blast
  have "length (receiveBuffer (conns s ! 0)) = 512"
    using server_reach_inv [OF s(1)] s(2) by (auto simp: ids_inv_def max_length_def)
  then have "\<exists>s'. on_read False 0 (Some [1, 2]) s = Inr s'"
    by (simp add: on_read_def Let_def receive_loop.simps IsRemainingBufferBigenough_def
        In_U16_def load_native_def rd_def)
  then show ?thesis using receive_any_bytes [OF s(1), of 0 "[1, 2]"] s by fastforce
qed

section \<open>From the client's queue to the server's\<close>



section \<open>The TCP server's invariants\<close>



text \<open>C8: The connections are numbered from 1024 in the order in which they are made, modulo \<open>2 ^ 16\<close>;
  the first 65536 of them have different identifiers.\<close>

theorem server_ids:
  assumes "server_reach debug junk s"
  shows "(\<forall>i<length (conns s). conn_id (conns s ! i) = of_nat (1024 + i)) \<and>
    (length (conns s) \<le> 2 ^ 16 \<longrightarrow> distinct (map conn_id (conns s)))"
proof -
  have id: "conn_id (conns s ! i) = of_nat (1024 + i)" if "i < length (conns s)" for i
    using server_reach_inv [OF assms] that by (simp add: ids_inv_def)
  have "distinct (map conn_id (conns s))" if "length (conns s) \<le> 2 ^ 16"
    unfolding distinct_conv_nth
  proof (intro allI impI)
    fix i j assume ij: "i < length (map conn_id (conns s))" "j < length (map conn_id (conns s))" "i \<noteq> j"
    then have "(of_nat i :: U16) \<noteq> of_nat j"
      using that by (simp add: word_of_nat_eq_iff take_bit_nat_eq_self)
    then show "map conn_id (conns s) ! i \<noteq> map conn_id (conns s) ! j" using ij id by simp
  qed
  then show ?thesis using id by blast
qed

lemma server_ids_witness:
  "\<exists>s. server_reach False (\<lambda>_. 0) s \<and> conn_id (conns s ! 0) = 1024"
proof -
  obtain s where s: "server_reach False (\<lambda>_. 0) s" "length (conns s) = 1"
    using server_example by blast
  then show ?thesis using server_ids [OF s(1)] by force
qed



text \<open>C10: The dynamic types stay in order although every byte of an object comes from a peer: each object
  keeps the class it was made with, its type fields stay those of its class, a pool only holds objects of
  its type, and the queues of the connections only hold live objects.\<close>

theorem server_types:
  assumes "server_reach debug junk s"
  shows "(\<exists>f. InitFactory junk self_registered = Inr f \<and>
      map class_of (heap (packets s)) = map class_of (heap f)) \<and>
    list_all well_typed (heap (packets s)) \<and>
    (\<forall>k pool. map_find (s_creationPool (packets s)) k = Some pool \<longrightarrow>
      (\<forall>p\<in>set (cb_contents pool). \<exists>a<length (heap (packets s)). p = Some a \<and>
        (GetType (heap (packets s) ! a), GetSubType (heap (packets s) ! a)) = k)) \<and>
    (\<forall>conn\<in>set (conns s). \<forall>p\<in>set (inwardPackets conn). \<exists>a<length (heap (packets s)). p = Some a)"
proof -
  have own: "own_inv s" using server_reach_inv [OF assms] by blast
  note ok = pool_invD(1) [OF own_invD(1) [OF own]]
  have "\<exists>a<length (heap (packets s)). p = Some a"
    if c: "conn \<in> set (conns s)" and p: "p \<in> set (inwardPackets conn)" for conn p
  proof -
    have "None \<notin> set (inwardPackets conn)" using own c by (simp add: own_inv_def)
    then obtain a where a: "p = Some a" using p by (cases p) auto
    then have "a \<in> set (held_by s)" using c p by (force simp: held_by_def queued_def)
    then show ?thesis using pool_inv_held [OF own_invD(1) [OF own]] a by blast
  qed
  moreover have "\<exists>a<length (heap (packets s)). p = Some a \<and>
      (GetType (heap (packets s) ! a), GetSubType (heap (packets s) ! a)) = k"
    if "map_find (s_creationPool (packets s)) k = Some pool" "p \<in> set (cb_contents pool)" for k pool p
    using pool_okD(3) [OF factory_okD(5) [OF ok that(1)] that(2)] .
  ultimately show ?thesis using server_reach_types [OF assms] unfolding types_ok_def classes_def by blast
qed

lemma server_types_witness:
  "\<exists>s a. server_reach False (\<lambda>_. 0) s \<and> inwardPackets (conns s ! 0) = [Some a] \<and>
     class_of (heap (packets s) ! a) = C_MovementPacket \<and> well_typed (heap (packets s) ! a)"
proof -
  obtain s where s: "server_reach False (\<lambda>_. 0) s" "0 < length (conns s)" "ReadSome 0 \<in> set (pending s)" "held_by s = []"
    using server_reading_example by blast
  let ?t = "complete (ReadSome 0) s" and ?p = "CreateMethod 0 C_MovementPacket"
  have inv: "own_inv s" "ids_inv s" using server_reach_inv [OF s(1)] by blast+
  have e: "inwardPackets (conns s ! 0) = []"
    using s(2,4) by (auto simp: held_by_def queued_def)
  have l: "length (enc_stream [?p]) = 32" by (simp add: enc_stream_def enc_list_def)
  have "\<exists>s' as. on_read False 0 (Some (enc_stream [?p] @ take 0 (enc_frame ?p))) ?t = Inr s' \<and>
      inwardPackets (conns s' ! 0) = inwardPackets (conns ?t ! 0) @ map Some as \<and>
      map (\<lambda>a. heap (packets s') ! a) as = [?p] \<and> pool_inv (packets s') (rev as @ []) \<and>
      (\<forall>a\<in>set []. heap (packets s') ! a = heap (packets ?t) ! a)"
    by (rule on_read_delivers)
      (use own_invD(1) [OF inv(1)] s(2,4) inv(2) l in \<open>auto simp: complete_def ids_inv_def new_packets_well_typed
         held_of_def count_of_def numToCreate_def max_length_def simp del: CreateMethod.simps\<close>)
  then obtain s' as where r': "on_read False 0 (Some (enc_stream [?p] @ take 0 (enc_frame ?p))) ?t = Inr s'"
    "inwardPackets (conns s' ! 0) = inwardPackets (conns ?t ! 0) @ map Some as"
    and as: "map (\<lambda>a. heap (packets s') ! a) as = [?p]" by (elim exE conjE) (rule that)
  have s': "on_read False 0 (Some (enc_stream [?p])) ?t = Inr s'" "inwardPackets (conns s' ! 0) = map Some as"
    using r' e by (simp_all only: take_0 append_Nil2, simp add: complete_def)
  from as obtain a where a: "as = [a]" "heap (packets s') ! a = ?p" by (cases as) (auto simp del: CreateMethod.simps)
  have "server_step False s s'"
    by (rule server_step.received [OF s(3) _ s'(1)]) (use l in \<open>simp add: max_length_def\<close>)
  then have r: "server_reach False (\<lambda>_. 0) s'" by (rule server_reach.step [OF s(1)])
  have len: "0 < length (conns s')" using on_read_data [OF s'(1)] s(2) by (auto simp: complete_def)
  then have "a < length (heap (packets s'))"
    using server_types [OF r] s'(2) a(1) nth_mem [OF len] by (metis list.set_intros(1) list.simps(9) option.inject)
  then have "well_typed (heap (packets s') ! a)"
    using server_types [OF r] by (simp add: list_all_length)
  then show ?thesis using r s'(2) a class_of_CreateMethod by auto
qed




text \<open>C12: The server as a whole never receives a packet. Reads are only started by \<^verbatim>\<open>ThreadRun\<close> when its
  \<^verbatim>\<open>run()\<close> has returned, which it does only when the \<^verbatim>\<open>io_service\<close> has been stopped; then no handler runs
  any more, and the destruction of the local \<^verbatim>\<open>signal_set\<close> stops it. Whatever clients do, no object leaves
  the pools, every queue stays empty, and after the stop no client is accepted either.\<close>

theorem server_never_reads:
  assumes "tcp_service_reach debug f v"
  shows "\<exists>s. tcpServer (service_threader v) = Some s \<and> packets s = f \<and>
    (\<forall>conn\<in>set (conns s). inwardPackets conn = []) \<and>
    (\<forall>c. ReadSome c \<in> set (pending s) \<longrightarrow> io_stopped v) \<and>
    (io_stopped v \<longrightarrow> (\<forall>v'. (tcp_service_step debug)\<^sup>*\<^sup>* v v' \<longrightarrow>
       io_stopped v' \<and> (\<exists>s'. tcpServer (service_threader v') = Some s' \<and> conns s' = conns s)))"
proof -
  obtain s where s: "tcpServer (service_threader v) = Some s" "unread f (io_stopped v) s"
    using tcp_service_reach_inv [OF assms] by (auto simp: service_inv_def)
  have "io_stopped v' \<and> (\<exists>s'. tcpServer (service_threader v') = Some s' \<and> conns s' = conns s)"
    if "io_stopped v" "(tcp_service_step debug)\<^sup>*\<^sup>* v v'" for v'
    using stopped_forever [OF that(2,1) s(1)] by blast
  then show ?thesis using s by (auto simp: unread_def)
qed

lemma server_never_reads_witness:
  "\<exists>v s. tcp_service_reach False factory_0 v \<and> tcpServer (service_threader v) = Some s \<and>
     connectionsMade s = [0] \<and> ReadSome 0 \<in> set (pending s) \<and> io_stopped v"
proof -
  let ?mem = "replicate max_length 0 :: bytes" and ?ep = "(1313 :: U16, ''0.0.0.0'')"
  let ?v = "TCPThreader_BeginService ?mem ?ep factory_0 (new_TCPThreader 1313)"
  let ?s = "BeginAcceptingNewConnections ?mem ?ep (new_server factory_0)"
  let ?t = "NewConnectionAcceptedHandler 0 False ?mem ?ep (complete (Accept 0) ?s)"
  let ?w = "service_stop (with_server ?t ?v)"
  have "io_handler False ?s ?t"
    by (rule io_handler.accepted) (simp_all add: BeginAcceptingNewConnections_def new_server_def Let_def)
  then have "tcp_service_step False ?v (with_server ?t ?v)"
    by (intro tcp_service_step.handler) (simp_all add: TCPThreader_BeginService_def BeginService_def)
  moreover have "tcp_service_step False (with_server ?t ?v) ?w"
    by (rule tcp_service_step.wait_handler) (simp_all add: with_server_def TCPThreader_BeginService_def)
  moreover have "tcp_service_step False ?w
      (?w\<lparr>service_threader := snd (ThreadRun_round id (service_threader ?w))\<rparr>)"
    by (rule tcp_service_step.service_round) (simp add: service_stop_def)
  ultimately have r: "tcp_service_reach False factory_0
      (?w\<lparr>service_threader := snd (ThreadRun_round id (service_threader ?w))\<rparr>)" (is "tcp_service_reach _ _ ?x")
    by (blast intro: tcp_service_reach.intros)
  obtain s where s: "tcpServer (service_threader ?x) = Some s"
    using server_never_reads [OF r] by blast
  moreover have "connectionsMade s = [0] \<and> ReadSome 0 \<in> set (pending s)"
    using s by (auto simp: ThreadRun_round_def service_stop_def with_server_def TCPThreader_BeginService_def
        BeginService_def HandleReschedule_eq CleanupClosedConnections_def NewConnectionAcceptedHandler_def
        BeginAcceptingNewConnections_def new_server_def TCPConnection_Create_def RescheduleMe_def complete_def Let_def IsClosed_def)
  moreover have "io_stopped ?x" by (simp add: service_stop_def)
  ultimately show ?thesis using r by blast
qed

text \<open>C13: \<^verbatim>\<open>HandleReschedule\<close> loses connections, for it runs beside the handlers without a lock: when an accept
  completes between the end of its loop and its \<^verbatim>\<open>clear\<close>, the new connection stays in the server's list,
  open, and in no later state of any run is it read or waiting to be read.\<close>

theorem reschedule_race:
  assumes "threaded_reach debug junk (s, Leaving)" and "Accept c \<in> set (pending s)"
  shows "\<exists>y. (threaded_step debug)\<^sup>*\<^sup>* (s, Leaving) y \<and> (\<forall>t pc. (threaded_step debug)\<^sup>*\<^sup>* y (t, pc) \<longrightarrow>
    c \<in> set (connectionsMade t) \<and> \<not> hasClosed (conns t ! c) \<and>
    ReadSome c \<notin> set (pending t) \<and> c \<notin> set (connectionsAwaitingSchedule t))"
proof -
  let ?mem = "replicate max_length 0 :: bytes" and ?ep = "(1313 :: U16, ''0.0.0.0'')"
  let ?t = "NewConnectionAcceptedHandler c False ?mem ?ep (complete (Accept c) s)"
  have "io_handler debug s ?t" by (rule io_handler.accepted [OF assms(2)]) simp
  then have "threaded_step debug (s, Leaving) (?t, Leaving)" by (rule threaded_step.io)
  moreover have "threaded_step debug (?t, Leaving) (resched_stmt ?t Leaving)" by (rule threaded_step.service)
  ultimately have "(threaded_step debug)\<^sup>*\<^sup>* (s, Leaving) (resched_stmt ?t Leaving)"
    by (rule converse_rtranclp_into_rtranclp [OF _ r_into_rtranclp])
  moreover have "forgotten c (fst (resched_stmt ?t Leaving))"
    using threaded_reach_accept [OF assms(1)] gap_forgets assms(2) by simp
  moreover have "c \<in> set (connectionsMade t) \<and> \<not> hasClosed (conns t ! c) \<and>
      ReadSome c \<notin> set (pending t) \<and> c \<notin> set (connectionsAwaitingSchedule t)"
    if "forgotten c (fst y)" "(threaded_step debug)\<^sup>*\<^sup>* y (t, pc)" for y t pc
    using forgotten_steps [OF that(2,1)] by (simp add: forgotten_def)
  ultimately show ?thesis by blast
qed

lemma reschedule_race_witness:
  "\<exists>y. (\<exists>s. threaded_reach False (\<lambda>_. 0) (s, Leaving) \<and> (threaded_step False)\<^sup>*\<^sup>* (s, Leaving) y) \<and>
     (\<forall>t pc. (threaded_step False)\<^sup>*\<^sup>* y (t, pc) \<longrightarrow> 0 \<in> set (connectionsMade t) \<and> ReadSome 0 \<notin> set (pending t))"
proof -
  obtain f where f: "InitFactory (\<lambda>_. 0) self_registered = Inr f" using factory_started by blast
  let ?s = "BeginAcceptingNewConnections (replicate max_length 0) (1313, ''0.0.0.0'') (new_server f)"
  have "threaded_reach False (\<lambda>_. 0) (?s, Resting)" by (rule threaded_reach.begun [OF f]) simp
  then have "threaded_reach False (\<lambda>_. 0) (?s, At 0)"
    using threaded_reach.step threaded_step.service [of False ?s Resting] by fastforce
  moreover have "connectionsAwaitingSchedule ?s = []" "Accept 0 \<in> set (pending ?s)"
    by (simp_all add: BeginAcceptingNewConnections_def new_server_def Let_def)
  ultimately have "threaded_reach False (\<lambda>_. 0) (?s, Leaving)"
    using threaded_reach.step threaded_step.service [of False ?s "At 0"] by fastforce
  then show ?thesis
    using reschedule_race [of False "\<lambda>_. 0" ?s 0] \<open>Accept 0 \<in> set (pending ?s)\<close> by fastforce
qed

section \<open>The packet factory\<close>

text \<open>C14: After the static registrations, \<^verbatim>\<open>InitFactory\<close> succeeds and leaves, for each of the four
  packet classes, a pool of exactly 100 different objects of that class.\<close>

theorem InitFactory_pools:
  "\<exists>f. InitFactory junk self_registered = Inr f \<and>
    (\<forall>c. \<exists>pool a. map_find (s_creationPool f) (class_Type c, class_SubType c) = Some pool \<and>
       cb_contents pool = map Some [a..<a + 100] \<and> (\<forall>i<100. class_of (heap f ! (a + i)) = c))"
proof -
  obtain f where f: "InitFactory junk self_registered = Inr f"
    "\<And>c. fresh_pool f (class_key c) c"
    using InitFactory_ok [OF self_registered_ok, of junk] self_registered_find by metis
  then show ?thesis unfolding fresh_pool_def numToCreate_def by fastforce
qed

lemma InitFactory_pools_witness:
  "\<exists>f pool. InitFactory (\<lambda>_. 0) self_registered = Inr f \<and> map_find (s_creationPool f) (2, 2) = Some pool \<and>
     length (cb_contents pool) = 100"
proof -
  have k: "class_Type C_MovementPacket = 2" "class_SubType C_MovementPacket = 2"
    by (simp_all add: packet_type_code_def ServerTick_Movement_def packet_type_value_def all_packet_types_def)
  obtain f where f: "InitFactory (\<lambda>_. 0) self_registered = Inr f"
    "\<forall>c. \<exists>pool a. map_find (s_creationPool f) (class_Type c, class_SubType c) = Some pool \<and>
       cb_contents pool = map Some [a..<a + 100] \<and> (\<forall>i<100. class_of (heap f ! (a + i)) = c)"
    using InitFactory_pools [of "\<lambda>_. 0"] by blast
  obtain pool a where "map_find (s_creationPool f) (class_Type C_MovementPacket, class_SubType C_MovementPacket) = Some pool"
    "cb_contents pool = map Some [a..<a + 100]"
    using f(2) by blast
  then show ?thesis using f(1) unfolding k by fastforce
qed



text \<open>\<^verbatim>\<open>Create\<close> of a registered type returns an object of that class that no client holds while
  clients hold fewer than 100 of them, and the null pointer from then on.\<close>

lemma Create_until_exhausted:
  assumes "pool_reach debug junk (f, held)"
  shows "\<exists>ptr g. Create debug (class_Type c) (class_SubType c) f = Inr (ptr, g) \<and>
    (if held_of f held (class_key c) < 100
     then \<exists>a. ptr = Some a \<and> a < length (heap f) \<and> class_of (heap f ! a) = c \<and> a \<notin> set held
     else ptr = None)"
  using Create_registered [OF pool_reach_inv [OF assms], of debug c]
  by (fastforce simp: numToCreate_def)

lemma Create_until_exhausted_witness:
  "\<exists>f a b g. pool_reach False (\<lambda>_. 0) (f, [a]) \<and> Create False 2 2 f = Inr (Some b, g) \<and> b \<noteq> a"
proof -
  obtain f a where f: "pool_reach False (\<lambda>_. 0) (f, [a])" using pool_example by blast
  have "held_of f [a] k < 100" for k using held_of_few(2) by (simp add: numToCreate_def)
  moreover have "class_Type C_MovementPacket = 2" "class_SubType C_MovementPacket = 2"
    by (simp_all add: packet_type_code_def ServerTick_Movement_def packet_type_value_def all_packet_types_def)
  ultimately show ?thesis using Create_until_exhausted [OF f, of C_MovementPacket] f
    by (auto simp del: class_Type.simps class_SubType.simps)
qed

text \<open>C16: \<^verbatim>\<open>Release\<close> of an object that a client holds succeeds, nulls the client's pointer, and puts
  the object at the end of the pool of its type without displacing one of the pool's objects.\<close>

theorem Release_returns:
  assumes reach: "pool_reach debug junk (f, held)" and a: "a \<in> set held"
  shows "\<exists>g pool pool'. Release (Some a) f = Inr (True, None, g) \<and>
    map_find (s_creationPool f) (key_of (heap f ! a)) = Some pool \<and>
    map_find (s_creationPool g) (key_of (heap f ! a)) = Some pool' \<and>
    cb_contents pool' = cb_contents pool @ [Some a]"
proof -
  note inv = pool_reach_inv [OF reach]
  let ?c = "class_of (heap f ! a)"
  obtain pool where pool: "map_find (s_creationPool f) (class_key ?c) = Some pool"
    "held_of f held (class_key ?c) + cb_size pool = numToCreate"
    using pool_invD(4) [OF inv] by blast
  have "0 < held_of f held (class_key ?c)"
    using a by (auto simp: held_of_def key_of_class length_greater_0_conv filter_empty_conv)
  then have room: "length (cb_contents pool) < numToCreate" using pool(2) by simp
  have key: "key_of (heap f ! a) = class_key ?c" by (rule key_of_class)
  show ?thesis
    using Release_pool [OF pool_invD(1) [OF inv] pool_inv_held [OF inv a], of pool] pool(1) room
      stdm.look_store [of "s_creationPool f"] pool_invD(1) [OF inv]
    unfolding key by (fastforce simp: push_bounded_def)
qed

lemma Release_returns_witness:
  "\<exists>f a g. pool_reach False (\<lambda>_. 0) (f, [a]) \<and> Release (Some a) f = Inr (True, None, g)"
proof -
  obtain f a where f: "pool_reach False (\<lambda>_. 0) (f, [a])" using pool_example by blast
  then show ?thesis using Release_returns [OF f, of a] by auto
qed



section \<open>The TCP client\<close>

text \<open>C18: In every reachable state of the client that is not stopped exactly one connect or read is
  in progress and exactly one deadline wait; once connected it is the read; a stopped client is
  neither connected nor has an open socket; a connect in progress is for one of the endpoints.\<close>

theorem client_actors:
  assumes "client_reach f s"
  shows "(\<not> stopped s \<longrightarrow> length (filter is_session (ops s)) = 1 \<and>
      length (filter (\<lambda>p. p = DeadlineWait) (ops s)) = 1) \<and>
    (client_connected s \<longrightarrow> filter is_session (ops s) = [ReadUntil]) \<and>
    (stopped s \<longrightarrow> \<not> client_connected s \<and> \<not> socket_open s) \<and>
    (\<forall>i. Connect i \<in> set (ops s) \<longrightarrow> i < length (endpoints s))"
  using client_reach_inv [OF assms] unfolding client_inv_def sessions_def deadlines_def by auto

lemma client_actors_witness:
  "client_reach factory_0 (start 5 [''127.0.0.1''] (new_TCPClient factory_0)) \<and>
   length (filter is_session (ops (start 5 [''127.0.0.1''] (new_TCPClient factory_0)))) = 1"
proof -
  let ?s = "start 5 [''127.0.0.1''] (new_TCPClient factory_0)"
  have "client_reach factory_0 ?s" by (rule client_reach.begun)
  moreover have "\<not> stopped ?s"
    by (simp add: start_def start_connect_def new_TCPClient_def async_def Let_def)
  ultimately show ?thesis using client_actors by blast
qed

text \<open>C19: A client that connects while its queue is empty never writes: in no later state is a write
  in progress, and what the user queues stays in the queue for ever.\<close>

theorem connect_empty_never_writes:
  assumes reach: "client_reach f s" and i: "Connect i \<in> set (ops s)" and e: "packetOutDeque s = []"
    and w: "\<forall>p\<in>set (ops s). p \<noteq> HeartbeatWait \<and> (\<forall>bs. p \<noteq> AsyncWrite bs)"
    and o: "\<not> stopped s" "socket_open s"
  shows "\<exists>s'. handle_connect now mem False i (finish (Connect i) s) = Inr s' \<and> client_connected s' \<and>
    (\<forall>t. client_step\<^sup>*\<^sup>* s' t \<longrightarrow> (\<forall>bs. AsyncWrite bs \<notin> set (ops t)) \<and>
      (\<forall>u. client_step\<^sup>*\<^sup>* t u \<longrightarrow> (\<exists>new. packetOutDeque u = packetOutDeque t @ new)))"
proof -
  obtain s' where s': "handle_connect now mem False i (finish (Connect i) s) = Inr s'" "mute s'"
    "client_connected s'"
    using connect_empty_mute [OF client_reach_inv [OF reach] i e w o] by blast
  have "(\<forall>bs. AsyncWrite bs \<notin> set (ops t)) \<and>
      (\<forall>u. client_step\<^sup>*\<^sup>* t u \<longrightarrow> (\<exists>new. packetOutDeque u = packetOutDeque t @ new))"
    if "client_step\<^sup>*\<^sup>* s' t" for t
  proof -
    have "mute t" using mute_forever [OF that s'(2)] by blast
    then show ?thesis using mute_forever by (auto simp: mute_def)
  qed
  then show ?thesis using s'(1,3) by blast
qed

lemma connect_empty_never_writes_witness:
  "\<exists>s'. handle_connect 7 (replicate 120 0) False 0
      (finish (Connect 0) (start 5 [''127.0.0.1''] (new_TCPClient factory_0))) = Inr s' \<and>
    client_connected s' \<and> (\<forall>t. client_step\<^sup>*\<^sup>* s' t \<longrightarrow> (\<forall>bs. AsyncWrite bs \<notin> set (ops t)))"
proof -
  let ?s = "start 5 [''127.0.0.1''] (new_TCPClient factory_0)"
  have "Connect 0 \<in> set (ops ?s)" "packetOutDeque ?s = []" "\<not> stopped ?s" "socket_open ?s"
    "\<forall>p\<in>set (ops ?s). p \<noteq> HeartbeatWait \<and> (\<forall>bs. p \<noteq> AsyncWrite bs)"
    by (simp_all add: start_def start_connect_def new_TCPClient_def async_def Let_def)
  from connect_empty_never_writes [OF client_reach.begun this(1,2,5,3,4)] show ?thesis by blast
qed

lemma client_queue_example:
  "\<exists>(s :: tcp_client) a. pool_reach False (\<lambda>_. 0) (client_packets s, [a]) \<and> packetOutDeque s = [Some a] \<and> \<not> stopped s \<and>
     heap (client_packets s) ! a = p"
proof -
  obtain f a where f: "pool_reach False (\<lambda>_. 0) (f, [a])" "heap f ! a = p" using pool_example by blast
  then show ?thesis
    by (intro exI [of _ "Client_Write (Some a) (new_TCPClient f)"] exI [of _ a])
      (simp add: Client_Write_def new_TCPClient_def)
qed

text \<open>C20: When the queued packets need more than 120 bytes, \<^verbatim>\<open>start_write\<close> writes behind the end of
  its buffer; four movement packets are enough.\<close>

theorem start_write_overflow:
  assumes reach: "pool_reach debug junk (client_packets s, owned)" and own: "mset owned = mset (as @ held)"
    and q: "packetOutDeque s = map Some as" and o: "\<not> stopped s" and mem: "length mem = 120"
    and big: "120 < length (enc_stream (map (\<lambda>a. heap (client_packets s) ! a) as))"
  shows "start_write mem s = Inl OutOfBounds"
proof -
  have inv: "pool_inv (client_packets s) (as @ held)"
    by (rule pool_inv_mset [OF pool_reach_inv [OF reach]]) (simp add: own)
  show ?thesis using write_loop_overflow [OF inv mem, of 0 "[]"] big
    by (simp add: start_write_def q o)
qed

text \<open>Clients can hold any packets at once, up to 100.\<close>

lemma start_write_overflow_witness:
  "\<exists>s :: tcp_client. map (\<lambda>q. class_of (heap (client_packets s) ! the q)) (packetOutDeque s) =
      replicate 4 C_MovementPacket \<and> start_write (replicate 120 0) s = Inl OutOfBounds"
proof -
  let ?ps = "replicate 4 (CreateMethod 0 C_MovementPacket)"
  obtain f as where f: "pool_reach False (\<lambda>_. 0) (f, as)" "map (\<lambda>a. heap f ! a) as = ?ps"
    using pool_example_many [of ?ps "\<lambda>_. 0"] by (auto simp del: CreateMethod.simps)
  let ?s = "(new_TCPClient f)\<lparr>packetOutDeque := map Some as\<rparr>"
  have s: "client_packets ?s = f" "packetOutDeque ?s = map Some as" "\<not> stopped ?s"
    by (simp_all add: new_TCPClient_def)
  have "length (enc_stream ?ps) = 128" by (simp add: length_enc_stream_replicate)
  then have "start_write (replicate 120 0) ?s = Inl OutOfBounds"
    using start_write_overflow [of False "\<lambda>_. 0" ?s as as "[]"] f s by simp
  moreover have "map (\<lambda>q. class_of (heap (client_packets ?s) ! the q)) (packetOutDeque ?s) =
      map class_of (map (\<lambda>a. heap f ! a) as)" by (simp add: s)
  then have "map (\<lambda>q. class_of (heap (client_packets ?s) ! the q)) (packetOutDeque ?s) =
      replicate 4 C_MovementPacket"
    by (simp only: f(2) map_replicate class_of_CreateMethod)
  ultimately show ?thesis by blast
qed

section \<open>The ring buffer\<close>

text \<open>C21: A ring refines a queue bounded to its capacity: after any puts into a new ring its contents
  are the last \<open>n\<close> elements in order, and taking them out returns them first-in first-out.\<close>

theorem ring_keeps_last:
  assumes "0 < n"
  shows "\<exists>cb cb'. put_all cb_put (cb_new t0 n) xs = Some cb \<and>
    cb_size cb = min n (length xs) \<and>
    get_many (cb_get t0 moved) (cb_size cb) cb = (drop (length xs - n) xs, cb') \<and> cb_empty cb'"
proof -
  obtain cb where cb: "put_all cb_put (cb_new t0 n) xs = Some cb" "cb_invar cb"
    "cb_contents cb = drop (length xs - n) xs"
    using ring.put_all_last [OF cb_new_invar [OF assms], of t0 xs] by (auto simp: cb_new_contents)
  have size: "cb_size cb = length (drop (length xs - n) xs)"
    using arg_cong [OF cb(3), of length] by simp
  obtain cb' where "get_many (cb_get t0 moved) (cb_size cb) cb = (cb_contents cb, cb')"
    "cb_invar cb'" "cb_contents cb' = []"
    using ring.get_many_fifo [OF cb(2), of "cb_size cb"] by fastforce
  moreover have "cb_empty cb'"
    using calculation(2,3) cb_size_0_iff length_cb_contents by (metis list.size(3))
  ultimately show ?thesis using cb size by (auto simp: min_def)
qed

lemma ring_keeps_last_witness:
  "\<exists>cb cb'. put_all cb_put (cb_new 0 3) [1, 2, 3, 4, 5 :: nat] = Some cb \<and>
     get_many (cb_get 0 0) (cb_size cb) cb = ([3, 4, 5], cb')"
  using ring_keeps_last [of 3 0 "[1, 2, 3, 4, 5 :: nat]" 0] by auto

text \<open>\<^verbatim>\<open>get\<close> of an empty ring returns the default value and leaves the ring empty, however often
  it is called, also after \<^verbatim>\<open>reset\<close> of a ring with contents.\<close>

lemma ring_exhausted:
  assumes "0 < n" and "put_all cb_put (cb_new t0 n) xs = Some cb"
  shows "get_many (cb_get t0 moved) k (cb_reset cb) = (replicate k t0, cb_reset cb) \<and>
    cb_size (cb_reset cb) = 0"
proof -
  have inv: "cb_invar cb"
    using ring.put_all_last [OF cb_new_invar [OF assms(1)], of t0 xs] assms(2) by auto
  show ?thesis
    using ring.get_many_exhausted [OF cb_reset_invar [OF inv] cb_reset_contents, of t0 moved k]
      arg_cong [OF cb_reset_contents [of cb], of length] by simp
qed

lemma ring_exhausted_witness:
  "\<exists>cb. put_all cb_put (cb_new 0 3) [1, 2, 3, 4 :: nat] = Some cb \<and>
     get_many (cb_get 0 0) 2 (cb_reset cb) = ([0, 0], cb_reset cb)"
proof -
  obtain cb where cb: "put_all cb_put (cb_new 0 3) [1, 2, 3, 4 :: nat] = Some cb"
    using ring.put_all_last [OF cb_new_invar, of 3 0 "[1, 2, 3, 4 :: nat]"] by auto
  then show ?thesis using ring_exhausted [OF _ cb, of 0 2] by (auto simp: numeral_2_eq_2)
qed

text \<open>C22: The mutex makes the ring a concurrent queue. Whatever calls the threads make and however their
  statements interleave, at most one thread is inside a call, some thread can always go on, and the
  results of the finished calls are those of a bounded queue on which they run one after the other, in
  the order in which they release the mutex; whenever it is free the ring holds what that queue holds.
  Threads that only take elements get the elements of the ring in order, each to one of them, and then
  default values.\<close>

theorem ring_linearizable:
  assumes "cb_invar cb" and "ring_reach t0 moved cb s"
  shows "(\<forall>t u. running s t \<noteq> None \<and> running s u \<noteq> None \<longrightarrow> t = u) \<and> (\<exists>s'. ring_step t0 moved s s') \<and>
    (\<exists>xs. queue_history t0 (cb_max_size cb) (cb_contents cb) (returned s) = Some xs \<and>
      (mutex s = None \<longrightarrow> cb_contents (shared s) = xs)) \<and>
    ((\<forall>(call, res)\<in>set (returned s). call = Get_call) \<longrightarrow> map snd (returned s) =
      map Some (take (length (returned s)) (cb_contents cb) @ replicate (length (returned s) - cb_size cb) t0))"
proof -
  obtain q where q: "ring_inv t0 moved cb s q" using ring_reach_inv [OF assms(2,1)] by blast
  then have h: "queue_history t0 (cb_max_size cb) (cb_contents cb) (returned s) = Some (cb_contents q)"
    and ex: "\<forall>t. running s t \<noteq> None \<longrightarrow> mutex s = Some t"
    unfolding ring_inv_def by blast+
  have m: "shared s = q" if "mutex s = None" using q that by (simp add: ring_inv_def)
  have one: "\<forall>t u. running s t \<noteq> None \<and> running s u \<noteq> None \<longrightarrow> t = u"
  proof (intro allI impI)
    fix t u assume "running s t \<noteq> None \<and> running s u \<noteq> None"
    then show "t = u" using ex [rule_format, of t] ex [rule_format, of u] by simp
  qed
  have held: "\<exists>xs. queue_history t0 (cb_max_size cb) (cb_contents cb) (returned s) = Some xs \<and>
      (mutex s = None \<longrightarrow> cb_contents (shared s) = xs)"
    using h m by simp
  have gets: "(\<forall>(call, res)\<in>set (returned s). call = Get_call) \<longrightarrow> map snd (returned s) =
      map Some (take (length (returned s)) (cb_contents cb) @ replicate (length (returned s) - cb_size cb) t0)"
    using queue_history_gets [OF h] by simp
  show ?thesis by (rule conjI [OF one conjI [OF ring_inv_progress [OF q] conjI [OF held gets]]])
qed

lemma ring_linearizable_witness:
  "\<exists>s. ring_reach (0 :: nat) 0 (cb_new 0 2) s \<and> returned s = [(Get_call, Some 0)] \<and>
     queue_history 0 2 [] (returned s) = Some [] \<and> mutex s = Some 1"
proof -
  let ?cb = "cb_new 0 2 :: nat circular_buffer"
  let ?s = "ring_share ?cb"
  let ?s1 = "?s\<lparr>mutex := Some 0, running := (running ?s)(0 \<mapsto> (Get_call, lock_guard Get_call))\<rparr>"
  let ?s2 = "?s1\<lparr>shared := ?cb, running := (running ?s1)(0 \<mapsto> (Get_call, Get_done 0))\<rparr>"
  let ?s3 = "?s2\<lparr>mutex := None, running := (running ?s2)(0 := None), returned := returned ?s2 @ [(Get_call, Some 0)]\<rparr>"
  let ?s4 = "?s3\<lparr>mutex := Some 1, running := (running ?s3)(1 \<mapsto> (Put_call 7, lock_guard (Put_call 7)))\<rparr>"
  have "ring_step 0 0 ?s ?s1" by (rule ring_step.lock) (simp_all add: ring_share_def)
  with ring_reach.begun have "ring_reach 0 0 ?cb ?s1" by (rule ring_reach.step)
  moreover have "ring_step 0 0 ?s1 ?s2"
    by (rule ring_step.stmt [where pc = Get_locked]) (simp_all add: ring_share_def cb_new_def cb_empty_def)
  ultimately have "ring_reach 0 0 ?cb ?s2" by (rule ring_reach.step)
  moreover have "ring_step 0 0 ?s2 ?s3"
    by (rule ring_step.unlock [where pc = "Get_done 0"]) (simp_all add: ring_share_def)
  ultimately have "ring_reach 0 0 ?cb ?s3" by (rule ring_reach.step)
  moreover have "ring_step 0 0 ?s3 ?s4" by (rule ring_step.lock) (simp_all add: ring_share_def)
  ultimately have r: "ring_reach 0 0 ?cb ?s4" by (rule ring_reach.step)
  have "returned ?s4 = [(Get_call, Some 0)]" "mutex ?s4 = Some 1" by (simp_all add: ring_share_def)
  moreover obtain xs where "queue_history 0 2 [] (returned ?s4) = Some xs"
    using ring_linearizable [OF cb_new_invar r] by (auto simp: cb_new_contents)
  ultimately show ?thesis using r by auto
qed

text \<open>C23: \<^verbatim>\<open>empty\<close> and \<^verbatim>\<open>size\<close> take no lock and can be wrong by the whole capacity: while a thread puts the
  last element that fits, another one can find the ring empty and its size 0, although no call has taken
  anything from it and when the call returns it is full.\<close>

theorem ring_unlocked_size:
  assumes "cb_invar cb" and "ring_reach t0 moved cb s" and "mutex s = None"
    and "Suc (cb_size (shared s)) = cb_max_size (shared s)"
  shows "\<exists>s1 s2. ring_reach t0 moved cb s1 \<and> (ring_step t0 moved)\<^sup>*\<^sup>* s s1 \<and> (ring_step t0 moved)\<^sup>*\<^sup>* s1 s2 \<and>
    returned s1 = returned s \<and> cb_empty (shared s1) \<and> cb_size (shared s1) = 0 \<and>
    mutex s2 = None \<and> returned s2 = returned s @ [(Put_call item, None)] \<and>
    cb_contents (shared s2) = cb_contents (shared s) @ [item] \<and> cb_is_full (shared s2)"
proof -
  obtain q where q: "ring_inv t0 moved cb s q" using ring_reach_inv [OF assms(2,1)] by blast
  then have sh: "shared s = q" "cb_invar q" "cb_max_size q = cb_max_size cb"
    "queue_history t0 (cb_max_size cb) (cb_contents cb) (returned s) = Some (cb_contents q)"
    using assms(3) by (auto simp: ring_inv_def)
  have idle: "running s 0 = None" using q assms(3) by (cases "running s 0") (auto simp: ring_inv_def)
  obtain s1 where s1: "(ring_step t0 moved)\<^sup>*\<^sup>* s s1" "running s1 0 = Some (Put_call item, Put_advanced)"
    "returned s1 = returned s" "cb_empty (shared s1)" "cb_size (shared s1) = 0"
    using put_passes_empty [OF _ assms(3) idle assms(4)] sh by metis
  obtain s2 where s2: "(ring_step t0 moved)\<^sup>*\<^sup>* s1 s2" "mutex s2 = None"
    "returned s2 = returned s1 @ [(Put_call item, None)]"
    using put_advanced_ends [OF s1(2)] by blast
  have r1: "ring_reach t0 moved cb s1" using ring_reach_steps [OF s1(1) assms(2)] .
  obtain q2 where q2: "ring_inv t0 moved cb s2 q2"
    using ring_reach_inv [OF ring_reach_steps [OF s2(1) r1] assms(1)] by blast
  then have sh2: "shared s2 = q2" "cb_invar q2" "cb_max_size q2 = cb_max_size cb"
    "queue_history t0 (cb_max_size cb) (cb_contents cb) (returned s2) = Some (cb_contents q2)"
    using s2(2) by (auto simp: ring_inv_def)
  have c: "cb_contents (shared s2) = cb_contents (shared s) @ [item]"
    using sh2(4) sh assms(4) by (simp add: s2(3) s1(3) queue_history_append push_bounded_def sh2(1))
  have "cb_size (shared s2) = cb_max_size (shared s2)"
    using arg_cong [OF c, of length] assms(4) sh sh2 by simp
  then have "cb_is_full (shared s2)" using cb_full_iff [of "shared s2"] sh2 by (simp add: cb_is_full_def)
  then show ?thesis using r1 s1 s2 c by metis
qed

lemma ring_unlocked_size_witness:
  "\<exists>s1. ring_reach (0 :: nat) 0 (cb_new 0 1) s1 \<and> cb_empty (shared s1) \<and>
     (\<exists>s2. (ring_step 0 0)\<^sup>*\<^sup>* s1 s2 \<and> cb_contents (shared s2) = [7])"
proof -
  let ?cb = "cb_new 0 1 :: nat circular_buffer"
  have "cb_size ?cb = 0" by (simp add: cb_new_def cb_size_def)
  then have "Suc (cb_size (shared (ring_share ?cb))) = cb_max_size (shared (ring_share ?cb))"
    and "cb_contents (shared (ring_share ?cb)) = []" and "mutex (ring_share ?cb) = None"
    by (simp_all add: ring_share_def cb_new_contents)
  then show ?thesis
    using ring_unlocked_size [OF cb_new_invar [of 1 "0 :: nat"] ring_reach.begun, where moved = 0 and ?t0.0 = 0 and item = 7]
    by (metis append_Nil less_one)
qed

section \<open>Serialisation of values\<close>

text \<open>C24: The 64-bit byte swap of \<^verbatim>\<open>Serialize.cpp\<close>, built from two 32-bit swaps and an exchange of the
  halves, is the reversal of the eight bytes, and it is its own inverse.\<close>

theorem htonll_reverses:
  "le_bytes (htonll v) = rev (le_bytes v) \<and> ntohll (htonll v) = v"
  by (simp add: htonll_byte_swap le_bytes_byte_swap be_bytes_def ntohll_def byte_swap_byte_swap)

text \<open>A 64-bit number that is written fits or fails as a whole: it needs eight bytes, stands there
  with its most significant byte first, is read back from there, and no other byte changes.\<close>

lemma U64_on_the_wire:
  assumes "off + 8 \<le> length buf"
  shows "\<exists>b. Out_U64 buf off v = Some (b, off + 8) \<and> In_U64 b off = Some (v, off + 8) \<and>
    take 8 (drop off b) = rev (le_bytes v) \<and> length b = length buf \<and>
    (\<forall>i<length buf. i < off \<or> off + 8 \<le> i \<longrightarrow> b ! i = buf ! i)"
proof -
  obtain b o' where b: "Out_U64 buf off v = Some (b, o')"
    using s_U64.outp_bounds [of buf off v] assms by (cases "Out_U64 buf off v") auto
  have o': "o' = off + 8" by (rule s_U64.outp_advance [OF b])
  have "wr buf off (be_bytes v) = Some b" using s_U64.outp_SomeD [OF b] by blast
  from wr_holds_at [OF this] have "take 8 (drop off b) = rev (le_bytes v)"
    by (auto simp: holds_at_def rd_def be_bytes_def split: if_splits)
  then show ?thesis
    using b s_U64.roundtrip [OF TrueI b] s_U64.outp_length [OF b] s_U64.outp_frame [OF b]
    unfolding o' by blast
qed

lemma U64_on_the_wire_witness:
  "\<exists>b. Out_U64 (replicate 10 9) 1 0x0102030405060708 = Some (b, 9) \<and> take 8 (drop 1 b) = [1, 2, 3, 4, 5, 6, 7, 8]"
proof -
  have "rev (le_bytes (0x0102030405060708 :: U64)) = [1, 2, 3, 4, 5, 6, 7, 8]" by code_simp
  then show ?thesis using U64_on_the_wire [of 1 "replicate 10 9" "0x0102030405060708"] by auto
qed

text \<open>C25: A sequence of texts that \<^verbatim>\<open>Serialize::Out\<close> wrote is read back by as many reads, provided no
  text has a zero byte or is longer than 3071 bytes.\<close>

theorem strings_roundtrip:
  assumes "\<forall>s\<in>set ss. 0 \<notin> set s \<and> length s < 3072" and "off \<le> length buf"
    and "Out_array Out_string buf off ss = Some (b, off')"
  shows "In_array In_string (length ss) b off = Some (ss, off')"
  using s_string.array_roundtrip [OF _ assms(2,3)] assms(1)
  by (auto simp: list_all_iff string_ok_def MaxString_def)

lemma strings_roundtrip_witness:
  "\<exists>b. Out_array Out_string (replicate 12 7) 0 [[72, 105], [], [33]] = Some (b, 9) \<and>
     In_array In_string (length [[72, 105], [], [33 :: U8]]) b 0 = Some ([[72, 105], [], [33]], 9)"
proof -
  obtain b where "Out_array Out_string (replicate 12 7) 0 [[72, 105], [], [33]] = Some (b, 9)"
    using s_string.Out_array_enc [of "replicate 12 7" 0 "[[72, 105], [], [33]]"]
    by (auto simp: wr_def enc_list_def enc_string_def)
  moreover from this have "In_array In_string (length [[72, 105], [], [33 :: U8]]) b 0 =
      Some ([[72, 105], [], [33]], 9)"
    by (intro strings_roundtrip) simp_all
  ultimately show ?thesis by blast
qed

text \<open>A text whose declared length is 3072 or more is cut to at most 3071 bytes and the reader stops
  there, in the middle of the text, so what follows is read from the wrong place.\<close>

lemma long_string_desynchronises:
  assumes "In_U16 buf off = Some (len, o')" and "3072 \<le> unat len" and "off + 3073 \<le> length buf"
  shows "\<exists>v. In_string buf off = Some (v, off + 3073) \<and> length v \<le> 3071"
proof -
  have o': "o' = off + 2" by (rule s_U16.inp_advance [OF assms(1)])
  have "len \<noteq> 0" using assms(2) by auto
  moreover have "length (takeWhile P (take 3071 cs)) \<le> 3071" for P and cs :: bytes
    by (rule order_trans [OF length_takeWhile_le]) simp
  ultimately show ?thesis using assms
    by (simp add: In_string_def o' MaxString_def rd_def Let_def)
qed

lemma long_string_desynchronises_witness:
  "\<exists>v. In_string (be_bytes (4000 :: U16) @ replicate 4000 65) 0 = Some (v, 3073) \<and> length v \<le> 3071"
proof -
  have "In_U16 (be_bytes (4000 :: U16) @ replicate 4000 65) 0 = Some (4000, 2)"
    using s_U16.inp_enc [of "be_bytes (4000 :: U16) @ replicate 4000 65" 0 4000]
    by (simp add: holds_at_def rd_def)
  from long_string_desynchronises [OF this] show ?thesis by simp
qed

section \<open>Compressed vectors\<close>

text \<open>Unpacking and packing a rotation are inverse to each other in both directions: every 32-bit
  value is the packing of what it unpacks to, and three 10-bit fields survive being packed.\<close>

lemma Rotation_pack_unpack:
  "(case Rotation_Unpack v of (x, y, z) \<Rightarrow> Rotation_Pack x y z) = v \<and>
   (x < 1024 \<and> y < 1024 \<and> z < 1024 \<longrightarrow> Rotation_Unpack (Rotation_Pack x y z) = (x, y, z))"
  using Rotation_Pack_Unpack [of v] Rotation_Unpack_Pack [of x y z] by (auto split: prod.split)

lemma Rotation_pack_unpack_witness:
  "(case Rotation_Unpack 0xFFFFFFFF of (x, y, z) \<Rightarrow> Rotation_Pack x y z) = 0xFFFFFFFF \<and>
   Rotation_Unpack (Rotation_Pack 1023 0 512) = (1023, 0, 512)"
  using Rotation_pack_unpack [of "0xFFFFFFFF" 1023 0 512] by simp

text \<open>C26: Three angles in \<open>[0, 360)\<close>, given as floats, are read back as angles of \<open>[0, 360)\<close> at most
  one step of 360/1024 degrees below, up to the rounding of one float division.\<close>

theorem Rotation_quantisation:
  assumes "fl32 x = x" "fl32 y = y" "fl32 z = z"
    and "0 \<le> x" "x < 360" "0 \<le> y" "y < 360" "0 \<le> z" "z < 360"
  shows "\<exists>r a b c. Rotation_Set this (vec3 x y z) = Some r \<and> Rotation_Get r = vec3 a b c \<and>
    angle_near x a \<and> angle_near y b \<and> angle_near z c"
proof -
  have "\<exists>r. Rotation_Set this (vec3 x y z) = Some r \<and>
      Rotation_Get r = vec3 (angle_quantum x) (angle_quantum y) (angle_quantum z)"
    by (rule Rotation_Set_Get) (use assms in auto)
  then show ?thesis using angle_quantum_near assms by blast
qed

lemma Rotation_quantisation_witness:
  "\<exists>r a b c. Rotation_Set \<lparr>rotation = 0\<rparr> (vec3 0 90 359) = Some r \<and> Rotation_Get r = vec3 a b c \<and>
    angle_near 90 b"
proof -
  have "fl32 0 = 0" "fl32 90 = 90" "fl32 359 = 359" by code_simp+
  then show ?thesis using Rotation_quantisation [of 0 90 359 "\<lparr>rotation = 0\<rparr>"] by auto
qed

text \<open>C27: A position whose coordinates are floats of magnitude below 4096 is read back with each
  coordinate off by less than 1/256; for larger ones the magnitude is taken modulo 4096.\<close>

theorem Position_quantisation:
  assumes "fl32 x = x" "fl32 y = y" "fl32 z = z"
    and "\<bar>x\<bar> < 2 ^ 23" "\<bar>y\<bar> < 2 ^ 23" "\<bar>z\<bar> < 2 ^ 23"
  shows "\<exists>p. Position_Set this (vec3 x y z) = Some p \<and>
    Position_Get p = vec3 (pos_quantum x) (pos_quantum y) (pos_quantum z) \<and>
    (\<forall>v. \<bar>v\<bar> < 4096 \<longrightarrow> \<bar>pos_quantum v - v\<bar> < 1 / 256)"
  using Position_Pack_word [OF assms] Position_Unpack_word [of x y z] pos_quantum_close
  by (simp add: Position_Set_def Position_Get_def vec3_def)

lemma Position_quantisation_witness:
  "\<exists>p. Position_Set \<lparr>position = 0\<rparr> (vec3 1 0 (- 2)) = Some p \<and>
     Position_Get p = vec3 (pos_quantum 1) (pos_quantum 0) (pos_quantum (- 2))"
proof -
  have "fl32 1 = 1" "fl32 0 = 0" "fl32 (- 2) = - 2"
    using fl32_int [of 1] fl32_int [of 0] fl32_int [of "- 2"] by simp_all
  then show ?thesis using Position_quantisation [of 1 0 "- 2" "\<lparr>position = 0\<rparr>"] by auto
qed

text \<open>A non-negative float that passes the range assertion is stored as its multiple of 1/512 and
  read back truncated to it; a negative one of at least that size has no defined conversion.\<close>

lemma Float_quantisation:
  assumes "fl32 x = x" and "\<bar>x\<bar> * 512 < 16537"
  shows "(0 \<le> x \<longrightarrow>
      (\<exists>r. Float_Set debug this x = Inr r \<and> Float_Get r = of_int \<lfloor>x * 512\<rfloor> / 512)) \<and>
    (x * 512 \<le> - 1 \<longrightarrow> Float_Set debug this x = Inl BadConversion)"
  using Float_Set_Get [OF assms(1), of debug this] Float_Set_negative [OF assms(1), of debug this] assms(2)
  by (auto simp: abs_if split: if_splits)

lemma Float_quantisation_witness:
  "\<exists>r. Float_Set True \<lparr>fc_value = 0\<rparr> 3 = Inr r \<and> Float_Get r = 3 \<and>
     Float_Set True \<lparr>fc_value = 0\<rparr> (- 3) = Inl BadConversion"
proof -
  have e: "fl32 3 = 3" "fl32 (- 3) = - 3" using fl32_int [of 3] fl32_int [of "- 3"] by simp_all
  show ?thesis
    using Float_quantisation [OF e(1), of True "\<lparr>fc_value = 0\<rparr>"]
      Float_quantisation [OF e(2), of True "\<lparr>fc_value = 0\<rparr>"] by auto
qed

section \<open>The UDP handshake\<close>

text \<open>C28: What one side sends in the handshake is what the other side accepts, and it accepts nothing
  else: any other first six bytes make the connection fail.\<close>

theorem handshake_accepted:
  assumes "length mem = 1024" and "length buffer = 1024"
  shows "(\<exists>b sm. DataSend mem 1024 (new_CommsStateMachine (\<not> isServer)) = Inr (True, 6, b, sm) \<and>
      DataReceive b 1024 (new_CommsStateMachine isServer) =
        Inr (True, (new_CommsStateMachine isServer)\<lparr>currentState := SendConnectionId\<rparr>)) \<and>
    (take 6 buffer \<noteq> [0xAA, if isServer then 4 else 8, 0x49, 0x4F, 0x49, 0x43] \<longrightarrow>
      DataReceive buffer 1024 (new_CommsStateMachine isServer) =
        Inr (False, (new_CommsStateMachine isServer)\<lparr>currentState := ConnectionFailed\<rparr>))"
proof -
  have new: "currentState (new_CommsStateMachine c) = SendHandshake" "iniates (new_CommsStateMachine c) = (\<not> c)"
    "(new_CommsStateMachine c)\<lparr>currentState := st, hasSentState := False\<rparr> =
     (new_CommsStateMachine c)\<lparr>currentState := st\<rparr>" for c st
    by (simp_all add: new_CommsStateMachine_def)
  obtain b where b: "wr mem 0 (handshake isServer @ [0]) = Some b"
    "DataSend mem 1024 (new_CommsStateMachine (\<not> isServer)) =
       Inr (True, 6, b, (new_CommsStateMachine (\<not> isServer))\<lparr>hasSentState := True\<rparr>)"
    using DataSend_handshake [of "new_CommsStateMachine (\<not> isServer)" 1024 mem] assms(1) new by auto
  have "holds_at b 0 (handshake isServer)" using wr_holds_at [OF b(1)] by (simp add: holds_at_append)
  then have acc: "DataReceive b 1024 (new_CommsStateMachine isServer) =
      Inr (True, (new_CommsStateMachine isServer)\<lparr>currentState := SendConnectionId\<rparr>)"
    using DataReceive_handshake [of "new_CommsStateMachine isServer" 1024 b] length_wr [OF b(1)] assms(1) new
    by simp
  have h: "handshake isServer = [0xAA, if isServer then 4 else 8, 0x49, 0x4F, 0x49, 0x43]"
    by (simp add: handshake_def sentinel_def clientId_def serverId_def uniqueLibraryId_def)
  have "holds_at buffer 0 (handshake isServer) \<longleftrightarrow> take 6 buffer = handshake isServer"
    using assms(2) by (simp add: holds_at_def rd_def)
  then have "take 6 buffer \<noteq> handshake isServer \<longrightarrow> DataReceive buffer 1024 (new_CommsStateMachine isServer) =
      Inr (False, (new_CommsStateMachine isServer)\<lparr>currentState := ConnectionFailed\<rparr>)"
    using DataReceive_handshake [of "new_CommsStateMachine isServer" 1024 buffer] assms(2) new by simp
  then show ?thesis using acc b(2) unfolding h by blast
qed

lemma handshake_accepted_witness:
  "\<exists>b sm. DataSend (replicate 1024 0) 1024 (new_CommsStateMachine False) = Inr (True, 6, b, sm) \<and>
     DataReceive b 1024 (new_CommsStateMachine True) =
       Inr (True, (new_CommsStateMachine True)\<lparr>currentState := SendConnectionId\<rparr>)"
  using handshake_accepted [of "replicate 1024 0" "replicate 1024 0" True] by auto

text \<open>A machine is in the handshake, waits to send its connection id, or has failed; once it has
  left the handshake no send and no receive changes it any more.\<close>

lemma comms_final:
  assumes "comms_reach isServer sm"
  shows "currentState sm \<in> {SendHandshake, SendConnectionId, ConnectionFailed} \<and>
    iniates sm = (\<not> isServer) \<and>
    (currentState sm \<noteq> SendHandshake \<longrightarrow> (\<forall>sm'. comms_step\<^sup>*\<^sup>* sm sm' \<longrightarrow> sm' = sm))"
  using comms_reach_inv [OF assms] comms_stuck unfolding comms_inv_def by blast

lemma comms_final_witness:
  "currentState (new_CommsStateMachine True) \<in> {SendHandshake, SendConnectionId, ConnectionFailed}"
  using comms_final [OF comms_reach.new [of True]] by blast

text \<open>C29: The whole UDP client sends one handshake and no more: if everything works it takes the first
  answer and then waits for ever for \<^verbatim>\<open>ReadyToSend\<close>, which nothing sets again, and it exits if a call fails.
  It has connected exactly when the first six bytes of a full answer are the server's handshake.\<close>

theorem client_sends_once:
  assumes "length buffer = 1024" and "6 \<le> slen"
    and "\<forall>reply. recvfrom_reply a = Some reply \<longrightarrow> length reply \<le> 1024"
  shows "\<exists>sm. udp_client_main wsa_ok socket_ok (a # as) slen buffer =
    Some (Inr (if wsa_ok \<and> socket_ok \<and> sendto_ok a \<and> recvfrom_reply a \<noteq> None then Waiting else Exited,
      if wsa_ok \<and> socket_ok \<and> sendto_ok a then [handshake True] else [], sm)) \<and>
    (\<forall>reply. wsa_ok \<and> socket_ok \<and> sendto_ok a \<and> recvfrom_reply a = Some reply \<and> length reply = 1024 \<longrightarrow>
       currentState sm = (if take 6 reply = handshake False then SendConnectionId else ConnectionFailed))"
proof -
  have "holds_at reply 0 (handshake False) \<longleftrightarrow> take 6 reply = handshake False" if "length reply = 1024" for reply
    using that by (simp add: holds_at_def rd_def)
  with udp_client_main_ends [OF assms, of wsa_ok socket_ok as] show ?thesis by auto
qed

lemma client_sends_once_witness:
  "\<exists>sm. udp_client_main True True
      (replicate 3 \<lparr>sendto_ok = True, recvfrom_reply = Some (handshake False @ replicate 1018 0)\<rparr>) 16
      (replicate 1024 0) = Some (Inr (Waiting, [handshake True], sm)) \<and> currentState sm = SendConnectionId"
  using client_sends_once [of "replicate 1024 0" 16
      "\<lparr>sendto_ok = True, recvfrom_reply = Some (handshake False @ replicate 1018 0)\<rparr>" True True
      "replicate 2 \<lparr>sendto_ok = True, recvfrom_reply = Some (handshake False @ replicate 1018 0)\<rparr>"]
  by (auto simp: numeral_3_eq_3 numeral_2_eq_2)

text \<open>Every connection of a server is past the handshake, so a round of service sends uninitialised
  memory to all of them.\<close>

lemma udp_server_service:
  assumes "udp_server_reach s" and "\<forall>k. length (mem k) = 1024"
  shows "ServiceOutgoingConnections mem s =
      Inr (s\<lparr>datagrams := datagrams s @ map (\<lambda>(k, c). (k, mem k)) (connections s)\<rparr>) \<and>
    (\<forall>(k, c)\<in>set (connections s). currentState (stateMachine c) \<noteq> SendHandshake)"
proof -
  have inv: "udp_inv s" by (rule udp_server_reach_inv [OF assms(1)])
  have "map_find (connections s) k = Some c" if "(k, c) \<in> set (connections s)" for k c
    using inv that by (auto simp: udp_inv_def map_ok_def map_find_def map_of_eq_Some_iff strict_sorted_iff)
  then have "\<forall>(k, c)\<in>set (connections s). currentState (stateMachine c) \<noteq> SendHandshake"
    using inv unfolding udp_inv_def by fastforce
  then show ?thesis using service_loop_sends [OF inv _ assms(2), of "connections s"]
    by (simp add: ServiceOutgoingConnections_def)
qed

lemma udp_connected:
  "\<exists>s c. udp_server_reach s \<and> isValid s \<and> connections s = [((0x7F000001, 5150), c)]"
proof -
  let ?s = "UdpServer_Init \<lparr>wsa_startup_ok = True, socket_handle = Some 3, setsockopt_ok = True, bind_ok = True\<rparr>
    new_udp_server" and ?mem = "replicate BufLength 0 :: bytes" and ?a = "(0x7F000001, 5150) :: socket_pair"
  have s: "udp_server_reach ?s" by (rule udp_server_reach.init)
  have e: "connections ?s = []"
    by (simp add: new_udp_server_def)
  obtain c where c: "HandleDataIn ([9] @ drop 1 ?mem) (int BufLength) (new_Connection ?a) = Inr c"
    using HandleDataIn_new [of "int BufLength" "[9] @ drop 1 ?mem" ?a] by (auto simp: BufLength_def)
  have r: "Receive 1 id ?mem [Recv [9] ?a] ?s = Some (Inr (?s\<lparr>connections := [(?a, c)]\<rparr>))"
    using c Receive_once [of "[Recv [9] ?a]" "[9]" ?a "[]" id ?mem ?s] e
    by (simp add: Receive_def PassBufferToConnection_def Let_def map_find_def BufLength_def)
  have "udp_server_step ?s (?s\<lparr>connections := [(?a, c)]\<rparr>)"
    by (rule udp_server_step.receive [OF _ _ r]) (simp_all add: BufLength_def)
  with s have "udp_server_reach (?s\<lparr>connections := [(?a, c)]\<rparr>)" by (rule udp_server_reach.step)
  moreover have "isValid (?s\<lparr>connections := [(?a, c)]\<rparr>)"
    by (simp add: UdpServer_Init_valid)
  ultimately show ?thesis by force
qed

text \<open>C30: The server's thread never stops once its socket works, whatever arrives, and never answers a
  handshake: in every round it sends each known connection 1024 bytes of uninitialised memory.\<close>

theorem udp_server_sends_garbage:
  assumes "udp_server_reach s" and "isValid s" and "\<forall>r\<in>set rs. round_ok r"
    and "udp_server_call os rs s = Some res"
  shows "\<exists>s'. res = Inr (False, s') \<and> isValid s' \<and>
    (\<forall>k c. map_find (connections s) k = Some c \<longrightarrow> currentState (stateMachine c) \<noteq> SendHandshake \<and>
       sent_to k s' = sent_to k s @ map (\<lambda>r. send_memory r k) rs)"
proof -
  have inv: "udp_inv s" by (rule udp_server_reach_inv [OF assms(1)])
  have "udp_loop rs s = Some res" using assms(2,4) by (simp add: udp_server_call_def)
  from udp_loop_runs [OF inv assms(2,3) this] obtain s' where s': "res = Inr (False, s')" "isValid s'"
    "\<forall>k. map_find (connections s) k \<noteq> None \<longrightarrow> sent_to k s' = sent_to k s @ map (\<lambda>r. send_memory r k) rs"
    by blast
  moreover have "currentState (stateMachine c) \<noteq> SendHandshake" if "map_find (connections s) k = Some c" for k c
    using inv that unfolding udp_inv_def by fastforce
  ultimately show ?thesis by auto
qed

lemma udp_server_sends_garbage_witness:
  "\<exists>s s' d. udp_server_reach s \<and>
     udp_server_call \<lparr>wsa_startup_ok = True, socket_handle = Some 3, setsockopt_ok = True, bind_ok = True\<rparr>
       (replicate 2 \<lparr>select_result = 0, peer_name = id, receive_memory = replicate BufLength 0, received_now = [],
          send_memory = \<lambda>_. replicate 1024 0xCC\<rparr>) s = Some (Inr (False, s')) \<and>
     sent_to (0x7F000001, 5150) s' = d @ [replicate 1024 0xCC, replicate 1024 0xCC]"
proof -
  let ?os = "\<lparr>wsa_startup_ok = True, socket_handle = Some 3, setsockopt_ok = True, bind_ok = True\<rparr>"
  let ?r = "\<lparr>select_result = 0, peer_name = id, receive_memory = replicate BufLength 0, received_now = [],
     send_memory = \<lambda>_. replicate 1024 0xCC\<rparr>"
  obtain s c where s: "udp_server_reach s" "isValid s" "connections s = [((0x7F000001, 5150), c)]"
    using udp_connected by blast
  have ok: "round_ok ?r" by (simp add: round_ok_def)
  have "udp_loop (replicate n ?r) t \<noteq> None" if "udp_inv t" "isValid t" for n t
    using that
  proof (induction n arbitrary: t)
    case (Suc n)
    then show ?case using Service_sends [OF Suc.prems(1) ok] by (simp add: Receive_def udp_inv_def)
  qed simp
  from this [OF udp_server_reach_inv [OF s(1)] s(2), of 2] obtain res
    where res: "udp_server_call ?os (replicate 2 ?r) s = Some res"
    using s(2) by (auto simp: udp_server_call_def)
  from udp_server_sends_garbage [OF s(1,2) _ res] ok s(3) show ?thesis
    using s(1) res by (auto simp: map_find_def numeral_2_eq_2)
qed

section \<open>The observer\<close>

text \<open>C31: The observer's map counts the packets of each type (modulo \<open>2 ^ 32\<close>), but \<^verbatim>\<open>GetCount\<close>
  returns 0 for every type that was seen and dereferences the end iterator for every other.\<close>

theorem observer_GetCount:
  fixes ps :: "BasePacket list"
  shows "map_find (fold PacketReceived ps []) (uint t, uint st) =
     (if \<exists>p\<in>set ps. packetType p = t \<and> packetSubType p = st
      then Some (of_nat (length (filter (\<lambda>p. packetType p = t \<and> packetSubType p = st) ps))) else None) \<and>
   GetCount t st (fold PacketReceived ps []) =
     (if \<exists>p\<in>set ps. packetType p = t \<and> packetSubType p = st then Inr 0 else Inl EndIteratorDeref)"
proof -
  have "seen ps (uint t, uint st) = length (filter (\<lambda>p. packetType p = t \<and> packetSubType p = st) ps)"
    by (simp add: seen_def flip: word_uint_eq_iff)
  then show ?thesis using observer_counts [of ps "(uint t, uint st)"]
    by (auto simp: GetCount_def filter_empty_conv split: if_splits)
qed

lemma observer_GetCount_witness:
  "GetCount 0 1 (fold PacketReceived [new_BasePacket 0 1] []) = Inr 0"
  using observer_GetCount [of "[new_BasePacket 0 1]" 0 1] by (simp add: new_BasePacket_def)

section \<open>Sockets\<close>

text \<open>\<^verbatim>\<open>IsPortBusy\<close> answers that a port is free exactly if every call on the way to \<^verbatim>\<open>listen\<close>
  succeeds, and on every path it releases the address list and the socket that it acquired, once.\<close>

lemma IsPortBusy_releases:
  "(\<not> fst (IsPortBusy os) \<longleftrightarrow> ans_getaddrinfo os = 0 \<and> ans_socket os \<noteq> -1 \<and>
      ans_setsockopt os \<noteq> -1 \<and> ans_bind os \<noteq> -1 \<and> ans_listen os \<noteq> -1) \<and>
   calls_of Call_closesocket (snd (IsPortBusy os)) =
     (if ans_getaddrinfo os = 0 \<and> ans_socket os \<noteq> -1 then 1 else 0) \<and>
   calls_of Call_freeaddrinfo (snd (IsPortBusy os)) = (if ans_getaddrinfo os = 0 then 1 else 0)"
  using IsPortBusy_answer [of os] IsPortBusy_balanced [of os] by (simp add: SOCKET_ERROR_def)

text \<open>The constructor of \<^verbatim>\<open>udpServer\<close>, or constructor and destructor if it succeeds, free the
  address list and close the socket exactly as often as they were acquired.\<close>

lemma udpServer_releases:
  "(case udpServer_new os found addr port of (srv, calls) \<Rightarrow>
     let all = calls @ (case srv of None \<Rightarrow> [] | Some srv \<Rightarrow> udpServer_delete srv)
     in calls_of Call_freeaddrinfo all = (if ans_getaddrinfo os = 0 \<and> found then 1 else 0) \<and>
        calls_of Call_closesocket all =
          (if ans_getaddrinfo os = 0 \<and> found \<and> ans_socket os \<noteq> -1 then 1 else 0))"
  using udpServer_balanced [of os found addr port]
  by (auto simp: Let_def calls_of_def split: prod.split option.splits)

text \<open>\<^verbatim>\<open>timed_recv\<close> splits its timeout into seconds and microseconds exactly, but on a socket that
  can be written and has no data it blocks without a limit instead of timing out.\<close>

lemma timed_recv_no_timeout:
  assumes "0 \<le> max_wait_ms"
  shows "(case select_timeout max_wait_ms of (sec, usec) \<Rightarrow>
      sec * 1000000 + usec = max_wait_ms * 1000 \<and> 0 \<le> usec \<and> usec < 1000000) \<and>
    (writable r \<and> \<not> readable r \<longrightarrow> timed_recv False r data = Blocks)"
  using select_timeout_exact [OF assms] timed_recv_blocks by (auto split: prod.split)

lemma timed_recv_no_timeout_witness:
  "(case select_timeout 2500 of (sec, usec) \<Rightarrow> sec * 1000000 + usec = 2500000) \<and>
   timed_recv False \<lparr>readable = False, writable = True, in_error = False\<rparr> 7 = Blocks"
  using timed_recv_no_timeout [of 2500 "\<lparr>readable = False, writable = True, in_error = False\<rparr>" 7]
  by (auto split: prod.splits)

section \<open>Texts and buckets\<close>

text \<open>C32: A text assigned to a \<^verbatim>\<open>FixedLengthString\<close>, serialised and read into another one arrives
  cut to its first \<open>N\<close> characters, and takes exactly \<open>N\<close> bytes.\<close>

theorem Fixed_text_roundtrip:
  assumes "length b = N + 1" and "length b0 = N + 1" and "0 \<notin> set s" and "off + N \<le> length buf"
  shows "\<exists>b' buf' b''. Fixed_copy N (Some s) b = Some b' \<and>
    Fixed_SerializeOut N buf off b' = Some (buf', off + N) \<and>
    Fixed_SerializeIn N buf' off b0 = Some (b'', off + N) \<and> cstr b'' = take N s"
proof -
  obtain b' where b': "Fixed_copy N (Some s) b = Some b'" "fixed_ok N b'" "cstr b' = take N s"
    using Fixed_copy_result [OF assms(1,3)] by blast
  obtain buf' where "wr buf off (padded N (cstr b')) = Some buf'"
    using wr_defined_iff [of buf off "padded N (cstr b')"] assms(4) by auto
  then have out: "Fixed_SerializeOut N buf off b' = Some (buf', off + N)"
    by (simp add: Fixed_SerializeOut_def strncpy_from_ok [OF b'(2)])
  show ?thesis using b' out Fixed_roundtrip [OF b'(2) out assms(2)] by auto
qed

lemma Fixed_text_roundtrip_witness:
  "\<exists>b' buf' b''. Fixed_copy 4 (Some [65, 66, 67, 68, 69]) (replicate 5 1) = Some b' \<and>
     Fixed_SerializeOut 4 (replicate 6 0) 1 b' = Some (buf', 5) \<and>
     Fixed_SerializeIn 4 buf' 1 (replicate 5 7) = Some (b'', 5) \<and> cstr b'' = [65, 66, 67, 68]"
  using Fixed_text_roundtrip [of "replicate 5 1" 4 "replicate 5 7" "[65, 66, 67, 68, 69]" 1 "replicate 6 0"]
  by simp

text \<open>A \<^verbatim>\<open>DynamicDataBucket\<close> that is rectangular, not empty and made of short texts without zero
  bytes is read back as it was written, whatever the reader held; an empty one cannot be written,
  because the column count is taken through the end iterator.\<close>

lemma DataBucket_wire:
  assumes "off + 4 \<le> length buf"
  shows "(data_ok rows \<and> DataBucket_SerializeOut buf off rows = Inr (b, off') \<longrightarrow>
      DataBucket_SerializeIn b off old = Some (rows, off')) \<and>
    DataBucket_SerializeOut buf off [] = Inl EndIteratorDeref"
  using DataBucket_roundtrip [of rows buf off b off' old] DataBucket_Out_empty [OF assms] by blast

lemma DataBucket_wire_witness:
  "\<exists>b. DataBucket_SerializeOut (replicate 20 0) 0 [[[65], [66]], [[], [67]]] = Inr (b, 19) \<and>
     DataBucket_SerializeIn b 0 [] = Some ([[[65], [66]], [[], [67]]], 19)"
proof -
  let ?rows = "[[[65], [66]], [[], [67]]] :: data_bucket"
  have ok: "data_ok ?rows" by (simp add: data_ok_def string_ok_def MaxString_def)
  have "length (enc_data ?rows) = 19" by (simp add: enc_data_def enc_list_def enc_string_def)
  then have "wr (replicate 20 0) 0 (enc_data ?rows) \<noteq> None" by (simp add: wr_def)
  then obtain b where "DataBucket_SerializeOut (replicate 20 0) 0 ?rows = Inr (b, 19)"
    using DataBucket_Out_enc [of ?rows "replicate 20 0" 0] \<open>length (enc_data ?rows) = 19\<close> by auto
  then show ?thesis using DataBucket_wire [of 0 "replicate 20 0" ?rows b 19 "[]"] ok by auto
qed

section \<open>Utilities\<close>

text \<open>C33: A date that \<^verbatim>\<open>GetDateInUTC\<close> prints is parsed by \<^verbatim>\<open>GetDateFromString\<close> back to the calendar
  fields it was printed from, whatever the current time is.\<close>

theorem date_roundtrip:
  assumes "0 \<le> tm_mon (gmtime t)" "0 \<le> tm_mday (gmtime t)" "0 \<le> tm_hour (gmtime t)"
    "0 \<le> tm_min (gmtime t)" "0 \<le> tm_sec (gmtime t)"
  shows "GetDateFromString gmtime mktime now (GetDateInUTC_at gmtime t) = word_of_int (mktime (gmtime t))"
  using assms by (intro GetDateFromString_GetDateInUTC) (simp add: tm_ok_def)

lemma date_roundtrip_witness:
  "let fields = (\<lambda>t. \<lparr>tm_year = 119, tm_mon = 0, tm_mday = 9, tm_hour = t, tm_min = 0, tm_sec = 59\<rparr>);
       seconds = (\<lambda>f. tm_hour f * 3600 + tm_sec f)
   in GetDateFromString fields seconds 3 (GetDateInUTC_at fields 17) = 61259"
  using date_roundtrip [of "\<lambda>t. \<lparr>tm_year = 119, tm_mon = 0, tm_mday = 9, tm_hour = t, tm_min = 0, tm_sec = 59\<rparr>" 17
      "\<lambda>f. tm_hour f * 3600 + tm_sec f" 3]
  by (simp add: Let_def)

text \<open>\<^verbatim>\<open>StringToU64\<close> of the decimal digits of a number is that number modulo \<open>2 ^ 64\<close>.\<close>

lemma StringToU64_decimal: "unat (StringToU64 (map of_char (show_nat n))) = n mod 2 ^ 64"
  by (simp add: StringToU64_show_nat unat_of_nat)

section \<open>The unit tests\<close>

text \<open>The five tests of the serialisation of values pass, whatever their uninitialised buffers hold.\<close>

lemma serialization_tests_pass:
  assumes "length buffer = 100" and "length text_buffer = MaxString"
  shows "BasicU16Copy buffer = Some () \<and> MultipleU16Copy buffer = Some () \<and>
    BasicMostSizesCopy buffer = Some () \<and> BasicUStringCopy text_buffer = Some () \<and>
    BasicBoolCopy buffer = Some ()"
  using assms by (simp add: BasicU16Copy_passes MultipleU16Copy_passes BasicMostSizesCopy_passes
    BasicUStringCopy_passes BasicBoolCopy_passes)

lemma serialization_tests_pass_witness:
  "BasicMostSizesCopy (replicate 100 0xCC) = Some () \<and> BasicUStringCopy (replicate MaxString 0) = Some ()"
  using serialization_tests_pass [of "replicate 100 0xCC" "replicate MaxString 0"] by simp





text \<open>C36: The pool tests: 100 objects of each of three classes can be held at once, and the 300 are
  pairwise different; objects that are released in the middle are taken again without disturbing the
  others, so that the second test prints exactly the instance ids it has written last.\<close>

theorem pool_tests_pass:
  "FactoryTest_ValidateUniqueness debug junk process_start = Some process_start \<and>
   FactoryTest_DeleteItemsInMiddle debug junk process_start = Some (process_start,
     map (\<lambda>i. (i, int (if even i then i + 200 else if 45 \<le> i \<and> i < 55 then i + 100 else i))) [0..<100])"
  by (simp only: FactoryTest_ValidateUniqueness_passes FactoryTest_DeleteItemsInMiddle_prints simp_thms)



section \<open>Base64, the log and the sample client\<close>

text \<open>C38: Base64: under what Boost documents of its iterators, \<^verbatim>\<open>base64_encode\<close> writes the Base64 text of
  the data, four characters for three bytes, padded with \<^verbatim>\<open>=\<close>, and nothing behind it; and
  \<^verbatim>\<open>base64_decode\<close> gets exactly the data back and returns the end of the text, if it is asked for
  exactly the data's length, or for more and the text needs no padding.\<close>

theorem base64_roundtrip:
  assumes "encodes enc alpha" and "decodes dec value" and "\<forall>s<64. value (alpha s) = Some s"
    and "length data < 3 * 2 ^ 30 - 3" and room: "4 * ((length data + 2) div 3) \<le> length dest"
    and "length data \<le> length out"
    and "m = of_nat (length data) \<or> length data \<le> unat m \<and> length data mod 3 = 0 \<and> value 0 = None"
  shows "let n = 4 * ((length data + 2) div 3)
    in \<exists>d. base64_encode enc dest (data @ rest) (of_nat (length data)) = Some (d, of_nat n) \<and>
      take n d = base64_text alpha data \<and> drop n d = drop n dest \<and>
      base64_decode dec out (take n d @ 0 # behind) m =
        Some (data @ drop (length data) out, of_nat (length data), of_nat n)"
  using base64_encode_text [OF assms(1,4,5), of rest] base64_decode_text [OF assms(2,3,4,6,7), of behind] room
  by (simp add: wr_def Let_def)

lemma base64_roundtrip_witness:
  "\<exists>d. base64_encode (map base64_char \<circ> sextets) (replicate 8 0) [0x66, 0x6F, 0x6F, 0x62] 4 = Some (d, 8) \<and>
     d = map of_char ''Zm9vYg=='' \<and>
     base64_decode base64_values (replicate 6 7) (d @ [0]) 4 = Some ([0x66, 0x6F, 0x6F, 0x62, 7, 7], 4, 8)"
proof -
  let ?data = "[0x66, 0x6F, 0x6F, 0x62] :: bytes"
  have e: "encodes (map base64_char \<circ> sextets) base64_char" by (simp add: encodes_def)
  have b: "base64_text base64_char ?data = map of_char ''Zm9vYg==''" by code_simp
  obtain d where d: "base64_encode (map base64_char \<circ> sextets) (replicate 8 0) (?data @ []) (of_nat (length ?data)) =
      Some (d, of_nat 8)" "take 8 d = base64_text base64_char ?data" "drop 8 d = drop 8 (replicate 8 0)"
    "base64_decode base64_values (replicate 6 7) (take 8 d @ 0 # []) 4 =
      Some (?data @ drop (length ?data) (replicate 6 7), of_nat (length ?data), of_nat 8)"
    using base64_roundtrip [OF e base64_values_decodes base64_value_char, of ?data "replicate 8 0" "replicate 6 7" 4 "[]" "[]"]
    by (auto simp: Let_def)
  have "drop 4 (replicate 6 7) = [7, 7 :: U8]" by (simp add: eval_nat_numeral)
  moreover have "d = take 8 d @ drop 8 d" by simp
  then have "d = map of_char ''Zm9vYg==''" using d(2,3) b by simp
  ultimately show ?thesis using d by simp
qed



text \<open>C40: The sample client crashes when it is used long enough, whatever the network does: nothing sends
  the packets of its key loop, so they are never released, and the pool is empty after 99 or 100 of
  them. It ends with Escape if that is pressed earlier.\<close>

theorem sample_client_crashes:
  assumes "\<forall>s. client_io\<^sup>*\<^sup>* s (run_for s)" and "27 \<in> set keys"
  shows "\<exists>n s. n \<le> 1 \<and> client04_main debug junk now resolved run_for keys self_registered =
    (if n + length (takeWhile (\<lambda>k. k \<noteq> 27) keys) < 100 then Inr (True, s) else Inl NullDeref)"
  by (rule client04_main_ends) (use assms in blast)+

lemma sample_client_crashes_witness:
  "client04_main False (\<lambda>_. 0) 0 [] id (replicate 100 13 @ [27]) self_registered = Inl NullDeref \<and>
   (\<exists>s. client04_main False (\<lambda>_. 0) 0 [] id [13, 27] self_registered = Inr (True, s))"
proof -
  have "length (takeWhile (\<lambda>k. k \<noteq> 27) (replicate 100 13 @ [27 :: int])) = 100"
    by (simp add: takeWhile_append_stop)
  then show ?thesis
    using sample_client_crashes [of id "replicate 100 13 @ [27]" False "\<lambda>_. 0" 0 "[]"]
      sample_client_crashes [of id "[13, 27]" False "\<lambda>_. 0" 0 "[]"] by auto
qed

end
